(* ===== verification/Prelude.thy ===== *)
theory Prelude
  imports Main "HOL-Library.Word" "HOL-Library.Sublist"
begin

text \<open>
  Shared vocabulary of the development: the C++ string operations the sources use
  (find, rfind, substr, std::getline, operator\<open>>>\<close>, the ctype predicates, std::stoi,
  std::to_string), with indices as \<open>nat option\<close> in place of npos; the values that stand for
  undefined behaviour and for thrown exceptions; and the generic machine locale that
  every state machine of the development interprets.
\<close>

section \<open>Collections and results\<close>

named_theorems str_simps \<open>rewrites for the string operations\<close>
named_theorems inv_intros \<open>preservation of component invariants by single operations\<close>

text \<open>
  A step that runs into undefined behaviour of C++ (an out-of-range access of a vector, a
  dereference of an end iterator, a signed overflow, a second lock of a std::mutex the thread already holds, a pointer to an object whose scope has
  ended), that
  never returns or that ends in std::terminate has no value; a step that throws carries the
  message. A step that uses the value of another one runs after it (\<open>and_then\<close>).
\<close>

datatype ub = OutOfBounds | EndIterator | IntOverflow | NoReturn | SelfDeadlock | Terminates | UseAfterScope

type_synonym 'a or_ub = "ub + 'a"
type_synonym 'a or_throw = "string + 'a"

fun and_then :: "'e + 'a \<Rightarrow> ('a \<Rightarrow> 'e + 'b) \<Rightarrow> 'e + 'b" where
  "and_then (Inl u) f = Inl u"
| "and_then (Inr x) f = f x"

lemma and_then_Inr: "and_then r f = Inr y \<longleftrightarrow> (\<exists>x. r = Inr x \<and> f x = Inr y)"
  by (cases r) auto

lemma and_then_Inl: "and_then r f = Inl u \<longleftrightarrow> r = Inl u \<or> (\<exists>x. r = Inr x \<and> f x = Inl u)"
  by (cases r) auto

fun each_then :: "('a \<Rightarrow> 'e + 'b) \<Rightarrow> 'a list \<Rightarrow> 'e + 'b list" where
  "each_then f [] = Inr []"
| "each_then f (x # xs) = and_then (f x) (\<lambda>y. and_then (each_then f xs) (\<lambda>ys. Inr (y # ys)))"

type_synonym byte = "8 word"
type_synonym u16 = "16 word"
type_synonym u32 = "32 word"
type_synonym u64 = "64 word"

section \<open>Searching strings\<close>

fun index_of :: "('a \<Rightarrow> bool) \<Rightarrow> 'a list \<Rightarrow> nat option" where
  "index_of P [] = None"
| "index_of P (x # xs) = (if P x then Some 0 else map_option Suc (index_of P xs))"

fun last_index_of :: "('a \<Rightarrow> bool) \<Rightarrow> 'a list \<Rightarrow> nat option" where
  "last_index_of P [] = None"
| "last_index_of P (x # xs) =
     (case last_index_of P xs of
        Some i \<Rightarrow> Some (Suc i)
      | None \<Rightarrow> if P x then Some 0 else None)"

definition find_char :: "char \<Rightarrow> string \<Rightarrow> nat option" where
  "find_char c s = index_of (\<lambda>x. x = c) s"

definition find_char_at :: "char \<Rightarrow> string \<Rightarrow> nat \<Rightarrow> nat option" where
  "find_char_at c s from = map_option (\<lambda>i. i + from) (find_char c (drop from s))"

definition rfind_char :: "char \<Rightarrow> string \<Rightarrow> nat option" where
  "rfind_char c s = last_index_of (\<lambda>x. x = c) s"

fun find_str :: "string \<Rightarrow> string \<Rightarrow> nat option" where
  "find_str pat [] = (if pat = [] then Some 0 else None)"
| "find_str pat (x # xs) =
     (if take (length pat) (x # xs) = pat then Some 0
      else map_option Suc (find_str pat xs))"

definition contains_str :: "string \<Rightarrow> string \<Rightarrow> bool" where
  "contains_str pat s \<longleftrightarrow> find_str pat s \<noteq> None"

definition substr :: "string \<Rightarrow> nat \<Rightarrow> nat \<Rightarrow> string" where
  "substr s pos len = take len (drop pos s)"

definition starts_with :: "'a list \<Rightarrow> 'a list \<Rightarrow> bool" where
  "starts_with p s \<longleftrightarrow> take (length p) s = p"

definition ends_with :: "'a list \<Rightarrow> 'a list \<Rightarrow> bool" where
  "ends_with p s \<longleftrightarrow> length p \<le> length s \<and> drop (length s - length p) s = p"

lemma index_of_None [simp]: "index_of P xs = None \<longleftrightarrow> (\<forall>x \<in> set xs. \<not> P x)"
  by (induction xs) auto

lemma index_of_Some:
  "index_of P xs = Some i \<Longrightarrow> i < length xs \<and> P (xs ! i) \<and> (\<forall>x \<in> set (take i xs). \<not> P x)"
  by (induction xs arbitrary: i) (auto split: if_splits)

lemma index_of_append_first:
  "\<forall>x \<in> set xs. \<not> P x \<Longrightarrow> P y \<Longrightarrow> index_of P (xs @ y # ys) = Some (length xs)"
  by (induction xs) auto

lemma last_index_of_None [simp]: "last_index_of P xs = None \<longleftrightarrow> (\<forall>x \<in> set xs. \<not> P x)"
  by (induction xs) (auto split: option.splits)

lemma last_index_of_Some:
  "last_index_of P xs = Some i \<Longrightarrow>
     i < length xs \<and> P (xs ! i) \<and> (\<forall>x \<in> set (drop (Suc i) xs). \<not> P x)"
proof (induction xs arbitrary: i)
  case Nil
  then show ?case by simp
next
  case (Cons x xs)
  show ?case
  proof (cases "last_index_of P xs")
    case None
    with Cons.prems have "i = 0" "P x" by (auto split: if_splits)
    moreover from None have "\<forall>y \<in> set xs. \<not> P y" by simp
    ultimately show ?thesis by simp
  next
    case (Some j)
    with Cons.prems have "i = Suc j" by simp
    with Some Cons.IH show ?thesis by auto
  qed
qed

lemma last_index_of_append_last:
  "P y \<Longrightarrow> \<forall>x \<in> set ys. \<not> P x \<Longrightarrow> last_index_of P (xs @ y # ys) = Some (length xs)"
  by (induction xs) (auto split: option.splits)

lemma find_str_bound: "find_str pat s = Some i \<Longrightarrow> i + length pat \<le> length s"
proof (induction s arbitrary: i)
  case Nil
  then show ?case by (auto split: if_splits)
next
  case (Cons x xs)
  then show ?case
    by (auto split: if_splits) (metis Cons.prems length_Cons length_take min.absorb_iff2 min.commute)
qed

lemma find_str_here: "find_str pat s = Some i \<Longrightarrow> take (length pat) (drop i s) = pat"
  by (induction s arbitrary: i) (auto split: if_splits)

lemma find_str_first: "find_str pat s = Some i \<Longrightarrow> j < i \<Longrightarrow> take (length pat) (drop j s) \<noteq> pat"
proof (induction s arbitrary: i j)
  case Nil
  then show ?case by (simp split: if_splits)
next
  case (Cons x xs)
  then show ?case by (cases j) (auto split: if_splits)
qed

lemma find_str_None:
  "find_str pat s = None \<longleftrightarrow> (\<forall>j \<le> length s. take (length pat) (drop j s) \<noteq> pat)"
proof (induction s)
  case Nil
  then show ?case by auto
next
  case (Cons x xs)
  show ?case
  proof (cases "take (length pat) (x # xs) = pat")
    case True
    then show ?thesis by auto
  next
    case False
    then have "find_str pat (x # xs) = None \<longleftrightarrow> find_str pat xs = None" by simp
    also have "\<dots> \<longleftrightarrow> (\<forall>j \<le> length xs. take (length pat) (drop (Suc j) (x # xs)) \<noteq> pat)"
      using Cons.IH by simp
    also have "\<dots> \<longleftrightarrow> (\<forall>j \<le> length (x # xs). take (length pat) (drop j (x # xs)) \<noteq> pat)"
      using False by (metis Suc_le_mono drop_0 length_Cons not0_implies_Suc)
    finally show ?thesis .
  qed
qed

lemma contains_take:
  assumes "contains_str pat (take n s)" shows "contains_str pat s"
proof -
  obtain i where i: "find_str pat (take n s) = Some i" using assms by (auto simp: contains_str_def)
  have "i + length pat \<le> min (length s) n" using find_str_bound [OF i] by simp
  moreover have "take (length pat) (drop i (take n s)) = pat" by (rule find_str_here [OF i])
  ultimately have "take (length pat) (drop i s) = pat" "i \<le> length s"
    by (simp_all add: drop_take min_def split: if_splits)
  then show ?thesis unfolding contains_str_def find_str_None by blast
qed

lemma find_str_cut:
  assumes "find_str pat s = Some i" and "pat \<noteq> []"
  shows "\<not> contains_str pat (take i s)"
proof
  assume "contains_str pat (take i s)"
  then obtain j where j: "find_str pat (take i s) = Some j" by (auto simp: contains_str_def)
  have b: "j + length pat \<le> i" using find_str_bound [OF j] by simp
  then have "length pat \<le> i - j" by linarith
  then have "take (length pat) (drop j s) = pat"
    using find_str_here [OF j] by (simp add: drop_take min_def)
  moreover have "j < i" using b assms(2) by (cases pat) auto
  ultimately show False using find_str_first [OF assms(1)] by blast
qed

lemma starts_with_append [simp]: "starts_with p (p @ s)"
  by (simp add: starts_with_def)

lemma starts_with_prefix: "starts_with p s \<longleftrightarrow> prefix p s"
  unfolding starts_with_def prefix_def
  by (metis append_eq_conv_conj append_take_drop_id)

lemma ends_with_suffix: "ends_with p s \<longleftrightarrow> suffix p s"
  unfolding ends_with_def suffix_def
  by (metis append_eq_conv_conj append_take_drop_id diff_add_inverse2 le_add2 length_append)

section \<open>Character classes\<close>

abbreviation char_nat :: "char \<Rightarrow> nat" where
  "char_nat c \<equiv> of_char c"

definition is_space :: "char \<Rightarrow> bool" where
  "is_space c \<longleftrightarrow> c = CHR '' '' \<or> (9 \<le> char_nat c \<and> char_nat c \<le> 13)"

definition is_digit :: "char \<Rightarrow> bool" where
  "is_digit c \<longleftrightarrow> 48 \<le> char_nat c \<and> char_nat c \<le> 57"

definition is_upper :: "char \<Rightarrow> bool" where
  "is_upper c \<longleftrightarrow> 65 \<le> char_nat c \<and> char_nat c \<le> 90"

definition is_lower :: "char \<Rightarrow> bool" where
  "is_lower c \<longleftrightarrow> 97 \<le> char_nat c \<and> char_nat c \<le> 122"

definition is_alnum :: "char \<Rightarrow> bool" where
  "is_alnum c \<longleftrightarrow> is_digit c \<or> is_upper c \<or> is_lower c"

definition to_lower :: "char \<Rightarrow> char" where
  "to_lower c = (if is_upper c then char_of (char_nat c + 32) else c)"

definition to_upper :: "char \<Rightarrow> char" where
  "to_upper c = (if is_lower c then char_of (char_nat c - 32) else c)"

abbreviation lc :: "string \<Rightarrow> string" where
  "lc s \<equiv> map to_lower s"

lemma to_lower_not_upper [simp]: "\<not> is_upper (to_lower c)"
  by (auto simp: to_lower_def is_upper_def)

lemma to_lower_idem [simp]: "to_lower (to_lower c) = to_lower c"
  by (simp add: to_lower_def [of "to_lower c"])

lemma lc_idem: "lc (lc s) = lc s"
  by simp

abbreviation nl :: char where "nl \<equiv> CHR 0x0A"
abbreviation cr :: char where "cr \<equiv> CHR 0x0D"
abbreviation dquote :: char where "dquote \<equiv> CHR 0x22"
abbreviation squote :: char where "squote \<equiv> CHR 0x27"

text \<open>A string handed over by c_str() ends at its first NUL.\<close>

definition c_str :: "string \<Rightarrow> string" where
  "c_str s = takeWhile (\<lambda>c. c \<noteq> CHR 0x00) s"

definition em_dash :: string where "em_dash = [CHR 0xE2, CHR 0x80, CHR 0x94]"

section \<open>Trimming, lines and words\<close>

text \<open>The left and right trims of white space, and both, as trim() in compose.cpp.\<close>

definition ltrim :: "string \<Rightarrow> string" where
  "ltrim s = dropWhile is_space s"

definition rtrim :: "string \<Rightarrow> string" where
  "rtrim s = rev (dropWhile is_space (rev s))"

text \<open>
  The lines std::getline delivers: the text after the last newline is a line only when it is
  not empty.
\<close>

fun lines_acc :: "string \<Rightarrow> string \<Rightarrow> string list" where
  "lines_acc acc [] = (if acc = [] then [] else [rev acc])"
| "lines_acc acc (c # cs) =
     (if c = nl then rev acc # lines_acc [] cs else lines_acc (c # acc) cs)"

definition lines_of :: "string \<Rightarrow> string list" where
  "lines_of s = lines_acc [] s"

text \<open>The words operator\<open>>>\<close> reads from a stream: maximal runs of non-space characters.\<close>

fun words_acc :: "string \<Rightarrow> string \<Rightarrow> string list" where
  "words_acc acc [] = (if acc = [] then [] else [rev acc])"
| "words_acc acc (c # cs) =
     (if is_space c
      then (if acc = [] then words_acc [] cs else rev acc # words_acc [] cs)
      else words_acc (c # acc) cs)"

definition words_of :: "string \<Rightarrow> string list" where
  "words_of s = words_acc [] s"

lemma words_acc_ne: "w \<in> set (words_acc acc s) \<Longrightarrow> w \<noteq> []"
  by (induction acc s rule: words_acc.induct) (auto split: if_splits)

lemma words_acc_nospace:
  "list_all (\<lambda>c. \<not> is_space c) acc \<Longrightarrow> w \<in> set (words_acc acc s) \<Longrightarrow>
     list_all (\<lambda>c. \<not> is_space c) w"
proof (induction s arbitrary: acc)
  case Nil
  then show ?case by (simp split: if_splits)
next
  case (Cons c cs)
  show ?case
  proof (cases "is_space c")
    case False
    with Cons.prems Cons.IH [of "c # acc"] show ?thesis by simp
  next
    case True
    with Cons.prems have "w = rev acc \<or> w \<in> set (words_acc [] cs)"
      by (simp split: if_splits)
    then show ?thesis using Cons.prems(1) Cons.IH [of "[]"] by auto
  qed
qed

lemma words_of_ne: "w \<in> set (words_of s) \<Longrightarrow> w \<noteq> []"
  by (simp add: words_of_def words_acc_ne)

section \<open>Numbers and text\<close>

fun digits_of :: "nat \<Rightarrow> string" where
  "digits_of n =
     (if n < 10 then [char_of (48 + n)] else digits_of (n div 10) @ [char_of (48 + n mod 10)])"

declare digits_of.simps [simp del]

definition string_of_int :: "int \<Rightarrow> string" where
  "string_of_int i = (if i < 0 then CHR ''-'' # digits_of (nat (- i)) else digits_of (nat i))"

definition digits_val :: "string \<Rightarrow> nat" where
  "digits_val ds = foldl (\<lambda>n c. 10 * n + (char_nat c - 48)) 0 ds"

text \<open>
  The integer at the front of a string, after white space and a sign, as strtol reads it;
  None when there is no digit. std::stoi throws there and on a value that is no 32-bit
  int; atoi returns 0 where there is no digit (a value out of range is undefined for atoi
  and is left as it is).
\<close>

definition int_prefix :: "string \<Rightarrow> int option" where
  "int_prefix s =
     (let t = ltrim s;
          neg = (t \<noteq> [] \<and> hd t = CHR ''-'');
          u = (if t \<noteq> [] \<and> (hd t = CHR ''-'' \<or> hd t = CHR ''+'') then tl t else t);
          ds = takeWhile is_digit u
      in if ds = [] then None
         else Some (if neg then - int (digits_val ds) else int (digits_val ds)))"

definition stoi :: "string \<Rightarrow> int option" where
  "stoi s = (case int_prefix s of
       None \<Rightarrow> None
     | Some v \<Rightarrow> if - (2 ^ 31) \<le> v \<and> v < 2 ^ 31 then Some v else None)"

definition atoi :: "string \<Rightarrow> int" where
  "atoi s = (case int_prefix s of None \<Rightarrow> 0 | Some v \<Rightarrow> v)"

lemma digits_of_ne [simp]: "digits_of n \<noteq> []"
  by (subst digits_of.simps) simp

lemma char_nat_digit [simp]: "n < 10 \<Longrightarrow> char_nat (char_of (48 + n)) = 48 + n"
  by simp

lemma digits_of_digits: "c \<in> set (digits_of n) \<Longrightarrow> is_digit c"
proof (induction n rule: digits_of.induct)
  case (1 n)
  show ?case
  proof (cases "n < 10")
    case True
    with "1.prems" have "c = char_of (48 + n)" by (simp add: digits_of.simps [of n])
    with True show ?thesis by (simp add: is_digit_def)
  next
    case False
    with "1" show ?thesis by (auto simp: digits_of.simps [of n] is_digit_def)
  qed
qed

lemma digits_val_snoc: "digits_val (ds @ [c]) = 10 * digits_val ds + (char_nat c - 48)"
  by (simp add: digits_val_def)

lemma digits_val_digits_of [simp]: "digits_val (digits_of n) = n"
proof (induction n rule: digits_of.induct)
  case (1 n)
  show ?case
  proof (cases "n < 10")
    case True
    then show ?thesis by (simp add: digits_of.simps [of n] digits_val_def)
  next
    case False
    with "1.IH" have "digits_val (digits_of (n div 10)) = n div 10" by simp
    with False show ?thesis by (simp add: digits_of.simps [of n] digits_val_snoc)
  qed
qed

lemma takeWhile_digits_of [simp]: "takeWhile is_digit (digits_of n) = digits_of n"
  by (simp add: takeWhile_eq_all_conv digits_of_digits)

lemma digit_not_space: "is_digit c \<Longrightarrow> \<not> is_space c"
  by (auto simp: is_digit_def is_space_def)

lemma ltrim_digits_of [simp]: "ltrim (digits_of n) = digits_of n"
proof -
  obtain c cs where "digits_of n = c # cs" by (cases "digits_of n") auto
  moreover have "is_digit c" using calculation digits_of_digits [of c n] by simp
  ultimately show ?thesis by (simp add: ltrim_def digit_not_space)
qed

lemma hd_digits_of [simp]: "hd (digits_of n) \<noteq> CHR ''-''" "hd (digits_of n) \<noteq> CHR ''+''"
proof -
  have "is_digit (hd (digits_of n))" by (rule digits_of_digits [of _ n]) simp
  then show "hd (digits_of n) \<noteq> CHR ''-''" "hd (digits_of n) \<noteq> CHR ''+''"
    by (auto simp: is_digit_def)
qed

lemma int_prefix_string_of_int [simp]: "int_prefix (string_of_int i) = Some i"
proof (cases "i < 0")
  case True
  then show ?thesis
    by (simp add: int_prefix_def string_of_int_def ltrim_def is_space_def Let_def)
next
  case False
  then show ?thesis by (simp add: int_prefix_def string_of_int_def Let_def)
qed

lemma atoi_string_of_int [simp]: "atoi (string_of_int i) = i"
  by (simp add: atoi_def)

lemma stoi_string_of_int: "- (2 ^ 31) \<le> i \<Longrightarrow> i < 2 ^ 31 \<Longrightarrow> stoi (string_of_int i) = Some i"
  by (simp add: stoi_def)

lemma string_of_int_inject [simp]: "string_of_int i = string_of_int j \<longleftrightarrow> i = j"
  by (metis int_prefix_string_of_int option.inject)

section \<open>Association lists with one entry per key\<close>

definition keys :: "('k \<times> 'v) list \<Rightarrow> 'k list" where
  "keys kvs = map fst kvs"

definition drop_key :: "'k \<Rightarrow> ('k \<times> 'v) list \<Rightarrow> ('k \<times> 'v) list" where
  "drop_key k kvs = filter (\<lambda>kv. fst kv \<noteq> k) kvs"

lemma drop_key_simps [simp]:
  "drop_key k [] = []"
  "drop_key k ((a, b) # kvs) = (if a = k then drop_key k kvs else (a, b) # drop_key k kvs)"
  by (simp_all add: drop_key_def)

lemma keys_simps [simp]: "keys [] = []" "keys (kv # kvs) = fst kv # keys kvs"
  by (simp_all add: keys_def)

lemma set_keys_drop_key [simp]: "set (keys (drop_key k kvs)) = set (keys kvs) - {k}"
  by (auto simp: keys_def drop_key_def)

lemma distinct_keys_drop_key: "distinct (keys kvs) \<Longrightarrow> distinct (keys (drop_key k kvs))"
  by (simp add: keys_def drop_key_def distinct_map_filter)

lemma map_of_drop_key_at: "map_of (drop_key k kvs) x = (if x = k then None else map_of kvs x)"
  by (induction kvs) auto

lemma map_of_drop_key: "map_of (drop_key k kvs) = (map_of kvs)(k := None)"
  by (rule ext) (simp add: map_of_drop_key_at)

lemma length_drop_key_le: "length (drop_key k kvs) \<le> length kvs"
  by (simp add: drop_key_def)

lemma in_drop_key: "x \<in> set (drop_key k kvs) \<Longrightarrow> x \<in> set kvs"
  by (simp add: drop_key_def)

lemma length_drop_key_in:
  "distinct (keys kvs) \<Longrightarrow> k \<in> set (keys kvs) \<Longrightarrow> length (drop_key k kvs) = length kvs - 1"
proof (induction kvs)
  case Nil
  then show ?case by simp
next
  case (Cons kv kvs)
  obtain a b where kv: "kv = (a, b)" by (cases kv)
  show ?case
  proof (cases "a = k")
    case True
    with Cons.prems kv have "k \<notin> set (keys kvs)" by simp
    then have "drop_key k kvs = kvs"
      by (auto simp: drop_key_def keys_def filter_id_conv)
    with True kv show ?thesis by simp
  next
    case False
    with Cons kv have "k \<in> set (keys kvs)" "distinct (keys kvs)" by auto
    moreover then have "kvs \<noteq> []" by auto
    ultimately show ?thesis using Cons.IH False kv by (cases kvs) auto
  qed
qed

lemma drop_key_notin [simp]: "k \<notin> set (keys kvs) \<Longrightarrow> drop_key k kvs = kvs"
  by (auto simp: drop_key_def keys_def filter_id_conv)

lemma map_of_keys: "map_of kvs k = None \<longleftrightarrow> k \<notin> set (keys kvs)"
  by (simp add: map_of_eq_None_iff keys_def)

text \<open>The entry of a key is replaced in place; a new key takes a place of its own.\<close>

fun put_entry :: "'k \<Rightarrow> 'v \<Rightarrow> ('k \<times> 'v) list \<Rightarrow> ('k \<times> 'v) list" where
  "put_entry k v [] = [(k, v)]"
| "put_entry k v ((a, b) # kvs) = (if a = k then (k, v) # kvs else (a, b) # put_entry k v kvs)"

lemma set_keys_put_entry [simp]: "set (keys (put_entry k v kvs)) = insert k (set (keys kvs))"
proof (induction kvs)
  case Nil
  then show ?case by simp
next
  case (Cons kv kvs)
  then show ?case by (cases kv) auto
qed

lemma distinct_keys_put_entry [simp]: "distinct (keys kvs) \<Longrightarrow> distinct (keys (put_entry k v kvs))"
proof (induction kvs)
  case Nil
  then show ?case by simp
next
  case (Cons kv kvs)
  then show ?case by (cases kv) auto
qed

lemma map_of_put_entry_at: "map_of (put_entry k v kvs) x = (if x = k then Some v else map_of kvs x)"
  by (induction kvs) auto

lemma map_of_put_entry [simp]: "map_of (put_entry k v kvs) = (map_of kvs)(k \<mapsto> v)"
  by (rule ext) (simp add: map_of_put_entry_at)

lemma length_put_entry:
  "length (put_entry k v kvs) = (if k \<in> set (keys kvs) then length kvs else Suc (length kvs))"
proof (induction kvs)
  case Nil
  then show ?case by simp
next
  case (Cons kv kvs)
  then show ?case by (cases kv) simp
qed

lemma in_put_entry: "x \<in> set (put_entry k v kvs) \<Longrightarrow> x = (k, v) \<or> x \<in> set kvs"
  by (induction kvs) (auto split: if_splits)

text \<open>std::map with string keys: the entries in the order of the keys, compared byte by byte.\<close>

fun str_less :: "string \<Rightarrow> string \<Rightarrow> bool" where
  "str_less s [] = False"
| "str_less [] (c # t) = True"
| "str_less (b # s) (c # t) = (char_nat b < char_nat c \<or> (b = c \<and> str_less s t))"

fun put_sorted :: "string \<Rightarrow> 'v \<Rightarrow> (string \<times> 'v) list \<Rightarrow> (string \<times> 'v) list" where
  "put_sorted k v [] = [(k, v)]"
| "put_sorted k v ((a, b) # kvs) =
     (if a = k then (k, v) # kvs
      else if str_less k a then (k, v) # (a, b) # kvs
      else (a, b) # put_sorted k v kvs)"

lemma str_less_irrefl [simp]: "\<not> str_less s s"
  by (induction s) simp_all

lemma str_less_trans: "str_less s t \<Longrightarrow> str_less t u \<Longrightarrow> str_less s u"
proof (induction s t arbitrary: u rule: str_less.induct)
  case (2 c t)
  then show ?case by (cases u) auto
next
  case (3 b s c t)
  then show ?case by (cases u) auto
qed simp

lemma str_less_linear: "str_less s t \<or> s = t \<or> str_less t s"
proof (induction s t rule: str_less.induct)
  case (1 s)
  then show ?case by (cases s) auto
next
  case (3 b s c t)
  have "b = c" if "char_nat b = char_nat c" using that by (metis char_of_char)
  then have "char_nat b < char_nat c \<or> b = c \<or> char_nat c < char_nat b" by (metis nat_neq_iff)
  with 3 show ?case by auto
qed simp

definition sorted_keys :: "(string \<times> 'v) list \<Rightarrow> bool" where
  "sorted_keys kvs \<longleftrightarrow> sorted_wrt str_less (keys kvs)"

lemma sorted_keys_simps [simp]:
  "sorted_keys []"
  "sorted_keys (kv # kvs) \<longleftrightarrow> (\<forall>k \<in> set (keys kvs). str_less (fst kv) k) \<and> sorted_keys kvs"
  by (simp_all add: sorted_keys_def)

lemma set_keys_put_sorted [simp]: "set (keys (put_sorted k v kvs)) = insert k (set (keys kvs))"
proof (induction kvs)
  case (Cons kv kvs)
  then show ?case by (cases kv) auto
qed simp

lemma sorted_put_sorted: "sorted_keys kvs \<Longrightarrow> sorted_keys (put_sorted k v kvs)"
proof (induction kvs)
  case (Cons kv kvs)
  obtain a b where kv: "kv = (a, b)" by (cases kv)
  show ?case
  proof (cases "a = k \<or> str_less k a")
    case True
    with Cons.prems kv show ?thesis by (auto intro: str_less_trans)
  next
    case False
    then have "str_less a k" using str_less_linear by blast
    with Cons kv False show ?thesis by auto
  qed
qed simp

lemma map_of_put_sorted [simp]: "sorted_keys kvs \<Longrightarrow> map_of (put_sorted k v kvs) = (map_of kvs)(k \<mapsto> v)"
proof (induction kvs)
  case (Cons kv kvs)
  obtain a b where kv: "kv = (a, b)" by (cases kv)
  with Cons show ?case by (auto simp: fun_eq_iff)
qed simp

section \<open>Network byte order\<close>

unbundle bit_operations_syntax

definition put_u16 :: "u16 \<Rightarrow> byte list" where
  "put_u16 v = [ucast (drop_bit 8 v), ucast v]"

definition put_u32 :: "u32 \<Rightarrow> byte list" where
  "put_u32 v = [ucast (drop_bit 24 v), ucast (drop_bit 16 v), ucast (drop_bit 8 v), ucast v]"

definition get_u16 :: "byte list \<Rightarrow> u16" where
  "get_u16 p = push_bit 8 (ucast (p ! 0)) OR ucast (p ! 1)"

definition get_u32 :: "byte list \<Rightarrow> u32" where
  "get_u32 p = push_bit 24 (ucast (p ! 0)) OR push_bit 16 (ucast (p ! 1)) OR
     push_bit 8 (ucast (p ! 2)) OR ucast (p ! 3)"

lemma length_put [simp]: "length (put_u16 v) = 2" "length (put_u32 w) = 4"
  by (simp_all add: put_u16_def put_u32_def)

lemma get_put_u16 [simp]: "get_u16 (put_u16 v @ r) = v"
  by (rule bit_word_eqI) (auto simp: get_u16_def put_u16_def bit_simps)

lemma get_put_u32 [simp]: "get_u32 (put_u32 v @ r) = v"
proof (rule bit_word_eqI)
  fix n assume "n < LENGTH(32)"
  then consider "n < 8" | "8 \<le> n" "n < 16" | "16 \<le> n" "n < 24" | "24 \<le> n" "n < 32" by fastforce
  then show "bit (get_u32 (put_u32 v @ r)) n \<longleftrightarrow> bit v n"
    by cases (auto simp: get_u32_def put_u32_def bit_simps)
qed

section \<open>Framing\<close>

text \<open>
  A decoder looks at the front of a buffer: it needs more bytes, rejects what is there, or takes
  one frame off. The loop takes frames off as long as it can.
\<close>

datatype ('f, 'b) decoded = Need | Bad | Got 'f "'b list"

function decode_all :: "('b list \<Rightarrow> ('f, 'b) decoded) \<Rightarrow> 'b list \<Rightarrow> 'f list \<times> 'b list" where
  "decode_all d b =
     (case d b of
        Got f r \<Rightarrow> if length r < length b then (f # fst (decode_all d r), snd (decode_all d r)) else ([], b)
      | _ \<Rightarrow> ([], b))"
  by pat_completeness auto
termination by (relation "measure (\<lambda>(d, b). length b)") auto

declare decode_all.simps [simp del]

text \<open>
  The contract of a frame format: an encoded frame is taken off whatever follows it, a frame
  takes bytes, and more bytes behind a buffer do not change what is found at its front.
\<close>

locale framing =
  fixes encode :: "'f \<Rightarrow> 'b list" and decode :: "'b list \<Rightarrow> ('f, 'b) decoded" and valid :: "'f \<Rightarrow> bool"
  assumes decode_encode: "valid f \<Longrightarrow> decode (encode f @ r) = Got f r"
    and decode_shrinks: "decode b = Got f r \<Longrightarrow> length r < length b"
    and decode_more: "decode b = Got f r \<Longrightarrow> decode (b @ x) = Got f (r @ x)"
    and bad_more: "decode b = Bad \<Longrightarrow> decode (b @ x) = Bad"
    and need_nothing: "decode [] = Need"
begin

lemma decode_all_Got:
  "decode b = Got f r \<Longrightarrow> decode_all decode b = (f # fst (decode_all decode r), snd (decode_all decode r))"
  by (simp add: decode_all.simps [of decode b] decode_shrinks)

lemma decode_all_encoded: "list_all valid fs \<Longrightarrow> decode_all decode (concat (map encode fs)) = (fs, [])"
proof (induction fs)
  case Nil
  then show ?case by (simp add: decode_all.simps [of decode "[]"] need_nothing)
next
  case (Cons f fs)
  then have "decode (encode f @ concat (map encode fs)) = Got f (concat (map encode fs))"
    by (simp add: decode_encode)
  from decode_all_Got [OF this] Cons show ?case by simp
qed

lemma decode_all_append:
  "decode_all decode (b @ x) =
     (fst (decode_all decode b) @ fst (decode_all decode (snd (decode_all decode b) @ x)),
      snd (decode_all decode (snd (decode_all decode b) @ x)))"
proof (induction "length b" arbitrary: b rule: less_induct)
  case less
  show ?case
  proof (cases "decode b")
    case (Got f r)
    show ?thesis
      unfolding decode_all_Got [OF Got] decode_all_Got [OF decode_more [OF Got]]
      using less [OF decode_shrinks [OF Got]] by simp
  qed (simp_all add: decode_all.simps [of decode b])
qed

lemma leftover_stuck: "decode (snd (decode_all decode b)) = Need \<or> decode (snd (decode_all decode b)) = Bad"
proof (induction "length b" arbitrary: b rule: less_induct)
  case less
  show ?case
  proof (cases "decode b")
    case (Got f r)
    then show ?thesis using less [OF decode_shrinks [OF Got]] by (simp add: decode_all_Got)
  qed (simp_all add: decode_all.simps [of decode b])
qed

text \<open>Nothing on the way is rejected when the whole is made of valid frames.\<close>

lemma prefix_not_bad:
  assumes "list_all valid fs" and "b @ x = concat (map encode fs)"
  shows "decode (snd (decode_all decode b)) = Need"
proof (rule ccontr)
  assume "decode (snd (decode_all decode b)) \<noteq> Need"
  then have bad: "decode (snd (decode_all decode b)) = Bad" using leftover_stuck [of b] by simp
  then have "decode (snd (decode_all decode b) @ x) = Bad" by (rule bad_more)
  then have "snd (decode_all decode (b @ x)) = snd (decode_all decode b) @ x"
    using decode_all_append [of b x]
    by (simp add: decode_all.simps [of decode "snd (decode_all decode b) @ x"])
  moreover have "snd (decode_all decode (b @ x)) = []"
    using decode_all_encoded [OF assms(1)] assms(2) by simp
  ultimately show False using bad need_nothing by simp
qed

end

section \<open>State machines\<close>

text \<open>
  A deterministic machine whose step keeps an invariant keeps it over every run. Each state
  machine of the development interprets this locale on its own step function.
\<close>

locale machine =
  fixes step :: "'s \<Rightarrow> 'e \<Rightarrow> 's" and inv :: "'s \<Rightarrow> bool"
  assumes step_inv: "inv s \<Longrightarrow> inv (step s e)"
begin

lemma run_inv: "inv s \<Longrightarrow> inv (foldl step s es)"
  by (induction es arbitrary: s) (auto intro: step_inv)

lemma run_prefix_inv: "inv s \<Longrightarrow> inv (foldl step s (take n es))"
  by (rule run_inv)

end

text \<open>
  A machine whose step may fail: a run ends with the first failure. What its step keeps for the events
  that are allowed holds after every run that does not fail.
\<close>

fun run_events :: "('s \<Rightarrow> 'e \<Rightarrow> 'x + 's) \<Rightarrow> 's \<Rightarrow> 'e list \<Rightarrow> 'x + 's" where
  "run_events step s [] = Inr s"
| "run_events step s (e # es) = and_then (step s e) (\<lambda>s1. run_events step s1 es)"

locale partial_machine =
  fixes try_step :: "'s \<Rightarrow> 'e \<Rightarrow> 'x + 's" and allowed :: "'e \<Rightarrow> bool" and holds :: "'s \<Rightarrow> bool"
  assumes try_step_holds: "holds s \<Longrightarrow> allowed e \<Longrightarrow> try_step s e = Inr s1 \<Longrightarrow> holds s1"
begin

lemma run_holds: "holds s \<Longrightarrow> list_all allowed es \<Longrightarrow> run_events try_step s es = Inr s1 \<Longrightarrow> holds s1"
  by (induction es arbitrary: s) (auto simp: and_then_Inr intro: try_step_holds)

end

text \<open>A machine whose step never fails is one of these.\<close>

sublocale machine \<subseteq> never_failing: partial_machine "\<lambda>s e. Inr (step s e)" "\<lambda>e. True" inv
  by unfold_locales (auto intro: step_inv)

section \<open>Keyed tables\<close>

text \<open>
  A table read by key, with an insertion that replaces and a removal: over any run of changes it is
  the map the changes describe. The tables of the development interpret this locale.
\<close>

datatype ('k, 'v) change = Put 'k 'v | Drop 'k

fun change_map :: "('k \<rightharpoonup> 'v) \<Rightarrow> ('k, 'v) change \<Rightarrow> ('k \<rightharpoonup> 'v)" where
  "change_map m (Put k v) = m(k \<mapsto> v)"
| "change_map m (Drop k) = m(k := None)"

locale keyed_table =
  fixes get :: "'t \<Rightarrow> ('k \<rightharpoonup> 'v)" and put :: "'t \<Rightarrow> 'k \<Rightarrow> 'v \<Rightarrow> 't" and drop_at :: "'t \<Rightarrow> 'k \<Rightarrow> 't"
    and valid :: "'t \<Rightarrow> bool" and valid_entry :: "'k \<Rightarrow> 'v \<Rightarrow> bool"
  assumes get_put: "valid t \<Longrightarrow> valid_entry k v \<Longrightarrow> get (put t k v) = (get t)(k \<mapsto> v)"
    and get_drop: "valid t \<Longrightarrow> get (drop_at t k) = (get t)(k := None)"
    and valid_put: "valid t \<Longrightarrow> valid_entry k v \<Longrightarrow> valid (put t k v)"
    and valid_drop: "valid t \<Longrightarrow> valid (drop_at t k)"
begin

fun change_table :: "'t \<Rightarrow> ('k, 'v) change \<Rightarrow> 't" where
  "change_table t (Put k v) = put t k v"
| "change_table t (Drop k) = drop_at t k"

fun valid_change :: "('k, 'v) change \<Rightarrow> bool" where
  "valid_change (Put k v) = valid_entry k v"
| "valid_change (Drop k) = True"

lemma change_valid: "valid t \<Longrightarrow> valid_change c \<Longrightarrow> valid (change_table t c)"
  by (cases c) (simp_all add: valid_put valid_drop)

lemma change_refines: "valid t \<Longrightarrow> valid_change c \<Longrightarrow> get (change_table t c) = change_map (get t) c"
  by (cases c) (simp_all add: get_put get_drop)

lemma run_refines:
  "valid t \<Longrightarrow> list_all valid_change cs \<Longrightarrow> get (foldl change_table t cs) = foldl change_map (get t) cs"
  by (induction cs arbitrary: t) (simp_all add: change_valid change_refines)

end

end
