(* ===== verification/Sessions.thy ===== *)
theory Sessions
  imports Prelude
begin

text \<open>
  inference/session.hpp and inference/session.cpp: the allocator of llama sequence ids
  (class SeqAllocator) and the table of conversations with least-recently-used eviction
  (class SessionTable). The container of the table is an unordered_map: the list of entries
  is its iteration order, and the order a new entry takes is left open by the library, so
  the facts about the victim are stated for any order (\<open>lru_order_irrelevant\<close>).
\<close>

section \<open>SeqAllocator\<close>

type_synonym seq_id = int
type_synonym token = int

record seq_allocator =
  max_seqs :: nat
  next_seq :: nat
  in_use :: "bool list"

definition seq_allocator_init :: "nat \<Rightarrow> seq_allocator" where
  "seq_allocator_init n =
     (let m = (if n < 2 then 2 else n)
      in \<lparr>max_seqs = m, next_seq = 1, in_use = replicate (if m < 2 then 2 else n) False\<rparr>)"

definition seq_capacity :: "seq_allocator \<Rightarrow> nat" where
  "seq_capacity a = max_seqs a - 1"

definition sweep_index :: "seq_allocator \<Rightarrow> nat \<Rightarrow> nat" where
  "sweep_index a i = (next_seq a + i - 1) mod max_seqs a"

fun take_scan :: "seq_allocator \<Rightarrow> nat list \<Rightarrow> (seq_id option \<times> seq_allocator) or_ub" where
  "take_scan a [] = Inr (None, a)"
| "take_scan a (i # is) =
     (let idx = sweep_index a i
      in if idx = 0 then take_scan a is
         else if length (in_use a) \<le> idx then Inl OutOfBounds
         else if \<not> in_use a ! idx then
           Inr (Some (int idx),
                a\<lparr>in_use := (in_use a)[idx := True],
                  next_seq := (idx + 1) mod max_seqs a\<rparr>)
         else take_scan a is)"

definition seq_take :: "seq_allocator \<Rightarrow> (seq_id option \<times> seq_allocator) or_ub" where
  "seq_take a = take_scan a [1..<max_seqs a]"

definition seq_give_back :: "seq_allocator \<Rightarrow> seq_id \<Rightarrow> seq_allocator or_ub" where
  "seq_give_back a sid =
     (if 0 < sid \<and> nat sid < max_seqs a then
        (if length (in_use a) \<le> nat sid then Inl OutOfBounds
         else Inr (a\<lparr>in_use := (in_use a)[nat sid := False]\<rparr>))
      else Inr a)"

text \<open>The invariant of a well-constructed allocator, and the ids it has handed out.\<close>

definition alloc_ok :: "seq_allocator \<Rightarrow> bool" where
  "alloc_ok a \<longleftrightarrow>
     2 \<le> max_seqs a \<and> length (in_use a) = max_seqs a \<and> next_seq a < max_seqs a \<and> \<not> in_use a ! 0"

definition used_ids :: "seq_allocator \<Rightarrow> seq_id set" where
  "used_ids a = {i. 0 < i \<and> nat i < max_seqs a \<and> in_use a ! nat i}"

definition free_ids :: "seq_allocator \<Rightarrow> seq_id set" where
  "free_ids a = {i. 0 < i \<and> nat i < max_seqs a \<and> \<not> in_use a ! nat i}"

text \<open>The one slot the round-robin sweep of take() does not look at.\<close>

definition skipped_slot :: "seq_allocator \<Rightarrow> nat" where
  "skipped_slot a = (next_seq a + max_seqs a - 1) mod max_seqs a"

lemma alloc_ok_init [inv_intros]: "2 \<le> n \<Longrightarrow> alloc_ok (seq_allocator_init n)"
  by (simp add: alloc_ok_def seq_allocator_init_def)

lemma used_ids_init [simp]: "2 \<le> n \<Longrightarrow> used_ids (seq_allocator_init n) = {}"
  by (auto simp: used_ids_def seq_allocator_init_def)

lemma sweep_index_less: "alloc_ok a \<Longrightarrow> sweep_index a i < max_seqs a"
  by (simp add: sweep_index_def alloc_ok_def)

lemma take_scan_cases:
  assumes ok: "alloc_ok a"
  shows "take_scan a is = Inr (None, a) \<and>
           (\<forall>i \<in> set is. sweep_index a i = 0 \<or> in_use a ! sweep_index a i) \<or>
         (\<exists>k. 0 < k \<and> k < max_seqs a \<and> \<not> in_use a ! k \<and> (\<exists>i \<in> set is. k = sweep_index a i) \<and>
            take_scan a is = Inr (Some (int k),
              a\<lparr>in_use := (in_use a)[k := True], next_seq := (k + 1) mod max_seqs a\<rparr>))"
proof (induction "is")
  case Nil
  then show ?case by simp
next
  case (Cons i "is")
  define k where "k = sweep_index a i"
  have k: "k < max_seqs a" "length (in_use a) = max_seqs a"
    using ok by (simp_all add: alloc_ok_def k_def sweep_index_less)
  have step: "take_scan a (i # is) =
     (if k = 0 then take_scan a is
      else if \<not> in_use a ! k then Inr (Some (int k),
              a\<lparr>in_use := (in_use a)[k := True], next_seq := (k + 1) mod max_seqs a\<rparr>)
      else take_scan a is)"
    using k by (simp add: k_def [symmetric] Let_def)
  show ?case
  proof (cases "k = 0 \<or> in_use a ! k")
    case True
    then have "take_scan a (i # is) = take_scan a is" unfolding step by auto
    with Cons.IH True show ?thesis unfolding k_def by auto
  next
    case False
    then have "take_scan a (i # is) = Inr (Some (int k),
              a\<lparr>in_use := (in_use a)[k := True], next_seq := (k + 1) mod max_seqs a\<rparr>)"
      unfolding step by simp
    with False k show ?thesis by (intro disjI2 exI [where x = k]) (auto simp: k_def)
  qed
qed

lemma seq_take_cases:
  assumes "alloc_ok a"
  obtains (full) "seq_take a = Inr (None, a)"
      "\<forall>i \<in> {1..<max_seqs a}. sweep_index a i = 0 \<or> in_use a ! sweep_index a i"
    | (taken) k i where "0 < k" "k < max_seqs a" "\<not> in_use a ! k"
      "i \<in> {1..<max_seqs a}" "k = sweep_index a i"
      "seq_take a = Inr (Some (int k),
         a\<lparr>in_use := (in_use a)[k := True], next_seq := (k + 1) mod max_seqs a\<rparr>)"
proof -
  have eq: "set [1..<max_seqs a] = {1..<max_seqs a}" by simp
  from take_scan_cases [OF assms, of "[1..<max_seqs a]"] show ?thesis
    unfolding eq seq_take_def [symmetric] using that by blast
qed

lemma swept_slot:
  assumes "alloc_ok a" and "k < max_seqs a" and "k \<noteq> skipped_slot a"
  shows "\<exists>i \<in> {1..<max_seqs a}. sweep_index a i = k"
proof (cases "next_seq a \<le> k")
  case True
  have "k - next_seq a + 1 < max_seqs a"
  proof (rule ccontr)
    assume "\<not> ?thesis"
    with assms True have "next_seq a = 0" "k = max_seqs a - 1" by (auto simp: alloc_ok_def)
    with assms show False by (simp add: skipped_slot_def alloc_ok_def)
  qed
  then show ?thesis
    using assms True
    by (intro bexI [where x = "k - next_seq a + 1"]) (auto simp: alloc_ok_def sweep_index_def)
next
  case False
  then have "next_seq a + max_seqs a - 1 = (next_seq a - 1) + max_seqs a" by simp
  then have "skipped_slot a = (next_seq a - 1) mod max_seqs a"
    unfolding skipped_slot_def by (metis mod_add_self2)
  moreover have "(next_seq a - 1) mod max_seqs a = next_seq a - 1"
    using assms(1) by (intro mod_less) (auto simp: alloc_ok_def)
  ultimately have "k + max_seqs a - next_seq a + 1 < max_seqs a"
    using assms(1,3) False unfolding alloc_ok_def by linarith
  moreover have "next_seq a + (k + max_seqs a - next_seq a + 1) - 1 = k + max_seqs a"
    using assms False by (simp add: alloc_ok_def)
  ultimately show ?thesis
    using assms False
    by (intro bexI [where x = "k + max_seqs a - next_seq a + 1"])
       (auto simp: alloc_ok_def sweep_index_def)
qed

lemma mod_shift_le:
  assumes "(n + i) mod m = (n + j) mod m" and "i \<le> j" and "j < (m :: nat)"
  shows "i = j"
proof -
  from assms have "m dvd (n + j) - (n + i)"
    by (metis mod_eq_dvd_iff_nat nat_add_left_cancel_le)
  then have "m dvd j - i" by simp
  with assms have "j - i = 0" by (metis dvd_imp_le le_less_trans diff_le_self not_le neq0_conv)
  with assms show ?thesis by simp
qed

lemma mod_shift_eq:
  "(n + i) mod m = (n + j) mod m \<Longrightarrow> i < m \<Longrightarrow> j < (m :: nat) \<Longrightarrow> i = j"
  using mod_shift_le [of n i m j] mod_shift_le [of n j m i] by (cases "i \<le> j") auto

lemma unswept_slot:
  assumes "alloc_ok a" and "i \<in> {1..<max_seqs a}"
  shows "sweep_index a i \<noteq> skipped_slot a"
proof
  assume "sweep_index a i = skipped_slot a"
  then have "(next_seq a + (i - 1)) mod max_seqs a = (next_seq a + (max_seqs a - 1)) mod max_seqs a"
    using assms by (simp add: skipped_slot_def sweep_index_def)
  then have "i - 1 = max_seqs a - 1"
    using assms by (intro mod_shift_eq [of "next_seq a" "i - 1" "max_seqs a"]) auto
  then show False using assms by auto
qed

text \<open>What take() delivers, and exactly when it delivers nothing.\<close>

lemma seq_take_some:
  assumes ok: "alloc_ok a" and "seq_take a = Inr (Some sid, a')"
  shows "sid \<in> free_ids a" and "used_ids a' = insert sid (used_ids a)"
    and "max_seqs a' = max_seqs a" and "alloc_ok a'"
proof -
  from ok assms(2) obtain k where k: "0 < k" "k < max_seqs a" "\<not> in_use a ! k" "sid = int k"
    "a' = a\<lparr>in_use := (in_use a)[k := True], next_seq := (k + 1) mod max_seqs a\<rparr>"
    by (elim seq_take_cases) auto
  from k show "sid \<in> free_ids a" by (simp add: free_ids_def)
  from k show "max_seqs a' = max_seqs a" by simp
  from k ok show "alloc_ok a'" by (simp add: alloc_ok_def)
  from k ok show "used_ids a' = insert sid (used_ids a)"
    by (auto simp: used_ids_def alloc_ok_def nth_list_update split: if_splits)
qed

lemma seq_take_none:
  assumes "alloc_ok a"
  shows "seq_take a = Inr (None, a') \<Longrightarrow> a' = a"
  using assms by (elim seq_take_cases) auto

lemma seq_take_total: "alloc_ok a \<Longrightarrow> \<exists>r a'. seq_take a = Inr (r, a') \<and> alloc_ok a'"
  by (metis seq_take_cases seq_take_some(4))

lemma seq_take_none_iff:
  assumes ok: "alloc_ok a"
  shows "seq_take a = Inr (None, a) \<longleftrightarrow> free_ids a \<subseteq> {int (skipped_slot a)}"
proof
  assume none: "seq_take a = Inr (None, a)"
  have full: "\<forall>i \<in> {1..<max_seqs a}. sweep_index a i = 0 \<or> in_use a ! sweep_index a i"
    using ok none by (elim seq_take_cases) auto
  show "free_ids a \<subseteq> {int (skipped_slot a)}"
  proof
    fix s assume s: "s \<in> free_ids a"
    then have k: "0 < nat s" "nat s < max_seqs a" "\<not> in_use a ! nat s"
      by (auto simp: free_ids_def)
    with full swept_slot [OF ok k(2)] have "nat s = skipped_slot a" by force
    with k show "s \<in> {int (skipped_slot a)}" by auto
  qed
next
  assume sub: "free_ids a \<subseteq> {int (skipped_slot a)}"
  show "seq_take a = Inr (None, a)"
  proof (rule seq_take_cases [OF ok])
    fix k i
    assume k: "0 < k" "k < max_seqs a" "\<not> in_use a ! k" "i \<in> {1..<max_seqs a}" "k = sweep_index a i"
    then have "int k \<in> free_ids a" by (simp add: free_ids_def)
    with sub have "k = skipped_slot a" by auto
    with k unswept_slot [OF ok k(4)] show ?thesis by simp
  qed
qed

lemma seq_give_back_ok:
  assumes ok: "alloc_ok a"
  shows "\<exists>a'. seq_give_back a s = Inr a' \<and> alloc_ok a' \<and> used_ids a' = used_ids a - {s} \<and>
           max_seqs a' = max_seqs a"
proof (cases "0 < s \<and> nat s < max_seqs a")
  case True
  with ok have "seq_give_back a s = Inr (a\<lparr>in_use := (in_use a)[nat s := False]\<rparr>)"
    by (simp add: seq_give_back_def alloc_ok_def)
  moreover have "alloc_ok (a\<lparr>in_use := (in_use a)[nat s := False]\<rparr>)"
    using ok True by (simp add: alloc_ok_def nth_list_update)
  moreover have "used_ids (a\<lparr>in_use := (in_use a)[nat s := False]\<rparr>) = used_ids a - {s}"
    using ok True by (auto simp: used_ids_def alloc_ok_def nth_list_update split: if_splits)
  ultimately show ?thesis by auto
next
  case False
  then have "s \<notin> used_ids a" by (auto simp: used_ids_def)
  with False ok show ?thesis by (auto simp: seq_give_back_def)
qed

text \<open>A run of the allocator: requests and returns in any order.\<close>

datatype alloc_event = Take | Give seq_id

fun alloc_step :: "seq_allocator \<Rightarrow> alloc_event \<Rightarrow> seq_allocator" where
  "alloc_step a Take = (case seq_take a of Inl _ \<Rightarrow> a | Inr (_, a') \<Rightarrow> a')"
| "alloc_step a (Give s) = (case seq_give_back a s of Inl _ \<Rightarrow> a | Inr a' \<Rightarrow> a')"

lemma alloc_step_ok [inv_intros]: "alloc_ok a \<Longrightarrow> alloc_ok (alloc_step a e)"
proof (cases e)
  case Take
  assume "alloc_ok a"
  then obtain r a' where "seq_take a = Inr (r, a')" "alloc_ok a'"
    using seq_take_total by blast
  with Take show ?thesis by simp
next
  case (Give s)
  assume "alloc_ok a"
  then obtain a' where "seq_give_back a s = Inr a'" "alloc_ok a'"
    using seq_give_back_ok [of a s] by blast
  with Give show ?thesis by simp
qed

interpretation allocator: machine alloc_step alloc_ok
  by unfold_locales (rule alloc_step_ok)

lemma alloc_step_max [simp]: "alloc_ok a \<Longrightarrow> max_seqs (alloc_step a e) = max_seqs a"
proof (cases e)
  case Take
  assume ok: "alloc_ok a"
  then show ?thesis
    using Take seq_take_some(3) [OF ok] seq_take_none [OF ok]
    by (auto split: sum.splits option.splits) (metis option.exhaust)
next
  case (Give s)
  assume "alloc_ok a"
  then obtain a' where "seq_give_back a s = Inr a'" "max_seqs a' = max_seqs a"
    using seq_give_back_ok [of a s] by blast
  with Give show ?thesis by simp
qed

lemma run_max_seqs:
  assumes "2 \<le> n"
  shows "max_seqs (foldl alloc_step (seq_allocator_init n) es) = n"
proof -
  have "max_seqs (foldl alloc_step a es) = max_seqs a" if "alloc_ok a" for a
    using that by (induction es arbitrary: a) (simp_all add: alloc_step_ok)
  then show ?thesis using assms alloc_ok_init by (simp add: seq_allocator_init_def Let_def)
qed

text \<open>A fresh allocator hands out 1, 2, ..., n - 1 in this order.\<close>

definition after_takes :: "nat \<Rightarrow> nat \<Rightarrow> seq_allocator" where
  "after_takes n k = \<lparr>max_seqs = n, next_seq = (k + 1) mod n,
     in_use = map (\<lambda>i. 0 < i \<and> i \<le> k) [0..<n]\<rparr>"

lemma after_takes_0: "2 \<le> n \<Longrightarrow> after_takes n 0 = seq_allocator_init n"
  by (auto simp: after_takes_def seq_allocator_init_def intro!: nth_equalityI)

lemma after_takes_ok: "2 \<le> n \<Longrightarrow> alloc_ok (after_takes n k)"
  by (auto simp: after_takes_def alloc_ok_def)

lemma take_scan_head:
  assumes "sweep_index a i = k" and "0 < k" and "k < length (in_use a)" and "\<not> in_use a ! k"
  shows "take_scan a (i # is) = Inr (Some (int k),
           a\<lparr>in_use := (in_use a)[k := True], next_seq := (k + 1) mod max_seqs a\<rparr>)"
  using assms by (simp add: Let_def)

lemma used_after_next:
  "k + 1 < n \<Longrightarrow>
     (map (\<lambda>i. 0 < i \<and> i \<le> k) [0..<n])[k + 1 := True] = map (\<lambda>i. 0 < i \<and> i \<le> k + 1) [0..<n]"
  by (rule nth_equalityI) (auto simp: nth_list_update split: if_splits)

lemma after_takes_step:
  assumes "2 \<le> n" and "k + 1 < n"
  shows "seq_take (after_takes n k) = Inr (Some (int k + 1), after_takes n (k + 1))"
proof -
  have "[1..<n] = 1 # [2..<n]"
    using assms(1) by (metis Suc_1 Suc_le_eq upt_conv_Cons One_nat_def)
  then have "seq_take (after_takes n k) = take_scan (after_takes n k) (1 # [2..<n])"
    by (simp add: seq_take_def after_takes_def)
  also have "\<dots> = Inr (Some (int (k + 1)), (after_takes n k)
      \<lparr>in_use := (in_use (after_takes n k))[k + 1 := True], next_seq := (k + 1 + 1) mod n\<rparr>)"
    using assms take_scan_head [of "after_takes n k" 1 "k + 1"]
    by (simp add: after_takes_def sweep_index_def)
  also have "(after_takes n k)
      \<lparr>in_use := (in_use (after_takes n k))[k + 1 := True], next_seq := (k + 1 + 1) mod n\<rparr>
      = after_takes n (k + 1)"
    using assms used_after_next [of k n] by (simp add: after_takes_def)
  finally show ?thesis by simp
qed

lemma takes_from_fresh:
  "2 \<le> n \<Longrightarrow> k < n \<Longrightarrow> foldl alloc_step (seq_allocator_init n) (replicate k Take) = after_takes n k"
proof (induction k)
  case 0
  then show ?case by (simp add: after_takes_0)
next
  case (Suc k)
  then have "foldl alloc_step (seq_allocator_init n) (replicate k Take) = after_takes n k" by simp
  moreover have "replicate (Suc k) Take = replicate k Take @ [Take]"
    by (simp add: replicate_append_same)
  ultimately show ?case using after_takes_step [of n k] Suc.prems by simp
qed

text \<open>All ids granted, the last one given back.\<close>

definition drained_then_freed :: "nat \<Rightarrow> seq_allocator" where
  "drained_then_freed n =
     foldl alloc_step (seq_allocator_init n) (replicate (n - 1) Take @ [Give (int (n - 1))])"

lemma drained_then_freed_eq:
  assumes "2 \<le> n"
  shows "drained_then_freed n =
    \<lparr>max_seqs = n, next_seq = 0, in_use = map (\<lambda>i. 0 < i \<and> i < n - 1) [0..<n]\<rparr>"
proof -
  have "foldl alloc_step (seq_allocator_init n) (replicate (n - 1) Take) = after_takes n (n - 1)"
    using assms by (intro takes_from_fresh) auto
  moreover have "(map (\<lambda>i. 0 < i \<and> i \<le> n - 1) [0..<n])[n - 1 := False] =
      map (\<lambda>i. 0 < i \<and> i < n - 1) [0..<n]"
    using assms by (intro nth_equalityI) (auto simp: nth_list_update split: if_splits)
  moreover have "nat (int n - 1) = n - 1" by simp
  ultimately show ?thesis
    using assms by (simp add: drained_then_freed_def after_takes_def seq_give_back_def)
qed

section \<open>SessionTable\<close>

record session =
  sid :: string
  sseq :: seq_id
  stoks :: "token list"
  last_used :: nat

record session_table =
  max_sessions :: nat
  entries :: "(string \<times> session) list"

definition session_table_init :: "nat \<Rightarrow> session_table" where
  "session_table_init n = \<lparr>max_sessions = n, entries = []\<rparr>"

definition touch :: "nat \<Rightarrow> session \<Rightarrow> session" where
  "touch now s = s\<lparr>last_used := now\<rparr>"

definition st_peek :: "session_table \<Rightarrow> string \<Rightarrow> session option" where
  "st_peek t k = map_of (entries t) k"

definition st_find :: "session_table \<Rightarrow> nat \<Rightarrow> string \<Rightarrow> session option \<times> session_table" where
  "st_find t now k =
     (case map_of (entries t) k of
        None \<Rightarrow> (None, t)
      | Some s \<Rightarrow> (Some (touch now s), t\<lparr>entries := put_entry k (touch now s) (entries t)\<rparr>))"

text \<open>std::min_element on last_used: the first entry that no later one undercuts.\<close>

fun min_used :: "(string \<times> session) \<Rightarrow> (string \<times> session) list \<Rightarrow> (string \<times> session)" where
  "min_used best [] = best"
| "min_used best (x # xs) =
     min_used (if last_used (snd x) < last_used (snd best) then x else best) xs"

definition lru_victim :: "session_table \<Rightarrow> (string \<times> session) option" where
  "lru_victim t = (case entries t of [] \<Rightarrow> None | e # es \<Rightarrow> Some (min_used e es))"

definition st_insert ::
  "session_table \<Rightarrow> nat \<Rightarrow> string \<Rightarrow> seq_id \<Rightarrow> (seq_id option \<times> session_table) or_ub" where
  "st_insert t now k sq =
     (let s = \<lparr>sid = k, sseq = sq, stoks = [], last_used = now\<rparr>
      in if max_sessions t \<le> length (entries t) \<and> map_of (entries t) k = None then
           (case lru_victim t of
              None \<Rightarrow> Inl EndIterator
            | Some v \<Rightarrow>
                Inr (Some (sseq (snd v)),
                     t\<lparr>entries := put_entry k s (drop_key (fst v) (entries t))\<rparr>))
         else Inr (None, t\<lparr>entries := put_entry k s (entries t)\<rparr>))"

definition st_evict_lru :: "session_table \<Rightarrow> seq_id option \<times> session_table" where
  "st_evict_lru t =
     (case lru_victim t of
        None \<Rightarrow> (None, t)
      | Some v \<Rightarrow> (Some (sseq (snd v)), t\<lparr>entries := drop_key (fst v) (entries t)\<rparr>))"

text \<open>The loop of find_by_prefix(), with best and best_len as the accumulator.\<close>

fun best_prefix ::
  "token list \<Rightarrow> (string \<times> session) option \<Rightarrow> nat \<Rightarrow> (string \<times> session) list
     \<Rightarrow> (string \<times> session) option" where
  "best_prefix prompt best best_len [] = best"
| "best_prefix prompt best best_len ((k, s) # es) =
     (if stoks s = [] then best_prefix prompt best best_len es
      else if length prompt < length (stoks s) then best_prefix prompt best best_len es
      else if take (length (stoks s)) prompt \<noteq> stoks s then best_prefix prompt best best_len es
      else if best_len < length (stoks s) then best_prefix prompt (Some (k, s)) (length (stoks s)) es
      else best_prefix prompt best best_len es)"

definition st_find_by_prefix ::
  "session_table \<Rightarrow> nat \<Rightarrow> token list \<Rightarrow> session option \<times> session_table" where
  "st_find_by_prefix t now prompt =
     (case best_prefix prompt None 0 (entries t) of
        None \<Rightarrow> (None, t)
      | Some (k, s) \<Rightarrow>
          (Some (touch now s), t\<lparr>entries := put_entry k (touch now s) (entries t)\<rparr>))"

definition table_ok :: "session_table \<Rightarrow> bool" where
  "table_ok t \<longleftrightarrow> distinct (keys (entries t)) \<and> length (entries t) \<le> max_sessions t \<and>
     (\<forall>(k, s) \<in> set (entries t). sid s = k)"

text \<open>The victim of an eviction.\<close>

lemma min_used_in: "min_used e es \<in> set (e # es)"
  by (induction e es rule: min_used.induct) auto

lemma min_used_le: "x \<in> set (e # es) \<Longrightarrow> last_used (snd (min_used e es)) \<le> last_used (snd x)"
proof (induction e es arbitrary: x rule: min_used.induct)
  case (1 best)
  then show ?case by simp
next
  case (2 best y ys)
  define b where "b = (if last_used (snd y) < last_used (snd best) then y else best)"
  have b: "last_used (snd b) \<le> last_used (snd best)" "last_used (snd b) \<le> last_used (snd y)"
    by (simp_all add: b_def)
  have eq: "min_used best (y # ys) = min_used b ys" by (simp add: b_def)
  have m: "last_used (snd (min_used b ys)) \<le> last_used (snd z)" if "z \<in> set (b # ys)" for z
    using "2.IH" that unfolding b_def .
  consider "x = best \<or> x = y" | "x \<in> set ys" using "2.prems" by auto
  then show ?case
  proof cases
    case 1
    with b m [of b] show ?thesis unfolding eq by auto
  next
    case 2
    with m show ?thesis unfolding eq by simp
  qed
qed

lemma lru_order_irrelevant:
  assumes "set (e # es) = set (f # fs)" and "inj_on (last_used \<circ> snd) (set (e # es))"
  shows "min_used e es = min_used f fs"
proof -
  have e: "min_used e es \<in> set (e # es)" by (rule min_used_in)
  have f: "min_used f fs \<in> set (e # es)" using min_used_in [of f fs] assms(1) by simp
  have "last_used (snd (min_used e es)) \<le> last_used (snd (min_used f fs))"
    using f by (rule min_used_le)
  moreover have "last_used (snd (min_used f fs)) \<le> last_used (snd (min_used e es))"
    using e unfolding assms(1) by (rule min_used_le)
  ultimately have "(last_used \<circ> snd) (min_used e es) = (last_used \<circ> snd) (min_used f fs)" by simp
  then show ?thesis using e f by (rule inj_onD [OF assms(2)])
qed

lemma touch_simps [simp]:
  "sid (touch now s) = sid s" "sseq (touch now s) = sseq s" "stoks (touch now s) = stoks s"
  by (simp_all add: touch_def)

lemma table_ok_init [inv_intros]: "table_ok (session_table_init n)"
  by (simp add: table_ok_def session_table_init_def)

lemma table_ok_put:
  assumes "table_ok t" and "map_of (entries t) k \<noteq> None" and "sid s = k"
  shows "table_ok (t\<lparr>entries := put_entry k s (entries t)\<rparr>)"
  using assms by (auto simp: table_ok_def length_put_entry map_of_keys dest!: in_put_entry)

lemma table_entry: "table_ok t \<Longrightarrow> map_of (entries t) k = Some s \<Longrightarrow> sid s = k"
  by (auto simp: table_ok_def dest!: map_of_SomeD)

lemma st_find_ok [inv_intros]: "table_ok t \<Longrightarrow> table_ok (snd (st_find t now k))"
  by (auto simp: st_find_def table_entry intro!: table_ok_put split: option.splits)

lemma table_ok_drop: "table_ok t \<Longrightarrow> table_ok (t\<lparr>entries := drop_key k (entries t)\<rparr>)"
  using length_drop_key_le [of k "entries t"]
  by (auto simp: table_ok_def distinct_keys_drop_key dest!: in_drop_key)

lemma st_evict_lru_ok [inv_intros]: "table_ok t \<Longrightarrow> table_ok (snd (st_evict_lru t))"
  by (simp add: st_evict_lru_def table_ok_drop split: option.splits)

lemma lru_victim_Some:
  assumes "lru_victim t = Some v"
  shows "v \<in> set (entries t)" and "x \<in> set (entries t) \<Longrightarrow> last_used (snd v) \<le> last_used (snd x)"
proof -
  from assms obtain e es where v: "entries t = e # es" "v = min_used e es"
    by (auto simp: lru_victim_def split: list.splits)
  show "v \<in> set (entries t)" unfolding v by (rule min_used_in)
  show "x \<in> set (entries t) \<Longrightarrow> last_used (snd v) \<le> last_used (snd x)"
    unfolding v by (rule min_used_le)
qed

lemma lru_victim_None [simp]: "lru_victim t = None \<longleftrightarrow> entries t = []"
  by (simp add: lru_victim_def split: list.splits)

lemma best_prefix_cases:
  "best_prefix prompt best n es = best \<or>
   (\<exists>k s. best_prefix prompt best n es = Some (k, s) \<and> (k, s) \<in> set es \<and>
      n < length (stoks s) \<and> prefix (stoks s) prompt)"
proof (induction prompt best n es rule: best_prefix.induct)
  case (1 prompt best n)
  then show ?case by simp
next
  case (2 prompt best n k s es)
  have p: "take (length (stoks s)) prompt = stoks s \<Longrightarrow> prefix (stoks s) prompt"
    by (metis take_is_prefix)
  show ?case
  proof (cases "stoks s = [] \<or> length prompt < length (stoks s) \<or>
                take (length (stoks s)) prompt \<noteq> stoks s \<or> \<not> n < length (stoks s)")
    case True
    then have "best_prefix prompt best n ((k, s) # es) = best_prefix prompt best n es" by auto
    with True "2.IH" show ?thesis by auto
  next
    case False
    with "2.IH"(4) p show ?thesis by auto
  qed
qed

lemma best_prefix_grows:
  assumes "best_prefix prompt (Some (k, s)) (length (stoks s)) es = r"
  shows "\<exists>k' s'. r = Some (k', s') \<and> length (stoks s) \<le> length (stoks s')"
  using best_prefix_cases [of prompt "Some (k, s)" "length (stoks s)" es] assms by auto

lemma best_prefix_longest:
  assumes "(k', s') \<in> set es" and "stoks s' \<noteq> []" and "prefix (stoks s') prompt"
    and "case best of None \<Rightarrow> n = 0 | Some b \<Rightarrow> n = length (stoks (snd b))"
  shows "\<exists>k s. best_prefix prompt best n es = Some (k, s) \<and> length (stoks s') \<le> length (stoks s)"
  using assms
proof (induction es arbitrary: best n)
  case Nil
  then show ?case by simp
next
  case (Cons e es)
  obtain k s where e: "e = (k, s)" by (cases e)
  define ok where "ok \<longleftrightarrow> stoks s \<noteq> [] \<and> prefix (stoks s) prompt"
  have ok_iff: "ok \<longleftrightarrow> \<not> (stoks s = [] \<or> length prompt < length (stoks s) \<or>
      take (length (stoks s)) prompt \<noteq> stoks s)"
    unfolding ok_def starts_with_prefix [symmetric] starts_with_def by (auto dest: prefix_length_le)
  show ?case
  proof (cases "ok \<and> n < length (stoks s)")
    case True
    then have step: "best_prefix prompt best n (e # es) =
        best_prefix prompt (Some (k, s)) (length (stoks s)) es"
      using ok_iff e by simp
    show ?thesis
    proof (cases "(k', s') \<in> set es")
      case True
      then show ?thesis unfolding step using Cons.prems(2,3) by (intro Cons.IH) auto
    next
      case False
      with Cons.prems(1) e have "s' = s" by simp
      then show ?thesis unfolding step using best_prefix_grows [OF refl, of prompt k s es] by auto
    qed
  next
    case False
    then have step: "best_prefix prompt best n (e # es) = best_prefix prompt best n es"
      using ok_iff e by auto
    show ?thesis
    proof (cases "(k', s') \<in> set es")
      case True
      then show ?thesis unfolding step using Cons.prems(2-4) by (intro Cons.IH) auto
    next
      case new: False
      with Cons.prems e have s: "s' = s" "length (stoks s) \<le> n" using False by (auto simp: ok_def)
      with Cons.prems(2,4) obtain b where "best = Some b" "n = length (stoks (snd b))"
        by (cases best) auto
      then show ?thesis
        unfolding step using s best_prefix_grows [OF refl, of prompt "fst b" "snd b" es] by auto
    qed
  qed
qed

lemma table_ok_insert_new:
  assumes "table_ok t" and "length (entries t) < max_sessions t" and "sid s = k"
  shows "table_ok (t\<lparr>entries := put_entry k s (entries t)\<rparr>)"
  using assms by (auto simp: table_ok_def length_put_entry dest!: in_put_entry)

lemma st_insert_room:
  assumes "length (entries t) < max_sessions t \<or> map_of (entries t) k \<noteq> None"
  shows "st_insert t now k sq = Inr (None,
    t\<lparr>entries := put_entry k \<lparr>sid = k, sseq = sq, stoks = [], last_used = now\<rparr> (entries t)\<rparr>)"
  using assms by (auto simp: st_insert_def Let_def)

lemma st_insert_full:
  assumes "length (entries t) = max_sessions t" and "map_of (entries t) k = None"
    and "lru_victim t = Some v"
  shows "st_insert t now k sq = Inr (Some (sseq (snd v)),
      t\<lparr>entries := put_entry k \<lparr>sid = k, sseq = sq, stoks = [], last_used = now\<rparr>
         (drop_key (fst v) (entries t))\<rparr>)"
  using assms by (simp add: st_insert_def Let_def)

lemma table_ok_replace_victim:
  assumes ok: "table_ok t" and v: "lru_victim t = Some v" and "sid s = k"
  shows "table_ok (t\<lparr>entries := put_entry k s (drop_key (fst v) (entries t))\<rparr>)"
proof -
  let ?d = "t\<lparr>entries := drop_key (fst v) (entries t)\<rparr>"
  have v: "v \<in> set (entries t)" using v by (rule lru_victim_Some(1))
  then have v': "0 < length (entries t)" "fst v \<in> set (keys (entries t))" by (auto simp: keys_def)
  have "length (drop_key (fst v) (entries t)) = length (entries t) - 1"
    using ok v'(2) by (simp add: table_ok_def length_drop_key_in)
  moreover have "length (entries t) \<le> max_sessions t" using ok by (simp add: table_ok_def)
  ultimately have "length (drop_key (fst v) (entries t)) < max_sessions t"
    using v'(1) by linarith
  then have "length (entries ?d) < max_sessions ?d" by simp
  then have "table_ok (?d\<lparr>entries := put_entry k s (entries ?d)\<rparr>)"
    using table_ok_drop [OF ok] assms(3) by (intro table_ok_insert_new) auto
  then show ?thesis by simp
qed

section \<open>Properties\<close>

text \<open>
  C2. Every run of the allocator from a fresh context of \<open>n \<ge> 2\<close> sequences is safe: a granted
  id lies in 1..n-1 (0 stays reserved for stateless requests), nobody holds it, and afterwards
  exactly it is held in addition.
\<close>

theorem take_grants_fresh_id:
  assumes "2 \<le> n" and "seq_take (foldl alloc_step (seq_allocator_init n) es) = Inr (Some s, a')"
  shows "1 \<le> s \<and> s < int n \<and> s \<notin> used_ids (foldl alloc_step (seq_allocator_init n) es) \<and>
         used_ids a' = insert s (used_ids (foldl alloc_step (seq_allocator_init n) es))"
proof -
  have ok: "alloc_ok (foldl alloc_step (seq_allocator_init n) es)"
    using assms(1) by (intro allocator.run_inv alloc_ok_init)
  have m: "max_seqs (foldl alloc_step (seq_allocator_init n) es) = n"
    using assms(1) by (rule run_max_seqs)
  have "s \<in> free_ids (foldl alloc_step (seq_allocator_init n) es)"
    using ok assms(2) by (rule seq_take_some(1))
  then have "0 < s" "nat s < n" "s \<notin> used_ids (foldl alloc_step (seq_allocator_init n) es)"
    by (simp_all add: free_ids_def used_ids_def m)
  moreover have "used_ids a' = insert s (used_ids (foldl alloc_step (seq_allocator_init n) es))"
    using ok assms(2) by (rule seq_take_some(2))
  ultimately show ?thesis by simp
qed

theorem take_grants_fresh_id_witness:
  "(1::seq_id) \<le> 2 \<and> (2::seq_id) < int 4 \<and>
   2 \<notin> used_ids (foldl alloc_step (seq_allocator_init 4) [Take])"
proof -
  have "seq_take (foldl alloc_step (seq_allocator_init 4) [Take]) =
      Inr (Some 2, \<lparr>max_seqs = 4, next_seq = 3, in_use = [False, True, True, False]\<rparr>)"
    by code_simp
  from take_grants_fresh_id [OF _ this] show ?thesis by simp
qed

text \<open>
  C5. When take() delivers nothing: exactly when every id is held except possibly the one slot
  just behind the cursor, which the round-robin sweep of max - 1 steps never reaches.
\<close>

theorem take_fails_iff:
  assumes "alloc_ok a"
  shows "seq_take a = Inr (None, a) \<longleftrightarrow> free_ids a \<subseteq> {int (skipped_slot a)}"
  using assms by (rule seq_take_none_iff)

theorem take_fails_iff_witness:
  "seq_take (seq_allocator_init 2) = Inr (None, seq_allocator_init 2) \<longleftrightarrow>
     free_ids (seq_allocator_init 2) \<subseteq> {int (skipped_slot (seq_allocator_init 2))}"
  by (rule take_fails_iff) (rule alloc_ok_init, simp)

text \<open>
  The comment on take() claims that a full sweep finds any freed slot. It does not: after
  all ids of a fresh allocator are granted and the last one is given back, take() reports that
  all are in use.
\<close>

theorem take_misses_freed_id:
  assumes "2 \<le> n"
  shows "int (n - 1) \<in> free_ids (drained_then_freed n) \<and>
         seq_take (drained_then_freed n) = Inr (None, drained_then_freed n)"
proof -
  have eq: "drained_then_freed n = \<lparr>max_seqs = n, next_seq = 0,
      in_use = map (\<lambda>i. 0 < i \<and> i < n - 1) [0..<n]\<rparr>"
    using assms by (rule drained_then_freed_eq)
  have ok: "alloc_ok (drained_then_freed n)" using assms by (simp add: eq alloc_ok_def)
  have free: "free_ids (drained_then_freed n) = {int (n - 1)}"
    using assms by (auto simp: eq free_ids_def)
  have "skipped_slot (drained_then_freed n) = n - 1"
    using assms by (simp add: eq skipped_slot_def)
  then show ?thesis using free seq_take_none_iff [OF ok] by simp
qed

theorem take_misses_freed_id_witness:
  "(31::int) \<in> free_ids (drained_then_freed 32) \<and>
   seq_take (drained_then_freed 32) = Inr (None, drained_then_freed 32)"
  using take_misses_freed_id [of 32] by simp

text \<open>
  C4. Inserting a conversation into a table with a positive bound never fails, keeps the bound
  and the one-entry-per-id shape, stores the new entry with no cached tokens, and drops an
  entry only when the table was full: then one that is least recently used, whose sequence id
  is what the caller gets to free.
\<close>

theorem insert_evicts_lru:
  assumes ok: "table_ok t" and pos: "0 < max_sessions t"
  shows "\<exists>ev t'. st_insert t now k sq = Inr (ev, t') \<and> table_ok t' \<and>
    map_of (entries t') k = Some \<lparr>sid = k, sseq = sq, stoks = [], last_used = now\<rparr> \<and>
    (case ev of
       None \<Rightarrow> map_of (entries t') = (map_of (entries t))(k \<mapsto> \<lparr>sid = k, sseq = sq, stoks = [], last_used = now\<rparr>)
     | Some q \<Rightarrow> length (entries t) = max_sessions t \<and> map_of (entries t) k = None \<and>
         (\<exists>u s. map_of (entries t) u = Some s \<and> sseq s = q \<and>
            (\<forall>x \<in> set (entries t). last_used s \<le> last_used (snd x)) \<and>
            (\<forall>w. w \<noteq> k \<longrightarrow> map_of (entries t') w = (if w = u then None else map_of (entries t) w))))"
proof (cases "length (entries t) < max_sessions t \<or> map_of (entries t) k \<noteq> None")
  case True
  let ?s = "\<lparr>sid = k, sseq = sq, stoks = [], last_used = now\<rparr>"
  have "table_ok (t\<lparr>entries := put_entry k ?s (entries t)\<rparr>)"
    using True table_ok_insert_new [OF ok, of ?s k] table_ok_put [OF ok, of k ?s] by auto
  then show ?thesis using True by (simp add: st_insert_room)
next
  case False
  with ok have full: "length (entries t) = max_sessions t" "map_of (entries t) k = None"
    by (auto simp: table_ok_def)
  with pos obtain v where v: "lru_victim t = Some v" by (cases "lru_victim t") auto
  have "map_of (entries t) (fst v) = Some (snd v)"
    using ok lru_victim_Some(1) [OF v] by (intro map_of_is_SomeI) (auto simp: table_ok_def keys_def)
  moreover have "table_ok (t\<lparr>entries := put_entry k \<lparr>sid = k, sseq = sq, stoks = [], last_used = now\<rparr>
       (drop_key (fst v) (entries t))\<rparr>)"
    by (rule table_ok_replace_victim [OF ok v]) simp
  ultimately show ?thesis
    using full st_insert_full [OF full v] lru_victim_Some(2) [OF v]
    by (auto simp: map_of_drop_key intro!: exI [where x = "fst v"])
qed

theorem insert_evicts_lru_witness:
  "\<exists>ev t'. st_insert \<lparr>max_sessions = 1, entries = [(''a'', \<lparr>sid = ''a'', sseq = 1, stoks = [7], last_used = 3\<rparr>)]\<rparr>
      5 ''b'' 2 = Inr (ev, t') \<and> table_ok t'"
  using insert_evicts_lru [of "\<lparr>max_sessions = 1, entries = [(''a'', \<lparr>sid = ''a'', sseq = 1, stoks = [7], last_used = 3\<rparr>)]\<rparr>"
      5 "''b''" 2]
  by (force simp: table_ok_def)

text \<open>
  C6. find_by_prefix() returns a session exactly when one with a non-empty cached history that is a
  prefix of the prompt exists, and then one with the longest such history, freshly touched.
\<close>

theorem find_by_prefix_longest:
  assumes "table_ok t"
  shows "case fst (st_find_by_prefix t now prompt) of
      None \<Rightarrow> (\<forall>(k, s) \<in> set (entries t). stoks s = [] \<or> \<not> prefix (stoks s) prompt)
    | Some r \<Rightarrow> (\<exists>s. map_of (entries t) (sid r) = Some s \<and> r = touch now s) \<and>
        stoks r \<noteq> [] \<and> prefix (stoks r) prompt \<and>
        (\<forall>(k, s) \<in> set (entries t). stoks s \<noteq> [] \<longrightarrow> prefix (stoks s) prompt \<longrightarrow>
           length (stoks s) \<le> length (stoks r))"
proof (cases "best_prefix prompt None 0 (entries t)")
  case None
  have "stoks s = [] \<or> \<not> prefix (stoks s) prompt" if "(k, s) \<in> set (entries t)" for k s
    using best_prefix_longest [OF that, where prompt = prompt and best = None and n = 0] None by auto
  then show ?thesis using None by (auto simp: st_find_by_prefix_def)
next
  case (Some b)
  obtain k s where b: "b = (k, s)" by (cases b)
  have ks: "(k, s) \<in> set (entries t)" "stoks s \<noteq> []" "prefix (stoks s) prompt"
    using best_prefix_cases [of prompt None 0 "entries t"] Some b by auto
  then have "map_of (entries t) k = Some s" "sid s = k"
    using assms by (auto simp: table_ok_def keys_def intro!: map_of_is_SomeI)
  moreover have "length (stoks s') \<le> length (stoks s)"
    if "(k', s') \<in> set (entries t)" "stoks s' \<noteq> []" "prefix (stoks s') prompt" for k' s'
    using best_prefix_longest [OF that, where best = None and n = 0] Some b by auto
  ultimately show ?thesis using Some b ks by (auto simp: st_find_by_prefix_def)
qed

theorem find_by_prefix_longest_witness:
  "case fst (st_find_by_prefix \<lparr>max_sessions = 2, entries =
        [(''a'', \<lparr>sid = ''a'', sseq = 1, stoks = [7], last_used = 3\<rparr>),
         (''b'', \<lparr>sid = ''b'', sseq = 2, stoks = [7, 8], last_used = 2\<rparr>)]\<rparr> 5 [7, 8, 9]) of
      None \<Rightarrow> False | Some r \<Rightarrow> stoks r \<noteq> [] \<and> prefix (stoks r) [7, 8, 9]"
  using find_by_prefix_longest [where now = 5 and prompt = "[7, 8, 9]" and t = "\<lparr>max_sessions = 2, entries =
        [(''a'', \<lparr>sid = ''a'', sseq = 1, stoks = [7], last_used = 3\<rparr>),
         (''b'', \<lparr>sid = ''b'', sseq = 2, stoks = [7, 8], last_used = 2\<rparr>)]\<rparr>"]
  by (simp add: table_ok_def st_find_by_prefix_def touch_def)

text \<open>
  A context with fewer than two sequences breaks the allocator: the constructor rounds the
  bound up to 2 but sizes the vector by its argument, so the first take() reads past its end.
\<close>

theorem tiny_context_reads_out_of_bounds:
  assumes "n < 2"
  shows "seq_take (seq_allocator_init n) = Inl OutOfBounds"
proof -
  have "[Suc 0..<2] = [1]" by (simp add: upt_rec)
  with assms show ?thesis by (simp add: seq_take_def seq_allocator_init_def sweep_index_def Let_def)
qed

theorem tiny_context_reads_out_of_bounds_witness:
  "seq_take (seq_allocator_init 1) = Inl OutOfBounds"
  by (rule tiny_context_reads_out_of_bounds) simp

end
