(* ===== verification/Completion.thy ===== *)
theory Completion
  imports Sessions
begin

text \<open>
  Server::Impl::complete_stream of inference/server.cpp: one completion, from the tokens of
  the prompt over the choice of a session, the reuse of its key/value cells, the check
  against the context window and the chunked prefill to the generation loop.

  llama.cpp is not part of the sources: the calls the server makes are the fields of
  \<open>llama\<close>, over an abstract context state \<open>'c\<close>, and what it relies on is \<open>llama_ok\<close>. The whole
  function runs under infer_mu, so a request is one step on the engine's state; the clock
  readings of one request are the single argument \<open>now\<close>.
\<close>

section \<open>The llama.cpp interface\<close>

text \<open>A batch: token, position, sequence and whether logits are wanted.\<close>

type_synonym batch = "(token \<times> nat \<times> seq_id \<times> bool) list"

record 'c llama =
  lm_tokenize :: "string \<Rightarrow> nat \<Rightarrow> int \<times> token list"
  lm_detokenize :: "token list \<Rightarrow> nat \<Rightarrow> int \<times> string"
  lm_has_memory :: bool
  lm_seq_rm :: "'c \<Rightarrow> seq_id \<Rightarrow> int \<Rightarrow> int \<Rightarrow> 'c"
  lm_decode :: "'c \<Rightarrow> batch \<Rightarrow> int \<times> 'c"
  lm_sample :: "'c \<Rightarrow> token \<times> 'c"
  lm_n_ctx :: u32
  lm_n_batch :: nat
  lm_eos :: token

record 'c engine =
  eng_ctx :: 'c
  eng_alloc :: seq_allocator
  eng_table :: session_table

datatype stream_event = OnPrefill int | OnToken string

record completion =
  out_text :: string
  stat_prompt :: int
  stat_completion :: nat
  out_events :: "stream_event list"

section \<open>Tokens and text\<close>

definition vec_resize :: "nat \<Rightarrow> token list \<Rightarrow> token list" where
  "vec_resize n xs = take n (xs @ replicate n 0)"

text \<open>Both calls are retried once with the size the first one asks for.\<close>

definition tokenize_prompt :: "'c llama \<Rightarrow> string \<Rightarrow> token list option" where
  "tokenize_prompt L prompt =
     (let r = lm_tokenize L prompt (length prompt + 16);
          r' = (if fst r < 0 then lm_tokenize L prompt (nat (- fst r)) else r)
      in if fst r' \<le> 0 then None else Some (vec_resize (nat (fst r')) (snd r')))"

definition detokenize :: "'c llama \<Rightarrow> token list \<Rightarrow> string" where
  "detokenize L ts =
     (if ts = [] then []
      else let r = lm_detokenize L ts (length ts * 16 + 64);
               r' = (if fst r < 0 then lm_detokenize L ts (nat (- fst r)) else r)
           in if 0 < fst r' then take (nat (fst r')) (snd r') else [])"

section \<open>Choosing the session\<close>

definition drop_cells :: "'c llama \<Rightarrow> seq_id \<Rightarrow> int \<Rightarrow> 'c \<Rightarrow> 'c" where
  "drop_cells L q p c = (if lm_has_memory L then lm_seq_rm L c q p (- 1) else c)"

text \<open>A sequence id for a new session; when none is free the least recently used session goes.\<close>

definition claim_seq :: "'c llama \<Rightarrow> 'c engine \<Rightarrow> (seq_id option \<times> 'c engine) or_ub" where
  "claim_seq L e = and_then (seq_take (eng_alloc e)) (\<lambda>(got, a).
     (case got of
        Some q \<Rightarrow> Inr (Some q, e\<lparr>eng_alloc := a\<rparr>)
      | None \<Rightarrow>
          (case st_evict_lru (eng_table e) of
             (None, t) \<Rightarrow> Inr (None, e\<lparr>eng_alloc := a\<rparr>)
           | (Some v, t) \<Rightarrow>
               and_then (seq_give_back a v) (\<lambda>a'.
               and_then (seq_take a') (\<lambda>(got', a'').
                 Inr (got', \<lparr>eng_ctx = drop_cells L v (- 1) (eng_ctx e), eng_alloc = a'', eng_table = t\<rparr>))))))"

definition add_session ::
  "'c llama \<Rightarrow> nat \<Rightarrow> string \<Rightarrow> seq_id \<Rightarrow> 'c engine \<Rightarrow> 'c engine or_ub" where
  "add_session L now k q e = and_then (st_insert (eng_table e) now k q) (\<lambda>(ev, t).
     (case ev of
        None \<Rightarrow> Inr (e\<lparr>eng_table := snd (st_find t now k)\<rparr>)
      | Some v \<Rightarrow>
          and_then (seq_give_back (eng_alloc e) v) (\<lambda>a.
            Inr \<lparr>eng_ctx = drop_cells L v (- 1) (eng_ctx e), eng_alloc = a,
                 eng_table = snd (st_find t now k)\<rparr>)))"

definition resolve_session ::
  "'c llama \<Rightarrow> nat \<Rightarrow> string \<Rightarrow> bool \<Rightarrow> token list \<Rightarrow> 'c engine
     \<Rightarrow> (string option \<times> 'c engine) or_ub" where
  "resolve_session L now session_id fallback prompt e =
     (if session_id \<noteq> [] then
        (case st_find (eng_table e) now session_id of
           (Some _, t) \<Rightarrow> Inr (Some session_id, e\<lparr>eng_table := t\<rparr>)
         | (None, _) \<Rightarrow>
             and_then (claim_seq L e) (\<lambda>(got, e').
               (case got of
                  None \<Rightarrow> Inr (None, e')
                | Some q \<Rightarrow>
                    and_then (add_session L now session_id q e') (\<lambda>e''. Inr (Some session_id, e'')))))
      else if fallback then
        (case st_find_by_prefix (eng_table e) now prompt of
           (r, t) \<Rightarrow> Inr (map_option sid r, e\<lparr>eng_table := t\<rparr>))
      else Inr (None, e))"

section \<open>Reusing cached cells\<close>

fun common_prefix :: "token list \<Rightarrow> token list \<Rightarrow> nat" where
  "common_prefix (x # xs) (y # ys) = (if x = y then Suc (common_prefix xs ys) else 0)"
| "common_prefix _ _ = 0"

definition set_tokens :: "string \<Rightarrow> token list \<Rightarrow> 'c engine \<Rightarrow> 'c engine" where
  "set_tokens k ts e =
     (case map_of (entries (eng_table e)) k of
        None \<Rightarrow> e
      | Some s \<Rightarrow> e\<lparr>eng_table := (eng_table e)
          \<lparr>entries := put_entry k (s\<lparr>stoks := ts\<rparr>) (entries (eng_table e))\<rparr>\<rparr>)"

text \<open>The sequence to decode on, the number of its cells that are reused, and the new state.\<close>

definition reuse_cells ::
  "'c llama \<Rightarrow> string option \<Rightarrow> token list \<Rightarrow> 'c engine \<Rightarrow> seq_id \<times> nat \<times> 'c engine" where
  "reuse_cells L sess prompt e =
     (case sess of
        None \<Rightarrow> (0, 0, e\<lparr>eng_ctx := drop_cells L 0 (- 1) (eng_ctx e)\<rparr>)
      | Some k \<Rightarrow>
          (case map_of (entries (eng_table e)) k of
             None \<Rightarrow> (0, 0, e)
           | Some s \<Rightarrow>
               let n = common_prefix (stoks s) prompt
               in if n < length (stoks s)
                  then (sseq s, n, set_tokens k (take n (stoks s))
                          (e\<lparr>eng_ctx := drop_cells L (sseq s) (int n) (eng_ctx e)\<rparr>))
                  else (sseq s, n, e)))"

section \<open>Prefill and generation\<close>

text \<open>The sum of the two 32-bit counts is unsigned and wraps; max_tokens is a C++ int.\<close>

definition over_budget :: "'c llama \<Rightarrow> nat \<Rightarrow> int \<Rightarrow> bool" where
  "over_budget L n max_tokens \<longleftrightarrow> lm_n_ctx L \<le> word_of_nat n + word_of_int max_tokens"

definition token_budget :: "'c llama \<Rightarrow> nat \<Rightarrow> int \<Rightarrow> int" where
  "token_budget L n max_tokens =
     (if over_budget L n max_tokens then sint (lm_n_ctx L) - int n - 1 else max_tokens)"

fun batch_of :: "seq_id \<Rightarrow> nat \<Rightarrow> bool \<Rightarrow> token list \<Rightarrow> batch" where
  "batch_of q pos final [] = []"
| "batch_of q pos final (t # ts) = (t, pos, q, final \<and> ts = []) # batch_of q (Suc pos) final ts"

function prefill ::
  "'c llama \<Rightarrow> seq_id \<Rightarrow> nat \<Rightarrow> nat \<Rightarrow> token list \<Rightarrow> 'c \<Rightarrow> (bool \<times> 'c) or_ub" where
  "prefill L q n_chunk pos toks c =
     (if toks = [] then Inr (True, c)
      else if n_chunk = 0 then Inl NoReturn
      else let r = lm_decode L c (batch_of q pos (length toks \<le> n_chunk) (take n_chunk toks))
           in if fst r \<noteq> 0 then Inr (False, snd r)
              else prefill L q n_chunk (pos + min n_chunk (length toks)) (drop n_chunk toks) (snd r))"
  by pat_completeness auto
termination by (relation "measure (\<lambda>(L, q, n, pos, toks, c). length toks)") auto

declare prefill.simps [simp del]

definition stop_hit :: "string list option \<Rightarrow> string \<Rightarrow> bool" where
  "stop_hit stops text =
     (case stops of
        None \<Rightarrow> False
      | Some ss \<Rightarrow> list_ex (\<lambda>s. s \<noteq> [] \<and> contains_str s text) ss)"

definition emit_piece :: "string \<Rightarrow> string \<Rightarrow> stream_event list" where
  "emit_piece emitted text =
     (if length emitted < length text \<and> starts_with emitted text
      then [OnToken (drop (length emitted) text)]
      else if text \<noteq> emitted then [OnToken text] else [])"

text \<open>The loop over i: the budget left, the context, the generated tokens and the text sent so far.\<close>

fun generate ::
  "'c llama \<Rightarrow> seq_id \<Rightarrow> bool \<Rightarrow> string list option \<Rightarrow> nat \<Rightarrow> nat \<Rightarrow> 'c \<Rightarrow> token list \<Rightarrow> string
     \<Rightarrow> 'c \<times> token list \<times> stream_event list" where
  "generate L q streaming stops n0 0 c gen emitted = (c, gen, [])"
| "generate L q streaming stops n0 (Suc left) c gen emitted =
     (let (tok, c1) = lm_sample L c
      in if tok = lm_eos L then (c1, gen, [])
         else let (rc, c2) = lm_decode L c1 [(tok, n0 + length gen, q, True)]
              in if rc \<noteq> 0 then (c2, gen, [])
                 else let gen' = gen @ [tok];
                          text = (if streaming \<or> stops \<noteq> None then detokenize L gen' else [])
                      in if stop_hit stops text
                         then (drop_cells L q (int (n0 + length gen')) c2, gen', [])
                         else let evs = (if streaming then emit_piece emitted text else []);
                                  (c3, gen'', evs') =
                                    generate L q streaming stops n0 left c2 gen'
                                      (if streaming then text else emitted)
                              in (c3, gen'', evs @ evs'))"

section \<open>The whole completion\<close>

definition no_text :: "int \<Rightarrow> completion" where
  "no_text n = \<lparr>out_text = [], stat_prompt = n, stat_completion = 0, out_events = []\<rparr>"

text \<open>From the prefill to the end, on sequence q with n_past cells already there.\<close>

definition run_prompt ::
  "'c llama \<Rightarrow> string option \<Rightarrow> seq_id \<Rightarrow> nat \<Rightarrow> token list \<Rightarrow> int \<Rightarrow> bool \<Rightarrow> string list option
     \<Rightarrow> 'c engine \<Rightarrow> (completion \<times> 'c engine) or_ub" where
  "run_prompt L sess q n_past prompt max_tokens streaming stops e =
     (let n_prompt = int (length prompt);
          n_feed = length prompt - n_past;
          n_chunk = min (max n_feed 1) (lm_n_batch L)
      in and_then (prefill L q n_chunk n_past (drop n_past prompt) (eng_ctx e)) (\<lambda>(ok, c).
           if \<not> ok then Inr (no_text n_prompt, e\<lparr>eng_ctx := c\<rparr>)
           else let (c', gen, evs) =
                      generate L q streaming stops (length prompt) (nat max_tokens) c [] [];
                    e' = e\<lparr>eng_ctx := c'\<rparr>
                in Inr (\<lparr>out_text = detokenize L gen, stat_prompt = n_prompt,
                         stat_completion = length gen,
                         out_events = (if streaming then [OnPrefill n_prompt] else []) @ evs\<rparr>,
                        case sess of None \<Rightarrow> e' | Some k \<Rightarrow> set_tokens k (prompt @ gen) e')))"

definition complete_stream ::
  "'c llama \<Rightarrow> nat \<Rightarrow> string \<Rightarrow> int \<Rightarrow> string \<Rightarrow> bool \<Rightarrow> bool \<Rightarrow> string list option
     \<Rightarrow> 'c engine \<Rightarrow> (completion \<times> 'c engine) or_ub" where
  "complete_stream L now prompt max_tokens session_id fallback streaming stops e =
     (case tokenize_prompt L prompt of
        None \<Rightarrow> Inr (no_text 0, e)
      | Some toks \<Rightarrow>
          and_then (resolve_session L now session_id fallback toks e) (\<lambda>(sess, e1).
            let (q, n_past, e2) = reuse_cells L sess toks e1;
                budget = token_budget L (length toks) max_tokens
            in if over_budget L (length toks) max_tokens \<and> budget \<le> 0 then
                 Inr (no_text (int (length toks)),
                      (case sess of
                         None \<Rightarrow> e2
                       | Some k \<Rightarrow>
                           if lm_has_memory L
                           then set_tokens k [] (e2\<lparr>eng_ctx := drop_cells L q (- 1) (eng_ctx e2)\<rparr>)
                           else e2))
               else run_prompt L sess q n_past toks budget streaming stops e2))"

section \<open>What llama.cpp promises\<close>

text \<open>
  \<open>kv c q\<close> are the cells of sequence q by position. llama_memory_seq_rm drops the cells from a
  position on (all of them for a negative one), a decode that returns 0 adds the batch, one
  that does not returns with the memory restored, and sampling does not touch the memory.
\<close>

type_synonym cells = "nat \<Rightarrow> token option"

definition cells_of :: "token list \<Rightarrow> cells" where
  "cells_of ts = (\<lambda>i. if i < length ts then Some (ts ! i) else None)"

fun feed :: "(seq_id \<Rightarrow> cells) \<Rightarrow> batch \<Rightarrow> seq_id \<Rightarrow> cells" where
  "feed m [] = m"
| "feed m ((t, p, q, l) # b) = feed (m(q := (m q)(p \<mapsto> t))) b"

definition llama_ok :: "'c llama \<Rightarrow> ('c \<Rightarrow> seq_id \<Rightarrow> cells) \<Rightarrow> bool" where
  "llama_ok L kv \<longleftrightarrow> lm_has_memory L \<and>
     (\<forall>c q p. kv (lm_seq_rm L c q p (- 1)) =
        (kv c)(q := (\<lambda>i. if int i < p then kv c q i else None))) \<and>
     (\<forall>c b. fst (lm_decode L c b) = 0 \<longrightarrow> kv (snd (lm_decode L c b)) = feed (kv c) b) \<and>
     (\<forall>c b. fst (lm_decode L c b) \<noteq> 0 \<longrightarrow> kv (snd (lm_decode L c b)) = kv c) \<and>
     (\<forall>c. kv (snd (lm_sample L c)) = kv c)"

lemma kv_drop:
  "llama_ok L kv \<Longrightarrow> kv (drop_cells L q p c) = (kv c)(q := (\<lambda>i. if int i < p then kv c q i else None))"
  by (simp add: llama_ok_def drop_cells_def)

lemma kv_drop_all: "llama_ok L kv \<Longrightarrow> kv (drop_cells L q (- 1) c) = (kv c)(q := Map.empty)"
  by (simp add: kv_drop fun_eq_iff)

lemma kv_decode:
  "llama_ok L kv \<Longrightarrow> lm_decode L c b = (rc, c') \<Longrightarrow> kv c' = (if rc = 0 then feed (kv c) b else kv c)"
  unfolding llama_ok_def by (metis fst_conv snd_conv)

lemma kv_sample: "llama_ok L kv \<Longrightarrow> lm_sample L c = (t, c') \<Longrightarrow> kv c' = kv c"
  unfolding llama_ok_def by (metis snd_conv)

lemma cells_of_Nil [simp]: "cells_of [] = Map.empty"
  by (simp add: cells_of_def)

lemma cells_of_snoc: "(cells_of ts)(length ts \<mapsto> t) = cells_of (ts @ [t])"
  by (rule ext) (simp add: cells_of_def nth_append)

lemma cells_of_take:
  "n \<le> length ts \<Longrightarrow> (\<lambda>i. if int i < int n then cells_of ts i else None) = cells_of (take n ts)"
  by (rule ext) (simp add: cells_of_def)

lemma feed_batch_of:
  "m q = cells_of pre \<Longrightarrow> feed m (batch_of q (length pre) f ts) = m(q := cells_of (pre @ ts))"
proof (induction ts arbitrary: m pre)
  case Nil
  then show ?case by auto
next
  case (Cons t ts)
  have "feed m (batch_of q (length pre) f (t # ts)) =
      feed (m(q := cells_of (pre @ [t]))) (batch_of q (length (pre @ [t])) f ts)"
    using Cons.prems by (simp add: cells_of_snoc)
  also have "\<dots> = m(q := cells_of ((pre @ [t]) @ ts))"
    by (subst Cons.IH) simp_all
  finally show ?case by simp
qed

text \<open>The prefill adds the fed tokens; a failed one that fits in one chunk adds nothing.\<close>

lemma prefill_cells:
  "prefill L q n pos toks c = Inr (True, c') \<Longrightarrow> kv c q = cells_of pre \<Longrightarrow> length pre = pos \<Longrightarrow>
     llama_ok L kv \<Longrightarrow> kv c' = (kv c)(q := cells_of (pre @ toks))"
proof (induction L q n pos toks c arbitrary: pre rule: prefill.induct)
  case (1 L q n pos toks c)
  note ok = "1.prems"(4)
  show ?case
  proof (cases "toks = []")
    case True
    with "1.prems" have "c' = c" by (simp add: prefill.simps [of L q n pos "[]"])
    moreover have "(kv c)(q := cells_of pre) = kv c" using "1.prems"(2) by (rule fun_upd_idem)
    ultimately show ?thesis using True by simp
  next
    case False
    define r where "r = lm_decode L c (batch_of q pos (length toks \<le> n) (take n toks))"
    from "1.prems"(1) False have n: "n \<noteq> 0" and rc: "fst r = 0"
      and rest: "prefill L q n (pos + min n (length toks)) (drop n toks) (snd r) = Inr (True, c')"
      by (simp_all add: prefill.simps [of L q n pos toks c] r_def Let_def split: if_splits)
    have kv: "kv (snd r) = (kv c)(q := cells_of (pre @ take n toks))"
    proof -
      have "lm_decode L c (batch_of q pos (length toks \<le> n) (take n toks)) = (0, snd r)"
        using rc r_def by (metis prod.collapse)
      from kv_decode [OF ok this] show ?thesis
        using feed_batch_of [where m = "kv c", OF "1.prems"(2), of "length toks \<le> n" "take n toks"] "1.prems"(3) by simp
    qed
    have "kv c' = (kv (snd r))(q := cells_of ((pre @ take n toks) @ drop n toks))"
    proof (rule "1.IH" [OF False n r_def _ rest])
      show "\<not> fst r \<noteq> 0" using rc by simp
      show "kv (snd r) q = cells_of (pre @ take n toks)" unfolding kv by simp
      show "length (pre @ take n toks) = pos + min n (length toks)" using "1.prems"(3) by simp
      show "llama_ok L kv" by (rule ok)
    qed
    with kv show ?thesis by simp
  qed
qed

lemma prefill_total: "n \<noteq> 0 \<Longrightarrow> \<exists>okp c'. prefill L q n pos toks c = Inr (okp, c')"
proof (induction L q n pos toks c rule: prefill.induct)
  case (1 L q n pos toks c)
  then show ?case by (auto simp: prefill.simps [of L q n pos toks c] Let_def)
qed

lemma prefill_one_chunk_fails:
  assumes ok: "llama_ok L kv" and "length toks \<le> n" and "prefill L q n pos toks c = Inr (False, c')"
  shows "kv c' = kv c"
proof -
  obtain rc c1 where d: "lm_decode L c (batch_of q pos (length toks \<le> n) (take n toks)) = (rc, c1)"
    by fastforce
  have "rc \<noteq> 0 \<and> c' = c1"
    using assms(2,3) d prefill.simps [of L q n "pos + length toks" "[]" c1]
    by (simp add: prefill.simps [of L q n pos toks c] Let_def split: if_splits)
  then show ?thesis using kv_decode [OF ok d] by simp
qed

lemma generate_Suc:
  assumes "lm_sample L c = (tok, c1)" and "lm_decode L c1 [(tok, n0 + length gen, q, True)] = (rc, c2)"
    and "full = (if streaming \<or> stops \<noteq> None then detokenize L (gen @ [tok]) else [])"
    and "generate L q streaming stops n0 left c2 (gen @ [tok]) (if streaming then full else emitted) = (c3, g3, es)"
  shows "generate L q streaming stops n0 (Suc left) c gen emitted =
    (if tok = lm_eos L then (c1, gen, [])
     else if rc \<noteq> 0 then (c2, gen, [])
     else if stop_hit stops full then (drop_cells L q (int (n0 + length (gen @ [tok]))) c2, gen @ [tok], [])
     else (c3, g3, (if streaming then emit_piece emitted full else []) @ es))"
  unfolding generate.simps assms(1) assms(3) [symmetric] Let_def prod.case assms(2) assms(4) by simp

lemma generate_cells:
  "generate L q streaming stops (length prompt) left c gen emitted = (c', gen', evs) \<Longrightarrow>
     kv c q = cells_of (prompt @ gen) \<Longrightarrow> llama_ok L kv \<Longrightarrow> kv c' = (kv c)(q := cells_of (prompt @ gen'))"
proof (induction L q streaming stops "length prompt" left c gen emitted
       arbitrary: c' gen' evs rule: generate.induct)
  case (1 L q streaming stops c gen emitted)
  then have "c' = c" "gen' = gen" by simp_all
  with 1 show ?case by (simp only: fun_upd_idem)
next
  case (2 L q streaming stops left c gen emitted)
  note ok = "2.prems"(3)
  obtain tok c1 where s: "lm_sample L c = (tok, c1)" by (cases "lm_sample L c")
  obtain rc c2 where d: "lm_decode L c1 [(tok, length prompt + length gen, q, True)] = (rc, c2)"
    by fastforce
  define g where "g = gen @ [tok]"
  define full where "full = (if streaming \<or> stops \<noteq> None then detokenize L g else [])"
  obtain c3 g3 es where r: "generate L q streaming stops (length prompt) left c2 g
      (if streaming then full else emitted) = (c3, g3, es)"
    by (metis prod_cases3)
  note step = generate_Suc [OF s d full_def [unfolded g_def] r [unfolded g_def], folded g_def]
  have k1: "kv c1 = kv c" using ok s by (rule kv_sample)
  show ?case
  proof (cases "tok = lm_eos L \<or> rc \<noteq> 0")
    case True
    then have "gen' = gen" "c' = c1 \<or> rc \<noteq> 0 \<and> c' = c2"
      using "2.prems"(1) unfolding step by (auto split: if_splits)
    moreover have "kv c2 = kv c" if "rc \<noteq> 0" using kv_decode [OF ok d] that k1 by simp
    ultimately have "gen' = gen" "kv c' = kv c" using k1 by auto
    with "2.prems"(2) show ?thesis by (simp only: fun_upd_idem)
  next
    case False
    have "kv c2 = feed (kv c1) [(tok, length (prompt @ gen), q, True)]"
      using kv_decode [OF ok d] False by simp
    then have k2: "kv c2 = (kv c)(q := cells_of (prompt @ g))"
      using "2.prems"(2) k1 cells_of_snoc [of "prompt @ gen" tok] by (simp add: g_def)
    show ?thesis
    proof (cases "stop_hit stops full")
      case True
      then have eq: "c' = drop_cells L q (int (length (prompt @ g))) c2" "gen' = g"
        using "2.prems"(1) False unfolding step by auto
      have k2q: "kv c2 q = cells_of (prompt @ g)" by (simp add: k2)
      have "kv c' = (kv c2)(q := cells_of (prompt @ g))"
        unfolding eq kv_drop [OF ok] k2q using cells_of_take [of "length (prompt @ g)" "prompt @ g"] by simp
      then show ?thesis using eq by (simp add: k2)
    next
      case nohit: False
      then have eq: "c' = c3" "gen' = g3"
        using "2.prems"(1) False unfolding step by simp_all
      have "kv c3 = (kv c2)(q := cells_of (prompt @ g3))"
        using False
        by (intro "2.hyps" [OF s [symmetric] refl _ d [symmetric] refl _ g_def full_def nohit refl r _ ok])
           (simp_all add: k2)
      with k2 eq show ?thesis by simp
    qed
  qed
qed

section \<open>The cache is coherent\<close>

text \<open>
  The session of every entry holds an id of its own, the allocator has handed out exactly
  these ids (and Q, taken for a session about to be added), the cells of a session's sequence
  are its tokens, and every other sequence but 0 is empty.
\<close>

definition seq_of :: "session_table \<Rightarrow> string \<Rightarrow> seq_id" where
  "seq_of t k = sseq (the (map_of (entries t) k))"

definition live :: "session_table \<Rightarrow> string set" where
  "live t = dom (map_of (entries t))"

definition engine_ok :: "('c \<Rightarrow> seq_id \<Rightarrow> cells) \<Rightarrow> seq_id set \<Rightarrow> 'c engine \<Rightarrow> bool" where
  "engine_ok kv Q e \<longleftrightarrow>
     alloc_ok (eng_alloc e) \<and> table_ok (eng_table e) \<and>
     max_sessions (eng_table e) = seq_capacity (eng_alloc e) \<and>
     inj_on (seq_of (eng_table e)) (live (eng_table e)) \<and>
     used_ids (eng_alloc e) = Q \<union> seq_of (eng_table e) ` live (eng_table e) \<and>
     Q \<inter> seq_of (eng_table e) ` live (eng_table e) = {} \<and>
     (\<forall>k s. map_of (entries (eng_table e)) k = Some s \<longrightarrow> kv (eng_ctx e) (sseq s) = cells_of (stoks s)) \<and>
     (\<forall>q. q \<noteq> 0 \<longrightarrow> q \<notin> seq_of (eng_table e) ` live (eng_table e) \<longrightarrow> kv (eng_ctx e) q = Map.empty)"

lemma used_ids_pos: "q \<in> used_ids a \<Longrightarrow> 0 < q"
  by (simp add: used_ids_def)

lemma used_ids_finite: "used_ids a \<subseteq> {1..<int (max_seqs a)}"
  by (auto simp: used_ids_def)

lemma used_ids_card: "card (used_ids a) \<le> max_seqs a - 1" "finite (used_ids a)"
  using card_mono [OF _ used_ids_finite, of a] finite_subset [OF used_ids_finite, of a] by simp_all

lemma live_iff: "k \<in> live t \<longleftrightarrow> (\<exists>s. map_of (entries t) k = Some s)"
  by (auto simp: live_def)

lemma card_live: "table_ok t \<Longrightarrow> card (live t) = length (entries t)"
proof -
  assume "table_ok t"
  then have "distinct (map fst (entries t))" by (simp add: table_ok_def keys_def)
  then show ?thesis by (simp add: live_def dom_map_of_conv_image_fst distinct_card flip: set_map)
qed

text \<open>There is room for the session an id has been taken for.\<close>

lemma engine_room:
  assumes "engine_ok kv {q} e"
  shows "length (entries (eng_table e)) < max_sessions (eng_table e)"
proof -
  let ?S = "seq_of (eng_table e) ` live (eng_table e)"
  from assms have ok: "table_ok (eng_table e)" "inj_on (seq_of (eng_table e)) (live (eng_table e))"
    "used_ids (eng_alloc e) = insert q ?S" "q \<notin> ?S"
    "max_sessions (eng_table e) = max_seqs (eng_alloc e) - 1"
    by (auto simp: engine_ok_def seq_capacity_def)
  have "finite ?S" using used_ids_card(2) [of "eng_alloc e"] ok(3) by simp
  then have "Suc (card ?S) = card (used_ids (eng_alloc e))" using ok(3,4) by simp
  also have "\<dots> \<le> max_seqs (eng_alloc e) - 1" by (rule used_ids_card)
  finally show ?thesis using ok(1,2,5) by (simp add: card_image card_live)
qed

text \<open>A session is updated on its own sequence (a touch, new tokens).\<close>

lemma engine_update:
  assumes ok: "engine_ok kv Q e" and k: "map_of (entries (eng_table e)) k = Some s"
    and s': "sid s' = k" "sseq s' = sseq s"
    and kv: "kv c' = (kv (eng_ctx e))(sseq s := cells_of (stoks s'))"
  shows "engine_ok kv Q (e\<lparr>eng_ctx := c',
    eng_table := (eng_table e)\<lparr>entries := put_entry k s' (entries (eng_table e))\<rparr>\<rparr>)"
proof -
  let ?t = "eng_table e" and ?t' = "(eng_table e)\<lparr>entries := put_entry k s' (entries (eng_table e))\<rparr>"
  have live: "live ?t' = live ?t" using k by (auto simp: live_def)
  have sq: "seq_of ?t' x = seq_of ?t x" for x using k s'(2) by (simp add: seq_of_def)
  have inj: "inj_on (seq_of ?t) (live ?t)" using ok by (simp add: engine_ok_def)
  have other: "sseq s2 \<noteq> sseq s" if "map_of (entries ?t) k2 = Some s2" "k2 \<noteq> k" for k2 s2
    using inj_onD [OF inj, of k2 k] that k by (auto simp: seq_of_def live_iff)
  have "table_ok ?t'" using ok k s' by (intro table_ok_put) (auto simp: engine_ok_def)
  moreover have "sseq s \<in> seq_of ?t ` live ?t"
    using k by (auto simp: seq_of_def live_iff intro!: image_eqI [where x = k])
  moreover have "seq_of ?t' = seq_of ?t" using sq by (rule ext)
  ultimately show ?thesis
    using ok other s'(2) by (auto simp: engine_ok_def live kv)
qed

lemma engine_touch:
  assumes ok: "engine_ok kv Q e" and k: "map_of (entries (eng_table e)) k = Some s"
  shows "engine_ok kv Q (e\<lparr>eng_table := (eng_table e)
    \<lparr>entries := put_entry k (touch now s) (entries (eng_table e))\<rparr>\<rparr>)"
proof -
  have "sid s = k" using ok k by (auto simp: engine_ok_def dest: table_entry)
  moreover have "kv (eng_ctx e) (sseq s) = cells_of (stoks s)" using ok k by (simp add: engine_ok_def)
  ultimately show ?thesis
    using engine_update [OF ok k, of "touch now s" "eng_ctx e"] by (simp add: fun_upd_idem)
qed

text \<open>A session is dropped together with its cells and its id.\<close>

lemma engine_drop:
  assumes ok: "engine_ok kv Q e" and k: "map_of (entries (eng_table e)) k = Some s"
    and kv: "kv c' = (kv (eng_ctx e))(sseq s := Map.empty)"
    and a: "alloc_ok a'" "used_ids a' = used_ids (eng_alloc e) - {sseq s}"
      "max_seqs a' = max_seqs (eng_alloc e)"
  shows "engine_ok kv Q \<lparr>eng_ctx = c', eng_alloc = a',
    eng_table = (eng_table e)\<lparr>entries := drop_key k (entries (eng_table e))\<rparr>\<rparr>"
proof -
  let ?t = "eng_table e" and ?t' = "(eng_table e)\<lparr>entries := drop_key k (entries (eng_table e))\<rparr>"
  have live: "live ?t' = live ?t - {k}" by (auto simp: live_def map_of_drop_key)
  have sq: "seq_of ?t' x = seq_of ?t x" if "x \<noteq> k" for x
    using that by (simp add: seq_of_def map_of_drop_key)
  have inj: "inj_on (seq_of ?t) (live ?t)" using ok by (simp add: engine_ok_def)
  have kl: "k \<in> live ?t" "seq_of ?t k = sseq s" using k by (auto simp: seq_of_def live_iff)
  have img: "seq_of ?t' ` live ?t' = seq_of ?t ` live ?t - {sseq s}"
  proof -
    have "seq_of ?t' ` live ?t' = seq_of ?t ` (live ?t - {k})"
      unfolding live by (rule image_cong) (auto simp: sq)
    also have "\<dots> = seq_of ?t ` live ?t - {sseq s}"
      using inj_on_image_set_diff [OF inj, of "live ?t" "{k}"] kl by simp
    finally show ?thesis .
  qed
  have "inj_on (seq_of ?t') (live ?t')"
    using inj unfolding live inj_on_def by (metis Diff_iff insertI1 sq)
  moreover have "table_ok ?t'" using ok by (intro table_ok_drop) (simp add: engine_ok_def)
  moreover have "sseq s2 \<noteq> sseq s" if "map_of (entries ?t) k2 = Some s2" "k2 \<noteq> k" for k2 s2
    using inj_onD [OF inj, of k2 k] that k by (auto simp: seq_of_def live_iff)
  moreover have "sseq s \<notin> Q"
  proof -
    have "sseq s \<in> seq_of ?t ` live ?t" using kl by (intro image_eqI [where x = k]) simp_all
    then show ?thesis using ok unfolding engine_ok_def by blast
  qed
  ultimately show ?thesis
    using ok a by (auto simp: engine_ok_def img kv seq_capacity_def map_of_drop_key split: if_splits)
qed

text \<open>An id is taken, and a session is added on it.\<close>

lemma engine_take:
  assumes ok: "engine_ok kv {} e" and "seq_take (eng_alloc e) = Inr (Some q, a')"
  shows "engine_ok kv {q} (e\<lparr>eng_alloc := a'\<rparr>)"
proof -
  have a: "alloc_ok (eng_alloc e)" using ok by (simp add: engine_ok_def)
  note t = seq_take_some [OF a assms(2)]
  have "q \<notin> used_ids (eng_alloc e)" using t(1) by (simp add: free_ids_def used_ids_def)
  with t ok show ?thesis by (auto simp: engine_ok_def seq_capacity_def)
qed

lemma engine_add:
  assumes ok: "engine_ok kv {q} e" and k: "map_of (entries (eng_table e)) k = None"
  shows "engine_ok kv {} (e\<lparr>eng_table := (eng_table e)\<lparr>entries := put_entry k
    \<lparr>sid = k, sseq = q, stoks = [], last_used = now\<rparr> (entries (eng_table e))\<rparr>\<rparr>)"
proof -
  let ?s = "\<lparr>sid = k, sseq = q, stoks = [], last_used = now\<rparr>"
  let ?t = "eng_table e" and ?t' = "(eng_table e)\<lparr>entries := put_entry k ?s (entries (eng_table e))\<rparr>"
  have kl: "k \<notin> live ?t" using k by (simp add: live_iff)
  have live: "live ?t' = insert k (live ?t)" by (simp add: live_def)
  have sq: "seq_of ?t' x = (if x = k then q else seq_of ?t x)" for x by (simp add: seq_of_def)
  have qn: "q \<notin> seq_of ?t ` live ?t" using ok by (simp add: engine_ok_def)
  have old: "seq_of ?t' ` live ?t = seq_of ?t ` live ?t" using kl by (intro image_cong) (auto simp: sq)
  have img: "seq_of ?t' ` live ?t' = insert q (seq_of ?t ` live ?t)"
    unfolding live using sq [of k] old by simp
  have "q \<noteq> 0" using ok used_ids_pos [of q "eng_alloc e"] by (auto simp: engine_ok_def)
  then have "kv (eng_ctx e) q = Map.empty" using ok qn by (simp add: engine_ok_def)
  moreover have "inj_on (seq_of ?t') (live ?t')"
  proof -
    have "inj_on (seq_of ?t) (live ?t)" using ok by (simp add: engine_ok_def)
    then have "inj_on (seq_of ?t') (live ?t)" using kl by (auto simp: inj_on_def sq)
    moreover have "seq_of ?t' k \<notin> seq_of ?t' ` live ?t" using old qn sq [of k] by simp
    ultimately show ?thesis unfolding live using kl by (simp add: inj_on_insert)
  qed
  moreover have "table_ok ?t'"
    using ok engine_room [OF ok] by (intro table_ok_insert_new) (simp_all add: engine_ok_def)
  ultimately show ?thesis using ok by (auto simp: engine_ok_def img split: if_splits)
qed

lemma engine_stateless:
  assumes ok: "engine_ok kv Q e" and "kv c' = (kv (eng_ctx e))(0 := m)"
  shows "engine_ok kv Q (e\<lparr>eng_ctx := c'\<rparr>)"
proof -
  have "sseq s \<noteq> 0" if "map_of (entries (eng_table e)) k = Some s" for k s
  proof -
    have "sseq s \<in> seq_of (eng_table e) ` live (eng_table e)"
      using that by (intro image_eqI [where x = k]) (auto simp: seq_of_def live_iff)
    then have "sseq s \<in> used_ids (eng_alloc e)" using ok by (simp add: engine_ok_def)
    then show ?thesis using used_ids_pos by fastforce
  qed
  then show ?thesis using ok assms(2) by (auto simp: engine_ok_def)
qed

lemma engine_set_tokens:
  assumes ok: "engine_ok kv Q e" and k: "map_of (entries (eng_table e)) k = Some s"
    and kv: "kv c' = (kv (eng_ctx e))(sseq s := cells_of ts)"
  shows "engine_ok kv Q (set_tokens k ts (e\<lparr>eng_ctx := c'\<rparr>))"
proof -
  have "sid s = k" using ok k by (auto simp: engine_ok_def dest: table_entry)
  then show ?thesis
    using engine_update [OF ok k, of "s\<lparr>stoks := ts\<rparr>" c'] k kv by (simp add: set_tokens_def)
qed

section \<open>Every step keeps it\<close>

lemma claim_seq_ok:
  assumes L: "llama_ok L kv" and ok: "engine_ok kv {} e"
  shows "\<exists>got e'. claim_seq L e = Inr (got, e') \<and>
    (case got of None \<Rightarrow> engine_ok kv {} e' | Some q \<Rightarrow> engine_ok kv {q} e') \<and>
    live (eng_table e') \<subseteq> live (eng_table e)"
proof -
  have a: "alloc_ok (eng_alloc e)" and t: "table_ok (eng_table e)" using ok by (simp_all add: engine_ok_def)
  obtain r a1 where take1: "seq_take (eng_alloc e) = Inr (r, a1)" using seq_take_total [OF a] by blast
  show ?thesis
  proof (cases r)
    case (Some q)
    with take1 engine_take [OF ok] show ?thesis by (simp add: claim_seq_def)
  next
    case None
    then have a1: "a1 = eng_alloc e" using seq_take_none [OF a] take1 by simp
    show ?thesis
    proof (cases "lru_victim (eng_table e)")
      case vN: None
      have "e\<lparr>eng_alloc := eng_alloc e\<rparr> = e" by simp
      moreover have "st_evict_lru (eng_table e) = (None, eng_table e)" by (simp only: st_evict_lru_def vN option.case)
      ultimately show ?thesis using None take1 a1 ok by (simp add: claim_seq_def)
    next
      case (Some v)
      then have "map_of (entries (eng_table e)) (fst v) = Some (snd v)"
        using t lru_victim_Some(1) [OF Some] by (intro map_of_is_SomeI) (auto simp: table_ok_def keys_def)
      moreover obtain a2 where a2: "seq_give_back a1 (sseq (snd v)) = Inr a2" "alloc_ok a2"
        "used_ids a2 = used_ids a1 - {sseq (snd v)}" "max_seqs a2 = max_seqs a1"
        using seq_give_back_ok [of a1 "sseq (snd v)"] a a1 by blast
      ultimately have ok2: "engine_ok kv {} \<lparr>eng_ctx = drop_cells L (sseq (snd v)) (- 1) (eng_ctx e), eng_alloc = a2,
          eng_table = (eng_table e)\<lparr>entries := drop_key (fst v) (entries (eng_table e))\<rparr>\<rparr>"
        using a1 kv_drop_all [OF L] by (intro engine_drop [OF ok]) simp_all
      obtain r3 a3 where take3: "seq_take a2 = Inr (r3, a3)" using seq_take_total [OF a2(2)] by blast
      have sub: "live ((eng_table e)\<lparr>entries := drop_key (fst v) (entries (eng_table e))\<rparr>) \<subseteq> live (eng_table e)"
        by (auto simp: live_def map_of_drop_key split: if_splits)
      have run: "claim_seq L e = Inr (r3, \<lparr>eng_ctx = drop_cells L (sseq (snd v)) (- 1) (eng_ctx e), eng_alloc = a3,
          eng_table = (eng_table e)\<lparr>entries := drop_key (fst v) (entries (eng_table e))\<rparr>\<rparr>)"
        using None take1 Some a2(1) take3 by (simp add: claim_seq_def st_evict_lru_def)
      show ?thesis
      proof (cases r3)
        case r3: None
        then have "a3 = a2" using seq_take_none [OF a2(2)] take3 by simp
        with run r3 ok2 sub show ?thesis by simp
      next
        case (Some q)
        with run sub engine_take [OF ok2, of q a3] take3 show ?thesis by simp
      qed
    qed
  qed
qed

lemma add_session_ok:
  assumes ok: "engine_ok kv {q} e" and k: "map_of (entries (eng_table e)) k = None"
  shows "\<exists>e'. add_session L now k q e = Inr e' \<and> engine_ok kv {} e' \<and> k \<in> live (eng_table e')"
proof -
  let ?s = "\<lparr>sid = k, sseq = q, stoks = [], last_used = now\<rparr>"
  let ?t = "(eng_table e)\<lparr>entries := put_entry k ?s (entries (eng_table e))\<rparr>"
  let ?e = "e\<lparr>eng_table := ?t\<rparr>"
  have ins: "st_insert (eng_table e) now k q = Inr (None, ?t)"
    using engine_room [OF ok] by (intro st_insert_room) simp
  have ok1: "engine_ok kv {} ?e" by (rule engine_add [OF ok k])
  have find: "snd (st_find ?t now k) = ?t\<lparr>entries := put_entry k (touch now ?s) (entries ?t)\<rparr>"
    by (simp add: st_find_def)
  have "engine_ok kv {} (?e\<lparr>eng_table := (eng_table ?e)
      \<lparr>entries := put_entry k (touch now ?s) (entries (eng_table ?e))\<rparr>\<rparr>)"
    by (rule engine_touch [OF ok1]) simp
  then show ?thesis using ins find by (auto simp: add_session_def live_def)
qed

lemma resolve_session_ok:
  assumes L: "llama_ok L kv" and ok: "engine_ok kv {} e"
  shows "\<exists>sess e'. resolve_session L now k fallback prompt e = Inr (sess, e') \<and> engine_ok kv {} e' \<and>
    (case sess of None \<Rightarrow> True | Some x \<Rightarrow> x \<in> live (eng_table e'))"
proof -
  have t: "table_ok (eng_table e)" using ok by (simp add: engine_ok_def)
  consider (known) s where "k \<noteq> []" "map_of (entries (eng_table e)) k = Some s"
    | (new) "k \<noteq> []" "map_of (entries (eng_table e)) k = None"
    | (fall) "k = []" fallback | (none) "k = []" "\<not> fallback"
    by (cases "map_of (entries (eng_table e)) k") auto
  then show ?thesis
  proof cases
    case known
    with engine_touch [OF ok known(2), of now] show ?thesis
      by (simp add: resolve_session_def st_find_def live_def)
  next
    case new
    from claim_seq_ok [OF L ok] obtain got e1 where c: "claim_seq L e = Inr (got, e1)"
      "case got of None \<Rightarrow> engine_ok kv {} e1 | Some q \<Rightarrow> engine_ok kv {q} e1"
      "live (eng_table e1) \<subseteq> live (eng_table e)"
      by auto
    have "k \<notin> live (eng_table e1)" using c(3) new by (auto simp: live_def)
    then have k1: "map_of (entries (eng_table e1)) k = None" by (simp add: live_def domIff)
    show ?thesis
    proof (cases got)
      case None
      with c new show ?thesis by (simp add: resolve_session_def st_find_def)
    next
      case (Some q)
      with c have "engine_ok kv {q} e1" by simp
      from add_session_ok [OF this k1, of L now] obtain e2 where
        "add_session L now k q e1 = Inr e2" "engine_ok kv {} e2" "k \<in> live (eng_table e2)" by blast
      with c(1) Some new show ?thesis by (simp add: resolve_session_def st_find_def)
    qed
  next
    case fall
    show ?thesis
    proof (cases "best_prefix prompt None 0 (entries (eng_table e))")
      case None
      with fall ok show ?thesis by (simp add: resolve_session_def st_find_by_prefix_def)
    next
      case (Some b)
      obtain x s where b: "b = (x, s)" by (cases b)
      then have "(x, s) \<in> set (entries (eng_table e))"
        using best_prefix_cases [of prompt None 0 "entries (eng_table e)"] Some by auto
      then have x: "map_of (entries (eng_table e)) x = Some s" "sid s = x"
        using t by (auto simp: table_ok_def keys_def intro!: map_of_is_SomeI)
      with fall Some b engine_touch [OF ok x(1), of now] show ?thesis
        by (simp add: resolve_session_def st_find_by_prefix_def live_def)
    qed
  next
    case none
    with ok show ?thesis by (simp add: resolve_session_def)
  qed
qed

lemma common_prefix_take:
  "take (common_prefix xs ys) xs = take (common_prefix xs ys) ys \<and>
   common_prefix xs ys \<le> length xs \<and> common_prefix xs ys \<le> length ys"
  by (induction xs ys rule: common_prefix.induct) auto

lemma common_prefix_longest:
  "prefix zs xs \<Longrightarrow> prefix zs ys \<Longrightarrow> length zs \<le> common_prefix xs ys"
proof (induction xs ys arbitrary: zs rule: common_prefix.induct)
  case (1 x xs y ys)
  then show ?case by (cases zs) auto
qed auto

text \<open>What is reused are the cells of the longest common prefix, and nothing else is left on the sequence.\<close>

lemma reuse_cells_ok:
  assumes L: "llama_ok L kv" and ok: "engine_ok kv {} e"
    and sess: "case sess of None \<Rightarrow> True | Some x \<Rightarrow> x \<in> live (eng_table e)"
    and run: "reuse_cells L sess prompt e = (q, n, e')"
  shows "engine_ok kv {} e' \<and> n \<le> length prompt \<and> kv (eng_ctx e') q = cells_of (take n prompt) \<and>
    (case sess of
       None \<Rightarrow> q = 0 \<and> n = 0
     | Some k \<Rightarrow> \<exists>s. map_of (entries (eng_table e')) k = Some s \<and> sseq s = q \<and> stoks s = take n prompt)"
proof (cases sess)
  case None
  with run have e': "e' = e\<lparr>eng_ctx := drop_cells L 0 (- 1) (eng_ctx e)\<rparr>" "q = 0" "n = 0"
    by (auto simp: reuse_cells_def)
  have kv: "kv (drop_cells L 0 (- 1) (eng_ctx e)) = (kv (eng_ctx e))(0 := Map.empty)"
    by (rule kv_drop_all [OF L])
  from None e' engine_stateless [OF ok kv] show ?thesis by (simp add: kv)
next
  case (Some k)
  with sess obtain s where s: "map_of (entries (eng_table e)) k = Some s" by (auto simp: live_iff)
  have kvs: "kv (eng_ctx e) (sseq s) = cells_of (stoks s)" using ok s by (simp add: engine_ok_def)
  define m where "m = common_prefix (stoks s) prompt"
  have m: "take m (stoks s) = take m prompt" "m \<le> length (stoks s)" "m \<le> length prompt"
    using common_prefix_take [of "stoks s" prompt] by (simp_all add: m_def)
  show ?thesis
  proof (cases "m < length (stoks s)")
    case False
    with run Some s have "e' = e" "q = sseq s" "n = m" by (simp_all add: reuse_cells_def m_def Let_def)
    moreover have "take n prompt = stoks s" using calculation False m by simp
    ultimately show ?thesis using ok s kvs Some m by simp
  next
    case True
    let ?c = "drop_cells L (sseq s) (int m) (eng_ctx e)"
    from True run Some s have e': "e' = set_tokens k (take m (stoks s)) (e\<lparr>eng_ctx := ?c\<rparr>)"
      "q = sseq s" "n = m" by (auto simp: reuse_cells_def m_def Let_def)
    have kv: "kv ?c = (kv (eng_ctx e))(sseq s := cells_of (take m (stoks s)))"
      unfolding kv_drop [OF L] kvs cells_of_take [OF m(2)] ..
    from engine_set_tokens [OF ok s kv] have "engine_ok kv {} e'" using e' by simp
    moreover have "eng_ctx e' = ?c" using e' s by (simp add: set_tokens_def)
    moreover have "map_of (entries (eng_table e')) k = Some (s\<lparr>stoks := take m (stoks s)\<rparr>)"
      using e' s by (simp add: set_tokens_def)
    ultimately show ?thesis using e' m kv Some by simp
  qed
qed

section \<open>Generation\<close>

lemma generate_length:
  "generate L q streaming stops n0 left c gen emitted = (c', gen', evs) \<Longrightarrow>
     prefix gen gen' \<and> length gen' \<le> length gen + left"
proof (induction L q streaming stops n0 left c gen emitted arbitrary: c' gen' evs rule: generate.induct)
  case (1 L q streaming stops n0 c gen emitted)
  then show ?case by simp
next
  case (2 L q streaming stops n0 left c gen emitted)
  obtain tok c1 where s: "lm_sample L c = (tok, c1)" by (cases "lm_sample L c")
  obtain rc c2 where d: "lm_decode L c1 [(tok, n0 + length gen, q, True)] = (rc, c2)" by fastforce
  define g where "g = gen @ [tok]"
  define full where "full = (if streaming \<or> stops \<noteq> None then detokenize L g else [])"
  obtain c3 g3 es where r: "generate L q streaming stops n0 left c2 g
      (if streaming then full else emitted) = (c3, g3, es)" by (metis prod_cases3)
  note step = generate_Suc [OF s d full_def [unfolded g_def] r [unfolded g_def], folded g_def]
  show ?case
  proof (cases "tok = lm_eos L \<or> rc \<noteq> 0 \<or> stop_hit stops full")
    case True
    then have "gen' = gen \<or> gen' = g" using "2.prems" unfolding step by (auto split: if_splits)
    then show ?thesis by (auto simp: g_def)
  next
    case False
    then have "gen' = g3" using "2.prems" unfolding step by simp
    moreover have "prefix g g3 \<and> length g3 \<le> length g + left"
      using False by (intro "2.IH" [OF s [symmetric] refl _ d [symmetric] refl _ g_def full_def _ refl r]) auto
    ultimately show ?thesis by (auto simp: g_def dest: append_prefixD)
  qed
qed

fun sent_text :: "stream_event list \<Rightarrow> string" where
  "sent_text [] = []"
| "sent_text (OnPrefill n # es) = sent_text es"
| "sent_text (OnToken t # es) = t @ sent_text es"

lemma sent_text_append [simp]: "sent_text (es @ fs) = sent_text es @ sent_text fs"
  by (induction es rule: sent_text.induct) auto

lemma emit_piece_text: "prefix emitted full \<Longrightarrow> emitted @ sent_text (emit_piece emitted full) = full"
  by (auto simp: emit_piece_def starts_with_prefix prefix_def)

text \<open>With a detokenizer that only ever appends, what is streamed is a prefix of the text, all of it without stops.\<close>

lemma generate_stream:
  "generate L q True stops n0 left c gen emitted = (c', gen', evs) \<Longrightarrow> emitted = detokenize L gen \<Longrightarrow>
   (\<And>ts t. prefix (detokenize L ts) (detokenize L (ts @ [t]))) \<Longrightarrow>
     prefix (emitted @ sent_text evs) (detokenize L gen') \<and>
     ((\<forall>t. \<not> stop_hit stops t) \<longrightarrow> emitted @ sent_text evs = detokenize L gen')"
proof (induction L q True stops n0 left c gen emitted arbitrary: c' gen' evs rule: generate.induct)
  case (1 L q stops n0 c gen emitted)
  then show ?case by simp
next
  case (2 L q stops n0 left c gen emitted)
  obtain tok c1 where s: "lm_sample L c = (tok, c1)" by (cases "lm_sample L c")
  obtain rc c2 where d: "lm_decode L c1 [(tok, n0 + length gen, q, True)] = (rc, c2)" by fastforce
  define g where "g = gen @ [tok]"
  define full where "full = (if True \<or> stops \<noteq> None then detokenize L g else [])"
  obtain c3 g3 es where r: "generate L q True stops n0 left c2 g
      (if True then full else emitted) = (c3, g3, es)" by (metis prod_cases3)
  note step = generate_Suc [OF s d full_def [unfolded g_def] r [unfolded g_def], folded g_def]
  have mono: "prefix emitted full" unfolding "2.prems"(2) full_def g_def using "2.prems"(3) by simp
  show ?case
  proof (cases "tok = lm_eos L \<or> rc \<noteq> 0 \<or> stop_hit stops full")
    case True
    then have "evs = [] \<and> (gen' = gen \<or> gen' = g \<and> stop_hit stops full)"
      using "2.prems"(1) unfolding step by (auto split: if_splits)
    then show ?thesis using mono "2.prems"(2) by (auto simp: full_def)
  next
    case False
    then have eq: "gen' = g3" "evs = emit_piece emitted full @ es"
      using "2.prems"(1) unfolding step by auto
    have "prefix (full @ sent_text es) (detokenize L g3) \<and>
        ((\<forall>t. \<not> stop_hit stops t) \<longrightarrow> full @ sent_text es = detokenize L g3)"
      using "2.hyps" [OF s [symmetric] refl _ d [symmetric] refl _ g_def full_def _ refl r _ "2.prems"(3)] False
      by (simp add: full_def)
    then show ?thesis using eq emit_piece_text [OF mono] by (metis append.assoc sent_text_append)
  qed
qed

text \<open>The check against the window, on the unsigned 32-bit sum.\<close>

lemma over_budget_iff:
  assumes "n < 2 ^ 31" and "- (2 ^ 31) \<le> m" and "m < 2 ^ 31" and "0 \<le> int n + m"
  shows "over_budget L n m \<longleftrightarrow> int (unat (lm_n_ctx L)) \<le> int n + m"
proof -
  have eq: "word_of_nat n + word_of_int m = (word_of_int (int n + m) :: u32)" by simp
  have u: "uint (word_of_int (int n + m) :: u32) = int n + m"
    unfolding uint_word_of_int using assms by (simp add: take_bit_int_eq_self)
  show ?thesis unfolding over_budget_def eq word_le_def u by simp
qed

lemma sint_small: "unat (w :: u32) < 2 ^ 31 \<Longrightarrow> sint w = int (unat w)"
proof -
  assume "unat w < 2 ^ 31"
  then have "int (unat w) < int (2 ^ 31)" by (simp only: of_nat_less_iff)
  moreover have u: "uint w = int (unat w)" by simp
  ultimately have "uint w < 2 ^ 31" unfolding u by (simp only: of_nat_power of_nat_numeral)
  moreover have "0 \<le> uint w" by simp
  ultimately have "- (2 ^ 31) \<le> uint w \<and> uint w < 2 ^ 31" by linarith
  then have "sint w = uint w" unfolding sint_uint by (intro signed_take_bit_int_eq_self) simp_all
  with u show ?thesis by simp
qed

lemma run_prompt_ok:
  assumes L: "llama_ok L kv" and ok: "engine_ok kv {} e"
    and n: "n \<le> length prompt" "kv (eng_ctx e) q = cells_of (take n prompt)"
    and b: "length prompt \<le> lm_n_batch L" "0 < lm_n_batch L"
    and sess: "case sess of None \<Rightarrow> q = 0 \<and> n = 0
       | Some k \<Rightarrow> \<exists>s. map_of (entries (eng_table e)) k = Some s \<and> sseq s = q \<and> stoks s = take n prompt"
  shows "\<exists>r e'. run_prompt L sess q n prompt mt streaming stops e = Inr (r, e') \<and> engine_ok kv {} e' \<and>
    stat_completion r \<le> nat mt \<and> stat_prompt r = int (length prompt)"
proof -
  define chunk where "chunk = min (max (length prompt - n) 1) (lm_n_batch L)"
  have chunk: "chunk \<noteq> 0" "length (drop n prompt) \<le> chunk" using b n by (auto simp: chunk_def)
  obtain okp c where p: "prefill L q chunk n (drop n prompt) (eng_ctx e) = Inr (okp, c)"
    using prefill_total [OF chunk(1), of L q n "drop n prompt" "eng_ctx e"] by blast
  show ?thesis
  proof (cases okp)
    case False
    with p have "kv c = kv (eng_ctx e)" by (intro prefill_one_chunk_fails [OF L chunk(2)]) simp
    then have "engine_ok kv {} (e\<lparr>eng_ctx := c\<rparr>)" using ok by (simp add: engine_ok_def)
    with p [unfolded chunk_def] False show ?thesis by (simp add: run_prompt_def no_text_def)
  next
    case True
    have kc: "kv c = (kv (eng_ctx e))(q := cells_of prompt)"
      using prefill_cells [of L q chunk n "drop n prompt" "eng_ctx e" c kv "take n prompt"] p True n L by simp
    obtain c' gen evs where g: "generate L q streaming stops (length prompt) (nat mt) c [] [] = (c', gen, evs)"
      by (metis prod_cases3)
    have kc': "kv c' = (kv (eng_ctx e))(q := cells_of (prompt @ gen))"
      using generate_cells [OF g _ L] kc by simp
    have "engine_ok kv {} (case sess of None \<Rightarrow> e\<lparr>eng_ctx := c'\<rparr> | Some k \<Rightarrow> set_tokens k (prompt @ gen) (e\<lparr>eng_ctx := c'\<rparr>))"
    proof (cases sess)
      case None
      with sess kc' engine_stateless [OF ok] show ?thesis by auto
    next
      case (Some k)
      with sess obtain s where s: "map_of (entries (eng_table e)) k = Some s" "sseq s = q" by auto
      with engine_set_tokens [OF ok s(1), of c' "prompt @ gen"] kc' Some show ?thesis by simp
    qed
    with p [unfolded chunk_def] True g generate_length [OF g] show ?thesis
      by (simp add: run_prompt_def Let_def)
  qed
qed

text \<open>The engine load_model() sets up, and a small instance of the interface.\<close>

definition engine_init :: "'c \<Rightarrow> nat \<Rightarrow> 'c engine" where
  "engine_init c n_seq =
     (let a = seq_allocator_init n_seq
      in \<lparr>eng_ctx = c, eng_alloc = a, eng_table = session_table_init (seq_capacity a)\<rparr>)"

lemma engine_ok_init:
  "2 \<le> n \<Longrightarrow> kv c = (\<lambda>_. Map.empty) \<Longrightarrow> engine_ok kv {} (engine_init c n)"
  by (simp add: engine_ok_def engine_init_def Let_def alloc_ok_init table_ok_init live_def)
     (simp add: session_table_init_def)

definition toy_llama :: "u32 \<Rightarrow> nat \<Rightarrow> nat \<Rightarrow> (seq_id \<Rightarrow> cells) llama" where
  "toy_llama n_ctx n_batch room =
     \<lparr>lm_tokenize = (\<lambda>s n. (int (length s), map of_char s)),
      lm_detokenize = (\<lambda>ts n. (int (length ts), map (\<lambda>t. CHR ''x'') ts)),
      lm_has_memory = True,
      lm_seq_rm = (\<lambda>c q p p'. c(q := (\<lambda>i. if int i < p then c q i else None))),
      lm_decode = (\<lambda>c b. if list_ex (\<lambda>(t, p, q, l). room \<le> p) b then (1, c) else (0, feed c b)),
      lm_sample = (\<lambda>c. (7, c)),
      lm_n_ctx = n_ctx, lm_n_batch = n_batch, lm_eos = 0\<rparr>"

lemma toy_llama_ok: "llama_ok (toy_llama n m r) (\<lambda>c. c)"
  by (simp add: llama_ok_def toy_llama_def)

definition demo_engine :: "(seq_id \<Rightarrow> cells) engine" where
  "demo_engine =
     \<lparr>eng_ctx = (\<lambda>_. Map.empty)(1 := cells_of [97, 98]),
      eng_alloc = \<lparr>max_seqs = 2, next_seq = 0, in_use = [False, True]\<rparr>,
      eng_table = \<lparr>max_sessions = 1,
        entries = [(''s'', \<lparr>sid = ''s'', sseq = 1, stoks = [97, 98], last_used = 0\<rparr>)]\<rparr>\<rparr>"

lemma nat_less_two: "0 < i \<Longrightarrow> nat i < 2 \<Longrightarrow> i = 1"
  by linarith

lemma demo_engine_ok: "engine_ok (\<lambda>c. c) {} demo_engine"
proof -
  have "used_ids (eng_alloc demo_engine) = {1}"
    by (auto simp: demo_engine_def used_ids_def dest: nat_less_two)
  then show ?thesis
    by (auto simp: engine_ok_def demo_engine_def alloc_ok_def table_ok_def seq_capacity_def seq_of_def live_def
        split: if_splits)
qed

section \<open>Properties of a completion\<close>

lemma complete_stream_ok:
  assumes L: "llama_ok L kv" and ok: "engine_ok kv {} e"
    and ctx: "unat (lm_n_ctx L) \<le> lm_n_batch L" "unat (lm_n_ctx L) < 2 ^ 31"
    and mt: "0 \<le> mt" "mt < 2 ^ 31"
    and toks: "case tokenize_prompt L prompt of None \<Rightarrow> True | Some ts \<Rightarrow> length ts < 2 ^ 31"
  shows "\<exists>r e'. complete_stream L now prompt mt k fallback streaming stops e = Inr (r, e') \<and>
    engine_ok kv {} e' \<and>
    (stat_completion r = 0 \<or> stat_prompt r + int (stat_completion r) < int (unat (lm_n_ctx L)))"
proof (cases "tokenize_prompt L prompt")
  case None
  with ok show ?thesis by (simp add: complete_stream_def no_text_def)
next
  case (Some ts)
  with toks have len: "length ts < 2 ^ 31" by simp
  obtain sess e1 where r: "resolve_session L now k fallback ts e = Inr (sess, e1)"
    "engine_ok kv {} e1" "case sess of None \<Rightarrow> True | Some x \<Rightarrow> x \<in> live (eng_table e1)"
    using resolve_session_ok [OF L ok] by blast
  obtain q n e2 where u: "reuse_cells L sess ts e1 = (q, n, e2)" by (metis prod_cases3)
  note reuse = reuse_cells_ok [OF L r(2,3) u]
  define b where "b = token_budget L (length ts) mt"
  have mem: "lm_has_memory L" using L by (simp add: llama_ok_def)
  have run: "complete_stream L now prompt mt k fallback streaming stops e =
      (if over_budget L (length ts) mt \<and> b \<le> 0
       then Inr (no_text (int (length ts)), (case sess of None \<Rightarrow> e2
              | Some x \<Rightarrow> set_tokens x [] (e2\<lparr>eng_ctx := drop_cells L q (- 1) (eng_ctx e2)\<rparr>)))
       else run_prompt L sess q n ts b streaming stops e2)"
    using Some r(1) u mem by (cases sess) (simp_all add: complete_stream_def b_def Let_def)
  have over: "over_budget L (length ts) mt \<longleftrightarrow> int (unat (lm_n_ctx L)) \<le> int (length ts) + mt"
    using len mt by (intro over_budget_iff) auto
  show ?thesis
  proof (cases "over_budget L (length ts) mt \<and> b \<le> 0")
    case True
    have "engine_ok kv {} (case sess of None \<Rightarrow> e2
        | Some x \<Rightarrow> set_tokens x [] (e2\<lparr>eng_ctx := drop_cells L q (- 1) (eng_ctx e2)\<rparr>))"
    proof (cases sess)
      case (Some x)
      with reuse obtain s where s: "map_of (entries (eng_table e2)) x = Some s" "sseq s = q" by auto
      then show ?thesis
        using reuse Some engine_set_tokens [OF _ s(1), of kv "{}" "drop_cells L q (- 1) (eng_ctx e2)" "[]"]
          kv_drop_all [OF L] by simp
    qed (use reuse in simp)
    then show ?thesis unfolding run using True by (simp add: no_text_def)
  next
    case False
    have small: "int (length ts) + max b 0 < int (unat (lm_n_ctx L))"
      using False over mt(1) sint_small [OF ctx(2)]
      by (auto simp: b_def token_budget_def max_def split: if_splits)
    then have "length ts < unat (lm_n_ctx L)" by linarith
    then have batch: "length ts \<le> lm_n_batch L" "0 < lm_n_batch L" using ctx(1) by linarith+
    obtain r e' where "run_prompt L sess q n ts b streaming stops e2 = Inr (r, e')" "engine_ok kv {} e'"
      "stat_completion r \<le> nat b" "stat_prompt r = int (length ts)"
      using run_prompt_ok [of L kv e2 n ts q sess b streaming stops] L reuse batch by auto
    then show ?thesis unfolding run using False small by auto
  qed
qed

lemma demo_completes:
  "\<exists>r e'. complete_stream (toy_llama 16 16 16) 1 ''abc'' 4 ''s'' True b stops demo_engine = Inr (r, e')"
  using complete_stream_ok [OF toy_llama_ok demo_engine_ok, where n1 = 16 and m1 = 16 and r1 = 16 and mt = 4
      and prompt = "''abc''" and now = 1 and k = "''s''" and fallback = True and streaming = b and stops = stops]
  by (auto simp: toy_llama_def tokenize_prompt_def vec_resize_def)





lemma complete_stream_text:
  assumes "\<forall>ts t. prefix (detokenize L ts) (detokenize L (ts @ [t]))"
    and "complete_stream L now prompt mt k fallback True stops e = Inr (r, e')"
  shows "prefix (sent_text (out_events r)) (out_text r) \<and>
    (stops = None \<or> stops = Some [] \<longrightarrow> sent_text (out_events r) = out_text r)"
proof -
  have run: "prefix (sent_text (out_events r)) (out_text r) \<and>
      (stops = None \<or> stops = Some [] \<longrightarrow> sent_text (out_events r) = out_text r)"
    if "run_prompt L sess q n ts b True stops e2 = Inr (r, e')" for sess q n ts b e2
  proof -
    from that obtain okp c where p: "prefill L q (min (max (length ts - n) 1) (lm_n_batch L)) n (drop n ts) (eng_ctx e2)
        = Inr (okp, c)"
      by (auto simp: run_prompt_def Let_def and_then_Inr)
    obtain c' gen evs where g: "generate L q True stops (length ts) (nat b) c [] [] = (c', gen, evs)"
      by (metis prod_cases3)
    have "\<forall>t. \<not> stop_hit stops t" if "stops = None \<or> stops = Some []"
      using that by (auto simp: stop_hit_def)
    moreover have "[] = detokenize L []" by (simp add: detokenize_def)
    from generate_stream [OF g this] have "prefix (sent_text evs) (detokenize L gen) \<and>
        ((\<forall>t. \<not> stop_hit stops t) \<longrightarrow> sent_text evs = detokenize L gen)"
      using assms(1) by simp
    ultimately show ?thesis using that p g
      by (auto simp: run_prompt_def Let_def no_text_def split: if_splits)
  qed
  show ?thesis
  proof (cases "tokenize_prompt L prompt")
    case None
    with assms(2) show ?thesis by (auto simp: complete_stream_def no_text_def)
  next
    case (Some ts)
    with assms(2) obtain sess e1 where res: "resolve_session L now k fallback ts e = Inr (sess, e1)"
      by (auto simp: complete_stream_def and_then_Inr)
    obtain q n e2 where "reuse_cells L sess ts e1 = (q, n, e2)" by (metis prod_cases3)
    with assms(2) Some res have "r = no_text (int (length ts)) \<or>
        run_prompt L sess q n ts (token_budget L (length ts) mt) True stops e2 = Inr (r, e')"
      by (simp add: complete_stream_def Let_def split: if_splits)
    then show ?thesis using run by (auto simp: no_text_def)
  qed
qed

lemma stream_is_output_whole:
  "\<forall>ts t. prefix (detokenize L ts) (detokenize L (ts @ [t])) \<Longrightarrow>
   complete_stream L now prompt mt k fallback True stops e = Inr (r, e') \<Longrightarrow>
   stops = None \<or> stops = Some [] \<Longrightarrow> sent_text (out_events r) = out_text r"
  using complete_stream_text by blast

text \<open>
  What a streaming client is sent, piece by piece, is a prefix of the text the request
  returns, and all of it when there are no stop sequences - for a detokenizer that only ever
  appends to the text of a longer token list.
\<close>

theorem stream_is_output:
  assumes "\<forall>ts t. prefix (detokenize L ts) (detokenize L (ts @ [t]))"
    and "complete_stream L now prompt mt k fallback True stops e = Inr (r, e')"
  shows "prefix (sent_text (out_events r)) (out_text r) \<and>
    (stops = None \<or> stops = Some [] \<longrightarrow> sent_text (out_events r) = out_text r)"
  by (rule complete_stream_text [OF assms])

theorem stream_is_output_witness:
  "\<exists>r e'. complete_stream (toy_llama 16 16 16) 1 ''abc'' 4 ''s'' True True None demo_engine = Inr (r, e') \<and>
    sent_text (out_events r) = out_text r"
proof -
  have "prefix (detokenize (toy_llama 16 16 16) ts) (detokenize (toy_llama 16 16 16) (ts @ [t]))" for ts t
    by (simp add: detokenize_def toy_llama_def)
  moreover obtain r e' where "complete_stream (toy_llama 16 16 16) 1 ''abc'' 4 ''s'' True True None demo_engine = Inr (r, e')"
    using demo_completes by blast
  ultimately show ?thesis using stream_is_output by blast
qed

text \<open>
  When all sequence ids are held and the least recently used session happens to hold the
  one granted last, making room does not work: the session is evicted, its id is free, and the
  second take() still reports that none is; the request runs without a session.
\<close>

theorem evicting_last_granted_fails:
  assumes ok: "engine_ok kv {} e" and full: "free_ids (eng_alloc e) = {}"
    and v: "lru_victim (eng_table e) = Some v" and last: "sseq (snd v) = int (skipped_slot (eng_alloc e))"
  shows "\<exists>e'. claim_seq L e = Inr (None, e') \<and> free_ids (eng_alloc e') = {sseq (snd v)} \<and>
    map_of (entries (eng_table e')) (fst v) = None"
proof -
  let ?a = "eng_alloc e" and ?q = "sseq (snd v)"
  have a: "alloc_ok ?a" using ok by (simp add: engine_ok_def)
  have take1: "seq_take ?a = Inr (None, ?a)" using seq_take_none_iff [OF a] full by simp
  have "map_of (entries (eng_table e)) (fst v) = Some (snd v)"
    using ok lru_victim_Some(1) [OF v] by (intro map_of_is_SomeI) (auto simp: engine_ok_def table_ok_def keys_def)
  then have "?q \<in> seq_of (eng_table e) ` live (eng_table e)"
    by (intro image_eqI [where x = "fst v"]) (simp_all add: seq_of_def live_iff)
  then have "?q \<in> used_ids ?a" using ok by (simp add: engine_ok_def)
  then have q: "0 < ?q" "nat ?q < max_seqs ?a" "in_use ?a ! nat ?q" by (simp_all add: used_ids_def)
  define freed where "freed = ?a\<lparr>in_use := (in_use ?a)[nat ?q := False]\<rparr>"
  have gb: "seq_give_back ?a ?q = Inr freed" using a q by (simp add: seq_give_back_def alloc_ok_def freed_def)
  have freed_ok: "alloc_ok freed" using seq_give_back_ok [OF a, of ?q] gb by simp
  have len: "length (in_use ?a) = max_seqs ?a" using a by (simp add: alloc_ok_def)
  have free: "free_ids freed = {?q}"
  proof
    show "free_ids freed \<subseteq> {?q}"
    proof
      fix i assume i: "i \<in> free_ids freed"
      show "i \<in> {?q}"
      proof (rule ccontr)
        assume "i \<notin> {?q}"
        with i q(1) have "nat i \<noteq> nat ?q" by (auto simp: free_ids_def)
        with i have "i \<in> free_ids ?a" by (simp add: free_ids_def freed_def)
        with full show False by simp
      qed
    qed
    show "{?q} \<subseteq> free_ids freed" using q len by (simp add: free_ids_def freed_def)
  qed
  have "skipped_slot freed = skipped_slot ?a" by (simp add: skipped_slot_def freed_def)
  with free last have "seq_take freed = Inr (None, freed)" using seq_take_none_iff [OF freed_ok] by simp
  with take1 gb v free show ?thesis
    by (simp add: claim_seq_def st_evict_lru_def map_of_drop_key)
qed

theorem evicting_last_granted_fails_witness:
  "\<exists>e'. claim_seq (toy_llama 16 16 16) demo_engine = Inr (None, e') \<and> free_ids (eng_alloc e') = {1}"
proof -
  have "free_ids (eng_alloc demo_engine) = {}"
    by (auto simp: demo_engine_def free_ids_def dest: nat_less_two)
  moreover have v: "lru_victim (eng_table demo_engine) =
      Some (''s'', \<lparr>sid = ''s'', sseq = 1, stoks = [97, 98], last_used = 0\<rparr>)"
    by (simp add: demo_engine_def lru_victim_def)
  ultimately show ?thesis
    using evicting_last_granted_fails [OF demo_engine_ok _ v, of "toy_llama 16 16 16"]
    by (auto simp: demo_engine_def skipped_slot_def)
qed

text \<open>
  A prefill that fails after its first chunk returns without undoing it: the session's
  history still ends where the reused cells did, its sequence holds the cells of the chunk as
  well, and the engine is no longer coherent.
\<close>

theorem partial_prefill_breaks_cache:
  assumes L: "llama_ok L kv" and ok: "engine_ok kv {} e"
    and s: "map_of (entries (eng_table e)) k = Some s" "stoks s = take n prompt"
    and len: "0 < lm_n_batch L" "n + lm_n_batch L < length prompt"
    and first: "lm_decode L (eng_ctx e)
        (batch_of (sseq s) n False (take (lm_n_batch L) (drop n prompt))) = (0, c1)"
    and second: "lm_decode L c1
        (batch_of (sseq s) (n + lm_n_batch L) (length prompt \<le> n + 2 * lm_n_batch L)
          (take (lm_n_batch L) (drop (n + lm_n_batch L) prompt))) = (rc, c2)" "rc \<noteq> 0"
  shows "\<exists>e'. run_prompt L (Some k) (sseq s) n prompt mt streaming stops e =
      Inr (no_text (int (length prompt)), e') \<and>
    map_of (entries (eng_table e')) k = Some s \<and>
    kv (eng_ctx e') (sseq s) = cells_of (take (n + lm_n_batch L) prompt) \<and>
    \<not> engine_ok kv {} e'"
proof -
  let ?B = "lm_n_batch L" and ?q = "sseq s"
  have chunk: "min (max (length prompt - n) 1) ?B = ?B" using len by simp
  have f: "(length (drop n prompt) \<le> ?B) = False" "min ?B (length (drop n prompt)) = ?B"
    using len by auto
  have g: "(length (drop (n + ?B) prompt) \<le> ?B) = (length prompt \<le> n + 2 * ?B)"
    "drop ?B (drop n prompt) = drop (n + ?B) prompt"
    using len by (auto simp: add.commute)
  have "prefill L ?q ?B n (drop n prompt) (eng_ctx e) = prefill L ?q ?B (n + ?B) (drop (n + ?B) prompt) c1"
    unfolding prefill.simps [of L ?q ?B n "drop n prompt"] f g(2) first Let_def using len by simp
  also have "\<dots> = Inr (False, c2)"
    unfolding prefill.simps [of L ?q ?B "n + ?B"] g(1) second(1) Let_def using second(2) len by simp
  finally have p: "prefill L ?q ?B n (drop n prompt) (eng_ctx e) = Inr (False, c2)" .
  have kv0: "kv (eng_ctx e) ?q = cells_of (take n prompt)" using ok s by (simp add: engine_ok_def)
  have n: "length (take n prompt) = n" using len by simp
  have "kv c1 = feed (kv (eng_ctx e)) (batch_of ?q (length (take n prompt)) False (take ?B (drop n prompt)))"
    using kv_decode [OF L first] n by simp
  also have "\<dots> = (kv (eng_ctx e))(?q := cells_of (take n prompt @ take ?B (drop n prompt)))"
    using kv0 by (rule feed_batch_of)
  finally have "kv c1 ?q = cells_of (take (n + ?B) prompt)" by (simp add: take_add)
  then have kv2: "kv c2 ?q = cells_of (take (n + ?B) prompt)" using kv_decode [OF L second(1)] second(2) by simp
  have "cells_of (take (n + ?B) prompt) n \<noteq> cells_of (take n prompt) n" using len by (simp add: cells_of_def)
  then have "\<not> engine_ok kv {} (e\<lparr>eng_ctx := c2\<rparr>)" using kv2 s by (auto simp: engine_ok_def)
  with p chunk s kv2 show ?thesis by (simp add: run_prompt_def)
qed

theorem partial_prefill_breaks_cache_witness:
  "\<exists>e'. run_prompt (toy_llama 16 2 4) (Some ''s'') 1 2 [97, 98, 1, 2, 3, 4] 4 False None demo_engine =
      Inr (no_text 6, e') \<and> \<not> engine_ok (\<lambda>c. c) {} e'"
proof -
  have "map_of (entries (eng_table demo_engine)) ''s'' = Some \<lparr>sid = ''s'', sseq = 1, stoks = [97, 98], last_used = 0\<rparr>"
    by (simp add: demo_engine_def)
  from partial_prefill_breaks_cache [OF toy_llama_ok demo_engine_ok this, of 2 "[97, 98, 1, 2, 3, 4]" 16 2 4
      "feed (eng_ctx demo_engine) [(1, 2, 1, False), (2, 3, 1, False)]" 1 _ 4 False None]
  have "\<exists>e'. run_prompt (toy_llama 16 2 4) (Some ''s'') 1 2 [97, 98, 1, 2, 3, 4] 4 False None demo_engine =
      Inr (no_text 6, e') \<and> map_of (entries (eng_table e')) ''s'' =
        Some \<lparr>sid = ''s'', sseq = 1, stoks = [97, 98], last_used = 0\<rparr> \<and>
      eng_ctx e' 1 = cells_of [97, 98, 1, 2] \<and> \<not> engine_ok (\<lambda>c. c) {} e'"
    by (simp add: toy_llama_def)
  then show ?thesis by blast
qed

text \<open>
  The check against the context window is exact for the signed sum, so a negative
  max_tokens lets longer prompts through: one of n tokens is prefilled as long as n is below the
  window plus the amount max_tokens is negative by.
\<close>

theorem negative_budget_widens_window:
  assumes "n < 2 ^ 31" and "0 < m" and "m \<le> int n"
  shows "over_budget L n (- m) \<longleftrightarrow> int (unat (lm_n_ctx L)) + m \<le> int n"
  using assms over_budget_iff [of n "- m" L] by auto

theorem negative_budget_widens_window_witness:
  "\<not> over_budget (toy_llama 4096 512 4096) 5000 (- 1000)"
  using negative_budget_widens_window [of 5000 1000 "toy_llama 4096 512 4096"]
  by (simp add: toy_llama_def)

end
