(* ===== verification/Json.thy ===== *)
theory Json
  imports Prelude "HOL-Library.Countable"
begin

text \<open>
  The interface of nlohmann::json the sources use. The library is not part of them: the record
  \<open>json_api\<close> holds the accesses (one that throws is a value of the sum type), \<open>json_build\<close> adds
  the construction and printing of values, and \<open>json_ok\<close> states the documented behaviour that
  the code relies on when it reads back what it wrote. Objects are built with distinct keys.
\<close>

record 'j json_api =
  j_parse :: "string \<Rightarrow> 'j or_throw"
  j_is_object :: "'j \<Rightarrow> bool"
  j_is_array :: "'j \<Rightarrow> bool"
  j_is_string :: "'j \<Rightarrow> bool"
  j_items :: "'j \<Rightarrow> 'j list"
  j_get :: "'j \<Rightarrow> string \<Rightarrow> 'j option"
  j_text :: "'j \<Rightarrow> string"
  j_value :: "'j \<Rightarrow> string \<Rightarrow> 'j \<Rightarrow> 'j or_throw"
  j_value_str :: "'j \<Rightarrow> string \<Rightarrow> string \<Rightarrow> string or_throw"
  j_value_int :: "'j \<Rightarrow> string \<Rightarrow> int \<Rightarrow> int or_throw"
  j_value_bool :: "'j \<Rightarrow> string \<Rightarrow> bool \<Rightarrow> bool or_throw"
  j_null :: 'j
  j_empty_object :: 'j
  j_dump :: "'j \<Rightarrow> string"

record 'j json_build = "'j json_api" +
  j_of_str :: "string \<Rightarrow> 'j"
  j_of_int :: "int \<Rightarrow> 'j"
  j_of_bool :: "bool \<Rightarrow> 'j"
  j_of_arr :: "'j list \<Rightarrow> 'j"
  j_of_obj :: "(string \<times> 'j) list \<Rightarrow> 'j"
  j_pretty :: "'j \<Rightarrow> string or_throw"

text \<open>
  Accesses to values that were built: members by key, items in order, texts; a value that could be
  printed is read back.
\<close>

definition json_ok :: "('j, 'more) json_build_scheme \<Rightarrow> bool" where
  "json_ok J \<longleftrightarrow>
     (\<forall>kvs k d. distinct (map fst kvs) \<longrightarrow>
        j_value J (j_of_obj J kvs) k d = Inr (case map_of kvs k of Some v \<Rightarrow> v | None \<Rightarrow> d)) \<and>
     (\<forall>kvs k d s. distinct (map fst kvs) \<longrightarrow> map_of kvs k = Some (j_of_str J s) \<longrightarrow>
        j_value_str J (j_of_obj J kvs) k d = Inr s) \<and>
     (\<forall>kvs k d i. distinct (map fst kvs) \<longrightarrow> map_of kvs k = Some (j_of_int J i) \<longrightarrow>
        j_value_int J (j_of_obj J kvs) k d = Inr i) \<and>
     (\<forall>kvs k d b. distinct (map fst kvs) \<longrightarrow> map_of kvs k = Some (j_of_bool J b) \<longrightarrow>
        j_value_bool J (j_of_obj J kvs) k d = Inr b) \<and>
     (\<forall>js. j_is_array J (j_of_arr J js) \<and> j_items J (j_of_arr J js) = js) \<and>
     (\<forall>s. j_is_string J (j_of_str J s) \<and> j_text J (j_of_str J s) = s) \<and>
     (\<forall>j s. j_pretty J j = Inr s \<longrightarrow> j_parse J (s @ [nl]) = Inr j)"

lemma json_okD:
  assumes "json_ok J"
  shows "distinct (map fst kvs) \<Longrightarrow>
      j_value J (j_of_obj J kvs) k d = Inr (case map_of kvs k of Some v \<Rightarrow> v | None \<Rightarrow> d)"
    and "distinct (map fst kvs) \<Longrightarrow> map_of kvs k = Some (j_of_str J s) \<Longrightarrow>
      j_value_str J (j_of_obj J kvs) k d' = Inr s"
    and "j_is_array J (j_of_arr J js)" "j_items J (j_of_arr J js) = js"
    and "j_is_string J (j_of_str J s)" "j_text J (j_of_str J s) = s"
    and "j_pretty J j = Inr s \<Longrightarrow> j_parse J (s @ [nl]) = Inr j"
    and "distinct (map fst kvs) \<Longrightarrow> map_of kvs k = Some (j_of_int J i) \<Longrightarrow>
      j_value_int J (j_of_obj J kvs) k di = Inr i"
    and "distinct (map fst kvs) \<Longrightarrow> map_of kvs k = Some (j_of_bool J b) \<Longrightarrow>
      j_value_bool J (j_of_obj J kvs) k db = Inr b"
  using assms unfolding json_ok_def by blast+

text \<open>The value at an index of an array and its text, as get<std::string>() takes it.\<close>

definition get_str :: "('j, 'more) json_api_scheme \<Rightarrow> 'j \<Rightarrow> string or_throw" where
  "get_str J v = (if j_is_string J v then Inr (j_text J v) else Inl ''type must be string'')"

section \<open>An instance\<close>

text \<open>
  Strings, numbers, truth values, arrays and objects, printed as their number in an enumeration: an instance that has the
  documented behaviour.
\<close>

datatype tree = TStr string | TInt int | TBool bool | TArr "tree list" | TObj "(string \<times> tree) list"

instance tree :: countable
  by countable_datatype

fun tree_str :: "tree \<Rightarrow> string or_throw" where
  "tree_str (TStr s) = Inr s"
| "tree_str _ = Inl ''type must be string''"

fun tree_get :: "tree \<Rightarrow> string \<Rightarrow> tree option" where
  "tree_get (TObj kvs) k = map_of kvs k"
| "tree_get _ k = None"

fun tree_items :: "tree \<Rightarrow> tree list" where
  "tree_items (TArr ts) = ts"
| "tree_items (TObj kvs) = map snd kvs"
| "tree_items t = [t]"

definition tree_json :: "tree json_build" where
  "tree_json =
     \<lparr>j_parse = (\<lambda>s. Inr (from_nat (digits_val (takeWhile is_digit s)))),
      j_is_object = (\<lambda>t. case t of TObj _ \<Rightarrow> True | _ \<Rightarrow> False),
      j_is_array = (\<lambda>t. case t of TArr _ \<Rightarrow> True | _ \<Rightarrow> False),
      j_is_string = (\<lambda>t. case t of TStr _ \<Rightarrow> True | _ \<Rightarrow> False),
      j_items = tree_items, j_get = tree_get,
      j_text = (\<lambda>t. case t of TStr s \<Rightarrow> s | _ \<Rightarrow> []),
      j_value = (\<lambda>t k d. case t of
         TObj kvs \<Rightarrow> Inr (case map_of kvs k of Some v \<Rightarrow> v | None \<Rightarrow> d) | _ \<Rightarrow> Inl ''type must be object''),
      j_value_str = (\<lambda>t k d. case t of
         TObj kvs \<Rightarrow> (case map_of kvs k of Some v \<Rightarrow> tree_str v | None \<Rightarrow> Inr d) | _ \<Rightarrow> Inl ''type must be object''),
      j_value_int = (\<lambda>t k d. case tree_get t k of Some (TInt i) \<Rightarrow> Inr i | _ \<Rightarrow> Inr d),
      j_value_bool = (\<lambda>t k d. case tree_get t k of Some (TBool b) \<Rightarrow> Inr b | _ \<Rightarrow> Inr d),
      j_null = TArr [], j_empty_object = TObj [], j_dump = (\<lambda>t. digits_of (to_nat t)),
      j_of_str = TStr, j_of_int = TInt, j_of_bool = TBool, j_of_arr = TArr, j_of_obj = TObj, j_pretty = (\<lambda>t. Inr (digits_of (to_nat t)))\<rparr>"

lemma takeWhile_digits_nl: "takeWhile is_digit (digits_of n @ [nl]) = digits_of n"
  using digits_of_digits by (subst takeWhile_append2) (auto simp: is_digit_def)

lemma tree_json_ok: "json_ok tree_json"
  unfolding json_ok_def tree_json_def by (auto simp: takeWhile_digits_nl)

lemma tree_parse_dump: "j_parse tree_json (j_dump tree_json t) = Inr t"
  using takeWhile_digits_of [of "to_nat t"] by (simp add: tree_json_def)

end
