(* ===== verification/Chat.thy ===== *)
theory Chat
  imports Completion Json
begin

text \<open>
  The HTTP side of inference/server.cpp: the conversion of both wire protocols into the common
  chat model, the stop sequences, the three POST handlers and the two event streams.

  nlohmann::json, the template engine and the generation parser are not part of the sources:
  they are the records \<open>json_api\<close> (theory Json) and \<open>chat_api\<close>. A JSON access that throws is a value of the
  sum type; an exception that leaves a handler is the reply \<open>Thrown\<close>. The callbacks of a
  stream do not change the completion, so they run over its events.
\<close>

section \<open>Values of the libraries\<close>

record tool_call =
  call_id :: string
  call_name :: string
  call_args :: string

record chat_tool =
  tool_name :: string
  tool_description :: string
  tool_parameters :: string

record chat_msg =
  msg_role :: string
  msg_content :: string
  msg_calls :: "tool_call list"
  msg_call_id :: string
  msg_tool :: string

record chat_params =
  cp_prompt :: string
  cp_content_only :: bool
  cp_stops :: "string list"

record msg_diff =
  d_content :: string
  d_call :: "(nat \<times> tool_call) option"

record chat_api =
  chat_apply :: "chat_msg list \<Rightarrow> chat_tool list option \<Rightarrow> chat_params or_throw"
  chat_parse :: "string \<Rightarrow> chat_params \<Rightarrow> bool \<Rightarrow> chat_msg or_throw"
  chat_diffs :: "chat_msg \<Rightarrow> chat_msg \<Rightarrow> msg_diff list or_throw"

definition empty_msg :: chat_msg where
  "empty_msg = \<lparr>msg_role = [], msg_content = [], msg_calls = [], msg_call_id = [], msg_tool = []\<rparr>"

section \<open>Wire formats to the common model\<close>

fun to_common_tools :: "'j json_api \<Rightarrow> bool \<Rightarrow> 'j list \<Rightarrow> chat_tool list or_throw" where
  "to_common_tools J anthropic [] = Inr []"
| "to_common_tools J anthropic (t # ts) =
     (if \<not> j_is_object J t then to_common_tools J anthropic ts
      else let fn = (if anthropic then t else case j_get J t ''function'' of Some f \<Rightarrow> f | None \<Rightarrow> t);
               key = (if anthropic then ''input_schema'' else ''parameters'')
           in and_then (j_value_str J fn ''name'' []) (\<lambda>name.
              and_then (j_value_str J fn ''description'' []) (\<lambda>description.
              and_then (to_common_tools J anthropic ts) (\<lambda>rest.
                let ct = \<lparr>tool_name = name, tool_description = description,
                          tool_parameters = (case j_get J fn key of Some p \<Rightarrow> j_dump J p | None \<Rightarrow> [])\<rparr>
                in Inr (if name \<noteq> [] then ct # rest else rest)))))"

definition content_str :: "'j json_api \<Rightarrow> 'j \<Rightarrow> string" where
  "content_str J m =
     (case j_get J m ''content'' of
        Some c \<Rightarrow> if j_is_string J c then j_text J c else []
      | None \<Rightarrow> [])"

definition openai_call :: "'j json_api \<Rightarrow> 'j \<Rightarrow> tool_call or_throw" where
  "openai_call J tc =
     and_then (j_value J tc ''function'' (j_empty_object J)) (\<lambda>fn.
     and_then (j_value_str J tc ''id'' []) (\<lambda>i.
     and_then (j_value_str J fn ''name'' []) (\<lambda>name.
     and_then (j_value_str J fn ''arguments'' []) (\<lambda>args.
       Inr \<lparr>call_id = i, call_name = name, call_args = args\<rparr>))))"

definition openai_msg :: "'j json_api \<Rightarrow> 'j \<Rightarrow> chat_msg or_throw" where
  "openai_msg J m =
     and_then (j_value_str J m ''role'' ''user'') (\<lambda>role.
     and_then (if role = ''tool'' then j_value_str J m ''tool_call_id'' [] else Inr []) (\<lambda>tid.
     and_then (if role = ''tool'' then j_value_str J m ''name'' [] else Inr []) (\<lambda>tname.
     and_then (case j_get J m ''tool_calls'' of
                 Some tcs \<Rightarrow> if j_is_array J tcs then each_then (openai_call J) (j_items J tcs) else Inr []
               | None \<Rightarrow> Inr []) (\<lambda>calls.
       Inr \<lparr>msg_role = role, msg_content = content_str J m, msg_calls = calls,
            msg_call_id = tid, msg_tool = tname\<rparr>))))"

definition openai_to_common :: "'j json_api \<Rightarrow> 'j list \<Rightarrow> chat_msg list or_throw" where
  "openai_to_common J ms = each_then (openai_msg J) ms"

text \<open>The loop of flatten_anthropic_content(), with out as the accumulator.\<close>

fun flatten_blocks :: "'j json_api \<Rightarrow> string \<Rightarrow> 'j list \<Rightarrow> string or_throw" where
  "flatten_blocks J out [] = Inr out"
| "flatten_blocks J out (b # bs) =
     (if \<not> j_is_object J b then flatten_blocks J out bs
      else and_then (j_value_str J b ''type'' []) (\<lambda>ty.
        if ty = ''text''
        then and_then (j_value_str J b ''text'' []) (\<lambda>t.
               flatten_blocks J (out @ (if out = [] then [] else [nl]) @ t) bs)
        else flatten_blocks J out bs))"

definition flatten_anthropic_content :: "'j json_api \<Rightarrow> 'j \<Rightarrow> string or_throw" where
  "flatten_anthropic_content J c =
     (if j_is_string J c then Inr (j_text J c)
      else if \<not> j_is_array J c then Inr []
      else flatten_blocks J [] (j_items J c))"

definition anthropic_call :: "'j json_api \<Rightarrow> 'j \<Rightarrow> tool_call or_throw" where
  "anthropic_call J b =
     and_then (j_value_str J b ''id'' []) (\<lambda>i.
     and_then (j_value_str J b ''name'' []) (\<lambda>name.
       Inr \<lparr>call_id = i, call_name = name,
            call_args = (case j_get J b ''input'' of Some x \<Rightarrow> j_dump J x | None \<Rightarrow> [])\<rparr>))"

definition anthropic_result :: "'j json_api \<Rightarrow> 'j \<Rightarrow> chat_msg or_throw" where
  "anthropic_result J b =
     and_then (j_value_str J b ''tool_use_id'' []) (\<lambda>tid.
     and_then (case j_get J b ''content'' of
                 Some c \<Rightarrow> if j_is_string J c then Inr (j_text J c) else flatten_anthropic_content J c
               | None \<Rightarrow> Inr []) (\<lambda>content.
       Inr (empty_msg\<lparr>msg_role := ''tool'', msg_call_id := tid, msg_content := content\<rparr>)))"

text \<open>The blocks of one message: the tool messages they add and the calls they make.\<close>

fun anthropic_blocks ::
  "'j json_api \<Rightarrow> bool \<Rightarrow> 'j list \<Rightarrow> (chat_msg list \<times> tool_call list) or_throw" where
  "anthropic_blocks J assistant [] = Inr ([], [])"
| "anthropic_blocks J assistant (b # bs) =
     (if \<not> j_is_object J b then anthropic_blocks J assistant bs
      else and_then (j_value_str J b ''type'' []) (\<lambda>ty.
        if assistant \<and> ty = ''tool_use''
        then and_then (anthropic_call J b) (\<lambda>c.
             and_then (anthropic_blocks J assistant bs) (\<lambda>(rs, cs). Inr (rs, c # cs)))
        else if \<not> assistant \<and> ty = ''tool_result''
        then and_then (anthropic_result J b) (\<lambda>r.
             and_then (anthropic_blocks J assistant bs) (\<lambda>(rs, cs). Inr (r # rs, cs)))
        else anthropic_blocks J assistant bs))"

definition anthropic_msg :: "'j json_api \<Rightarrow> 'j \<Rightarrow> chat_msg list or_throw" where
  "anthropic_msg J m =
     and_then (j_value_str J m ''role'' ''user'') (\<lambda>role.
     and_then (j_value J m ''content'' (j_null J)) (\<lambda>content.
     and_then (flatten_anthropic_content J content) (\<lambda>text.
     and_then (if j_is_array J content
               then anthropic_blocks J (role = ''assistant'') (j_items J content)
               else Inr ([], [])) (\<lambda>(results, calls).
       let c = empty_msg\<lparr>msg_role := (if role = ''assistant'' then ''assistant'' else ''user''),
                         msg_content := text, msg_calls := calls\<rparr>
       in Inr (results @ (if text \<noteq> [] \<or> calls \<noteq> [] then [c] else []))))))"

definition anthropic_to_common :: "'j json_api \<Rightarrow> string \<Rightarrow> 'j list \<Rightarrow> chat_msg list or_throw" where
  "anthropic_to_common J system ms =
     and_then (each_then (anthropic_msg J) ms) (\<lambda>groups.
       Inr ((if system \<noteq> [] then [empty_msg\<lparr>msg_role := ''system'', msg_content := system\<rparr>] else [])
            @ concat groups))"

section \<open>Stop sequences\<close>

fun apply_stops :: "string \<Rightarrow> string list \<Rightarrow> string" where
  "apply_stops t [] = t"
| "apply_stops t (s # ss) =
     (if s = [] then apply_stops t ss
      else case find_str s t of
             Some pos \<Rightarrow> apply_stops (take pos t) ss
           | None \<Rightarrow> apply_stops t ss)"

section \<open>The Anthropic event stream\<close>

datatype block_kind = TextBlock | ToolBlock

datatype sse =
    MessageStart int
  | BlockStart int block_kind
  | TextDelta int string
  | JsonDelta int string
  | BlockStop int
  | MessageDelta string nat
  | MessageStop

record sse_state =
  next_block :: int
  block_open :: bool
  is_buffering :: bool
  acc_text :: string
  sse_sent :: "sse list"

definition sse_init :: sse_state where
  "sse_init = \<lparr>next_block = - 1, block_open = False, is_buffering = False, acc_text = [], sse_sent = []\<rparr>"

definition send_sse :: "sse \<Rightarrow> sse_state \<Rightarrow> sse_state" where
  "send_sse x st = st\<lparr>sse_sent := sse_sent st @ [x]\<rparr>"

definition open_block :: "block_kind \<Rightarrow> sse_state \<Rightarrow> sse_state" where
  "open_block k st =
     send_sse (BlockStart (next_block st + 1) k) (st\<lparr>next_block := next_block st + 1, block_open := True\<rparr>)"

definition close_block :: "sse_state \<Rightarrow> sse_state" where
  "close_block st =
     (if \<not> block_open st then st
      else (send_sse (BlockStop (next_block st)) st)\<lparr>block_open := False\<rparr>)"

definition ensure_started :: "bool \<Rightarrow> int \<Rightarrow> sse_state \<Rightarrow> sse_state" where
  "ensure_started with_tools n st =
     (if 0 \<le> next_block st \<or> block_open st then st
      else let st1 = send_sse (MessageStart n) st
           in if with_tools then st1 else open_block TextBlock st1)"

definition text_delta :: "string \<Rightarrow> sse_state \<Rightarrow> sse_state" where
  "text_delta t st = send_sse (TextDelta (next_block st) t) st"

definition anthropic_token ::
  "chat_api \<Rightarrow> chat_params \<Rightarrow> bool \<Rightarrow> string \<Rightarrow> sse_state \<Rightarrow> sse_state" where
  "anthropic_token A cp with_tools piece st =
     (if piece = [] then st
      else if \<not> with_tools then text_delta piece (ensure_started with_tools 0 st)
      else if is_buffering st then st\<lparr>acc_text := acc_text st @ piece\<rparr>
      else let st1 = ensure_started with_tools 0 (st\<lparr>acc_text := acc_text st @ piece\<rparr>)
           in case chat_parse A (acc_text st1) cp True of
                Inl _ \<Rightarrow>
                  let st2 = (if block_open st1 then st1 else open_block TextBlock st1)
                  in (text_delta piece st2)\<lparr>acc_text := []\<rparr>
              | Inr m \<Rightarrow>
                  if msg_calls m \<noteq> [] then st1\<lparr>is_buffering := True\<rparr>
                  else let st2 = (if msg_content m \<noteq> [] \<and> \<not> block_open st1
                                  then open_block TextBlock st1 else st1)
                       in if block_open st2 then (text_delta (msg_content m) st2)\<lparr>acc_text := []\<rparr>
                          else st2)"

fun anthropic_event ::
  "chat_api \<Rightarrow> chat_params \<Rightarrow> bool \<Rightarrow> sse_state \<Rightarrow> stream_event \<Rightarrow> sse_state" where
  "anthropic_event A cp with_tools st (OnPrefill n) = ensure_started with_tools n st"
| "anthropic_event A cp with_tools st (OnToken piece) = anthropic_token A cp with_tools piece st"

definition text_block :: "string \<Rightarrow> sse_state \<Rightarrow> sse_state" where
  "text_block t st = close_block (text_delta t (open_block TextBlock st))"

definition tool_block :: "'j json_api \<Rightarrow> sse_state \<Rightarrow> tool_call \<Rightarrow> sse_state" where
  "tool_block J st tc =
     (let input = (case j_parse J (call_args tc) of Inr j \<Rightarrow> j | Inl _ \<Rightarrow> j_empty_object J);
          st1 = open_block ToolBlock st
      in close_block (send_sse (JsonDelta (next_block st1) (j_dump J input)) st1))"

definition uses_tools :: "chat_params \<Rightarrow> bool" where
  "uses_tools cp \<longleftrightarrow> \<not> cp_content_only cp \<or> cp_stops cp \<noteq> []"

text \<open>The final parse, with the raw text as its fallback.\<close>

definition parse_final :: "chat_api \<Rightarrow> chat_params \<Rightarrow> string \<Rightarrow> chat_msg" where
  "parse_final A cp t =
     (if uses_tools cp
      then (case chat_parse A t cp False of Inr m \<Rightarrow> m | Inl _ \<Rightarrow> empty_msg\<lparr>msg_content := t\<rparr>)
      else empty_msg\<lparr>msg_content := t\<rparr>)"

definition anthropic_stream :: "'j json_api \<Rightarrow> chat_api \<Rightarrow> chat_params \<Rightarrow> completion \<Rightarrow> sse list" where
  "anthropic_stream J A cp r =
     (let wt = uses_tools cp;
          st1 = foldl (anthropic_event A cp wt) sse_init (out_events r);
          st2 = (if next_block st1 < 0 \<and> \<not> block_open st1
                 then send_sse (MessageStart (stat_prompt r)) st1 else st1);
          st3 = close_block st2;
          m = parse_final A cp (apply_stops (out_text r) (cp_stops cp));
          st4 = (if msg_content m \<noteq> [] then text_block (msg_content m) st3 else st3);
          st5 = (if wt then foldl (tool_block J) st4 (msg_calls m) else st4);
          reason = (if wt \<and> msg_calls m \<noteq> [] then ''tool_use'' else ''end_turn'')
      in sse_sent st5 @ [MessageDelta reason (stat_completion r), MessageStop])"

section \<open>The OpenAI chunk stream\<close>

datatype chunk =
    RoleChunk
  | ContentChunk string
  | CallChunk nat "string option" string string
  | FinishChunk string int nat
  | DoneChunk

text \<open>gen_id() draws ids from a clock and a counter: they come from the argument \<open>gen\<close>.\<close>

definition diff_chunks :: "string \<Rightarrow> msg_diff \<Rightarrow> chunk list" where
  "diff_chunks gen d =
     (if d_content d \<noteq> [] then [ContentChunk (d_content d)] else []) @
     (case d_call d of
        None \<Rightarrow> []
      | Some (i, c) \<Rightarrow>
          if call_name c \<noteq> [] \<or> call_id c \<noteq> []
          then [CallChunk i (Some (if call_id c = [] then gen else call_id c)) (call_name c) (call_args c)]
          else [CallChunk i None [] (call_args c)])"

text \<open>One token: the accumulated text, the message parsed last and the chunks sent.\<close>

fun openai_event ::
  "chat_api \<Rightarrow> chat_params \<Rightarrow> string \<Rightarrow> bool \<Rightarrow> string \<times> chat_msg \<times> chunk list \<Rightarrow> stream_event
     \<Rightarrow> string \<times> chat_msg \<times> chunk list" where
  "openai_event A cp gen with_tools (acc, prev, out) (OnPrefill n) = (acc, prev, out)"
| "openai_event A cp gen with_tools (acc, prev, out) (OnToken piece) =
     (if piece = [] then (acc, prev, out)
      else let acc' = acc @ piece
           in if \<not> with_tools then (acc', prev, out @ [ContentChunk piece])
              else case chat_parse A acc' cp True of
                     Inl _ \<Rightarrow> (acc', prev, out @ [ContentChunk piece])
                   | Inr m \<Rightarrow>
                       (case chat_diffs A prev m of
                          Inl _ \<Rightarrow> (acc', prev, out @ [ContentChunk piece])
                        | Inr ds \<Rightarrow> (acc', m, out @ concat (map (diff_chunks gen) ds))))"

definition openai_stream :: "chat_api \<Rightarrow> chat_params \<Rightarrow> string \<Rightarrow> completion \<Rightarrow> chunk list" where
  "openai_stream A cp gen r =
     (let wt = uses_tools cp;
          (acc, prev, out) = foldl (openai_event A cp gen wt) ([], empty_msg, [RoleChunk]) (out_events r);
          finish = (if wt
                    then (case chat_parse A (apply_stops acc (cp_stops cp)) cp False of
                            Inr m \<Rightarrow> if msg_calls m \<noteq> [] then ''tool_calls'' else ''stop''
                          | Inl _ \<Rightarrow> ''stop'')
                    else ''stop'')
      in out @ [FinishChunk finish (stat_prompt r) (stat_completion r), DoneChunk])"

section \<open>The handlers\<close>

record request =
  req_body :: string
  req_session :: string

datatype 'j content_block = TextContent string | ToolUse string string 'j

datatype 'j reply =
    ErrorReply nat string
  | Thrown string
  | TextReply string int nat
  | MessageReply "'j content_block list" string int nat
  | ChatReply "string option" "tool_call list" string int nat
  | AnthropicStream "sse list"
  | OpenAIStream "chunk list"

definition with_id :: "string \<Rightarrow> tool_call \<Rightarrow> tool_call" where
  "with_id gen c = (if call_id c = [] then c\<lparr>call_id := gen\<rparr> else c)"

definition make_blocks :: "'j json_api \<Rightarrow> string \<Rightarrow> chat_msg \<Rightarrow> 'j content_block list \<times> string" where
  "make_blocks J gen m =
     (let texts = (if msg_content m \<noteq> [] then [TextContent (msg_content m)] else []);
          uses = map (\<lambda>c. ToolUse (call_id (with_id gen c)) (call_name c)
                    (case j_parse J (call_args c) of Inr j \<Rightarrow> j | Inl _ \<Rightarrow> j_empty_object J)) (msg_calls m)
      in (if texts @ uses = [] then [TextContent []] else texts @ uses,
          if msg_calls m = [] then ''end_turn'' else ''tool_use''))"

definition handle_completions ::
  "'j json_api \<Rightarrow> 'c llama \<Rightarrow> nat \<Rightarrow> request \<Rightarrow> 'c engine \<Rightarrow> ('j reply \<times> 'c engine) or_ub" where
  "handle_completions J L now req e =
     (case j_parse J (req_body req) of
        Inl msg \<Rightarrow> Inr (ErrorReply 400 msg, e)
      | Inr body \<Rightarrow>
     (case and_then (j_value_str J body ''prompt'' []) (\<lambda>p.
           and_then (j_value_int J body ''max_tokens'' 256) (\<lambda>m. Inr (p, m))) of
        Inl msg \<Rightarrow> Inr (Thrown msg, e)
      | Inr (prompt, max_tokens) \<Rightarrow>
          if prompt = [] then Inr (ErrorReply 400 ''prompt is required'', e)
          else and_then (complete_stream L now prompt max_tokens [] False False None e) (\<lambda>(r, e').
            Inr (if out_text r = [] \<and> 0 < stat_prompt r then ErrorReply 503 ''inference failed''
                 else TextReply (out_text r) (stat_prompt r) (stat_completion r), e'))))"

text \<open>The array of messages, or None where the handlers answer 400.\<close>

definition messages_of :: "'j json_api \<Rightarrow> 'j \<Rightarrow> 'j list option" where
  "messages_of J body =
     (case j_get J body ''messages'' of
        Some ms \<Rightarrow> if j_is_array J ms then Some (j_items J ms) else None
      | None \<Rightarrow> None)"

definition tools_of :: "'j json_api \<Rightarrow> bool \<Rightarrow> 'j \<Rightarrow> chat_tool list or_throw" where
  "tools_of J anthropic body =
     (case j_get J body ''tools'' of
        Some ts \<Rightarrow> if j_is_array J ts then to_common_tools J anthropic (j_items J ts) else Inr []
      | None \<Rightarrow> Inr [])"

definition apply_template :: "chat_api \<Rightarrow> chat_tool list \<Rightarrow> chat_msg list or_throw \<Rightarrow> chat_params or_throw" where
  "apply_template A tools msgs =
     and_then msgs (\<lambda>ms. chat_apply A ms (if tools = [] then None else Some tools))"

definition no_generation :: "completion \<Rightarrow> bool" where
  "no_generation r \<longleftrightarrow> out_text r = [] \<and> 0 < stat_prompt r \<and> stat_completion r = 0"

text \<open>handle_messages() and handle_chat_completions() after their template has been applied.\<close>

definition answer_messages ::
  "'j json_api \<Rightarrow> chat_api \<Rightarrow> 'c llama \<Rightarrow> nat \<Rightarrow> string \<Rightarrow> string \<Rightarrow> chat_params \<Rightarrow> int \<Rightarrow> bool
     \<Rightarrow> 'c engine \<Rightarrow> ('j reply \<times> 'c engine) or_ub" where
  "answer_messages J A L now gen session cp max_tokens streaming e =
     and_then (complete_stream L now (cp_prompt cp) max_tokens session True streaming (Some (cp_stops cp)) e)
       (\<lambda>(r, e').
         Inr (if streaming then AnthropicStream (anthropic_stream J A cp r)
              else if no_generation r then ErrorReply 503 ''inference failed''
              else let (blocks, reason) = make_blocks J gen (parse_final A cp (apply_stops (out_text r) (cp_stops cp)))
                   in MessageReply blocks reason (stat_prompt r) (stat_completion r), e'))"

definition answer_chat ::
  "chat_api \<Rightarrow> 'c llama \<Rightarrow> nat \<Rightarrow> string \<Rightarrow> string \<Rightarrow> chat_params \<Rightarrow> int \<Rightarrow> bool
     \<Rightarrow> 'c engine \<Rightarrow> ('j reply \<times> 'c engine) or_ub" where
  "answer_chat A L now gen session cp max_tokens streaming e =
     and_then (complete_stream L now (cp_prompt cp) max_tokens session True streaming (Some (cp_stops cp)) e)
       (\<lambda>(r, e').
         Inr (if streaming then OpenAIStream (openai_stream A cp gen r)
              else if no_generation r then ErrorReply 503 ''inference failed''
              else let m = parse_final A cp (apply_stops (out_text r) (cp_stops cp))
                   in if msg_calls m \<noteq> []
                      then ChatReply (if msg_content m \<noteq> [] then Some (msg_content m) else None)
                             (map (with_id gen) (msg_calls m)) ''tool_calls'' (stat_prompt r) (stat_completion r)
                      else ChatReply (Some (msg_content m)) [] ''stop'' (stat_prompt r) (stat_completion r), e'))"

definition handle_messages ::
  "'j json_api \<Rightarrow> chat_api \<Rightarrow> 'c llama \<Rightarrow> nat \<Rightarrow> string \<Rightarrow> request \<Rightarrow> 'c engine
     \<Rightarrow> ('j reply \<times> 'c engine) or_ub" where
  "handle_messages J A L now gen req e =
     (case j_parse J (req_body req) of
        Inl msg \<Rightarrow> Inr (ErrorReply 400 msg, e)
      | Inr body \<Rightarrow>
     (case messages_of J body of
        None \<Rightarrow> Inr (ErrorReply 400 ''messages array is required'', e)
      | Some ms \<Rightarrow>
     (case and_then (case j_get J body ''system'' of Some x \<Rightarrow> flatten_anthropic_content J x | None \<Rightarrow> Inr [])
             (\<lambda>sys. and_then (tools_of J True body) (\<lambda>tools. Inr (sys, tools))) of
        Inl msg \<Rightarrow> Inr (Thrown msg, e)
      | Inr (sys, tools) \<Rightarrow>
     (case apply_template A tools (anthropic_to_common J sys ms) of
        Inl msg \<Rightarrow> Inr (ErrorReply 500 (''chat template failed: '' @ msg), e)
      | Inr cp \<Rightarrow>
     (case and_then (j_value_int J body ''max_tokens'' 256) (\<lambda>m.
           and_then (j_value_bool J body ''stream'' False) (\<lambda>b. Inr (m, b))) of
        Inl msg \<Rightarrow> Inr (Thrown msg, e)
      | Inr (m, b) \<Rightarrow> answer_messages J A L now gen (req_session req) cp m b e)))))"

definition handle_chat_completions ::
  "'j json_api \<Rightarrow> chat_api \<Rightarrow> 'c llama \<Rightarrow> nat \<Rightarrow> string \<Rightarrow> request \<Rightarrow> 'c engine
     \<Rightarrow> ('j reply \<times> 'c engine) or_ub" where
  "handle_chat_completions J A L now gen req e =
     (case j_parse J (req_body req) of
        Inl msg \<Rightarrow> Inr (ErrorReply 400 msg, e)
      | Inr body \<Rightarrow>
     (case messages_of J body of
        None \<Rightarrow> Inr (ErrorReply 400 ''messages array is required'', e)
      | Some ms \<Rightarrow>
     (case and_then (j_value_int J body ''max_tokens'' 256) (\<lambda>m.
           and_then (tools_of J False body) (\<lambda>tools. Inr (m, tools))) of
        Inl msg \<Rightarrow> Inr (Thrown msg, e)
      | Inr (m, tools) \<Rightarrow>
     (case apply_template A tools (openai_to_common J ms) of
        Inl msg \<Rightarrow> Inr (ErrorReply 500 (''chat template failed: '' @ msg), e)
      | Inr cp \<Rightarrow>
     (case j_value_bool J body ''stream'' False of
        Inl msg \<Rightarrow> Inr (Thrown msg, e)
      | Inr b \<Rightarrow> answer_chat A L now gen (req_session req) cp m b e)))))"

section \<open>Stop sequences, proved\<close>

lemma apply_stops_prefix: "\<exists>n. apply_stops t ss = take n t"
proof (induction t ss rule: apply_stops.induct)
  case (1 t)
  then show ?case by (metis apply_stops.simps(1) take_all order_refl)
next
  case (2 t s ss)
  show ?case
  proof (cases "find_str s t")
    case None
    with 2 show ?thesis by (cases "s = []") auto
  next
    case (Some pos)
    with 2 show ?thesis by (cases "s = []") (auto simp: take_take)
  qed
qed

section \<open>The block structure of the Anthropic stream\<close>

text \<open>An acceptor of the event protocol: the index of the last block and whether it is open.\<close>

fun sse_accept :: "int \<times> bool \<Rightarrow> sse \<Rightarrow> (int \<times> bool) option" where
  "sse_accept (n, op) (MessageStart t) = (if op then None else Some (n, op))"
| "sse_accept (n, op) (BlockStart i k) = (if \<not> op \<and> i = n + 1 then Some (i, True) else None)"
| "sse_accept (n, op) (TextDelta i t) = (if op \<and> i = n then Some (n, op) else None)"
| "sse_accept (n, op) (JsonDelta i t) = (if op \<and> i = n then Some (n, op) else None)"
| "sse_accept (n, op) (BlockStop i) = (if op \<and> i = n then Some (n, False) else None)"
| "sse_accept (n, op) (MessageDelta r t) = (if op then None else Some (n, op))"
| "sse_accept (n, op) MessageStop = (if op then None else Some (n, op))"

fun accept_all :: "int \<times> bool \<Rightarrow> sse list \<Rightarrow> (int \<times> bool) option" where
  "accept_all q [] = Some q"
| "accept_all q (x # xs) = (case sse_accept q x of None \<Rightarrow> None | Some q' \<Rightarrow> accept_all q' xs)"

lemma accept_append:
  "accept_all q (xs @ ys) = (case accept_all q xs of None \<Rightarrow> None | Some q' \<Rightarrow> accept_all q' ys)"
  by (induction q xs rule: accept_all.induct) (auto split: option.splits)

definition sse_ok :: "bool \<Rightarrow> sse_state \<Rightarrow> bool" where
  "sse_ok with_tools st \<longleftrightarrow>
     accept_all (- 1, False) (sse_sent st) = Some (next_block st, block_open st) \<and>
     (with_tools \<or> next_block st < 0 \<or> block_open st)"

abbreviation follows :: "sse_state \<Rightarrow> bool" where
  "follows st \<equiv> accept_all (- 1, False) (sse_sent st) = Some (next_block st, block_open st)"

named_theorems sse_steps \<open>the operations of a stream state follow the protocol\<close>

lemma follows_open [sse_steps]: "follows st \<Longrightarrow> \<not> block_open st \<Longrightarrow> follows (open_block k st)"
  by (simp add: open_block_def send_sse_def accept_append)

lemma open_block_fields [simp]:
  "block_open (open_block k st)" "next_block (open_block k st) = next_block st + 1"
  "acc_text (open_block k st) = acc_text st" "is_buffering (open_block k st) = is_buffering st"
  by (simp_all add: open_block_def send_sse_def)

lemma follows_close [sse_steps]: "follows st \<Longrightarrow> follows (close_block st)"
  by (simp add: close_block_def send_sse_def accept_append)

lemma close_block_fields [simp]: "\<not> block_open (close_block st)" "next_block (close_block st) = next_block st"
  by (simp_all add: close_block_def send_sse_def)

lemma follows_delta [sse_steps]: "follows st \<Longrightarrow> block_open st \<Longrightarrow> follows (text_delta t st)"
  by (simp add: text_delta_def send_sse_def accept_append)

lemma text_delta_fields [simp]:
  "block_open (text_delta t st) = block_open st" "next_block (text_delta t st) = next_block st"
  by (simp_all add: text_delta_def send_sse_def)

lemma follows_started [sse_steps]: "follows st \<Longrightarrow> follows (ensure_started wt n st)"
proof -
  assume f: "follows st"
  have "follows (send_sse (MessageStart n) st)" "\<not> block_open (send_sse (MessageStart n) st)" if "\<not> block_open st"
    using f that by (simp_all add: send_sse_def accept_append)
  then show ?thesis using f by (simp add: ensure_started_def Let_def follows_open)
qed

lemma started_open: "sse_ok False st \<Longrightarrow> block_open (ensure_started False n st)"
  by (auto simp: ensure_started_def sse_ok_def)

lemma follows_acc [simp]:
  "follows (st\<lparr>acc_text := t\<rparr>) = follows st" "follows (st\<lparr>is_buffering := b\<rparr>) = follows st"
  by simp_all

lemma follows_text_block [sse_steps]:
  "follows st \<Longrightarrow> \<not> block_open st \<Longrightarrow> follows (text_block t st) \<and> \<not> block_open (text_block t st)"
  by (simp add: text_block_def sse_steps)

lemma follows_tool_block [sse_steps]:
  "follows st \<Longrightarrow> \<not> block_open st \<Longrightarrow> follows (tool_block J st c) \<and> \<not> block_open (tool_block J st c)"
  by (simp add: tool_block_def Let_def close_block_def open_block_def send_sse_def accept_append)

lemma anthropic_event_ok: "sse_ok wt st \<Longrightarrow> sse_ok wt (anthropic_event A cp wt st ev)"
proof (cases ev)
  case (OnPrefill n)
  assume ok: "sse_ok wt st"
  then show ?thesis
    using OnPrefill started_open [of st n] by (cases wt) (simp_all add: sse_ok_def follows_started)
next
  case (OnToken piece)
  assume ok: "sse_ok wt st"
  show ?thesis
  proof (cases wt)
    case False
    with ok started_open [of st 0] OnToken show ?thesis
      by (simp add: anthropic_token_def sse_ok_def sse_steps)
  next
    case True
    have f0: "follows st" using ok by (simp add: sse_ok_def)
    define S where "S = ensure_started True 0 (st\<lparr>acc_text := acc_text st @ piece\<rparr>)"
    have f: "follows S" using f0 unfolding S_def by (intro follows_started) simp
    have t: "follows (text_delta t (open_block TextBlock S))" if "\<not> block_open S" for t
      using that f by (intro sse_steps) simp_all
    show ?thesis
    proof (cases "piece = [] \<or> is_buffering st")
      case True
      with OnToken \<open>wt\<close> f0 show ?thesis by (auto simp: anthropic_token_def sse_ok_def)
    next
      case False
      then have "anthropic_event A cp wt st ev = (case chat_parse A (acc_text S) cp True of
                Inl _ \<Rightarrow> (text_delta piece (if block_open S then S else open_block TextBlock S))\<lparr>acc_text := []\<rparr>
              | Inr m \<Rightarrow>
                  if msg_calls m \<noteq> [] then S\<lparr>is_buffering := True\<rparr>
                  else let st2 = (if msg_content m \<noteq> [] \<and> \<not> block_open S then open_block TextBlock S else S)
                       in if block_open st2 then (text_delta (msg_content m) st2)\<lparr>acc_text := []\<rparr> else st2)"
        using OnToken \<open>wt\<close> by (simp add: anthropic_token_def S_def [symmetric] Let_def split: sum.split)
      moreover have "follows (if block_open S then text_delta u S else text_delta u (open_block TextBlock S))" for u
        using f t by (simp add: follows_delta)
      ultimately show ?thesis
        using f \<open>wt\<close> t by (auto simp: sse_ok_def Let_def follows_delta split: sum.splits)
    qed
  qed
qed

interpretation sse_stream: machine "anthropic_event A cp wt" "sse_ok wt"
  for A :: chat_api and cp :: chat_params and wt :: bool
  by unfold_locales (rule anthropic_event_ok)

lemma tool_blocks_follow:
  "follows st \<Longrightarrow> \<not> block_open st \<Longrightarrow>
     follows (foldl (tool_block J) st cs) \<and> \<not> block_open (foldl (tool_block J) st cs)"
  by (induction cs arbitrary: st) (simp_all add: follows_tool_block)

section \<open>The text of a stream\<close>

fun delta_text :: "sse list \<Rightarrow> string" where
  "delta_text [] = []"
| "delta_text (TextDelta i t # xs) = t @ delta_text xs"
| "delta_text (x # xs) = delta_text xs"

lemma delta_text_append [simp]: "delta_text (xs @ ys) = delta_text xs @ delta_text ys"
  by (induction xs rule: delta_text.induct) simp_all

lemma delta_text_send [simp]:
  "delta_text (sse_sent (send_sse (MessageStart n) st)) = delta_text (sse_sent st)"
  "delta_text (sse_sent (open_block k st)) = delta_text (sse_sent st)"
  "delta_text (sse_sent (close_block st)) = delta_text (sse_sent st)"
  "delta_text (sse_sent (text_delta t st)) = delta_text (sse_sent st) @ t"
  "delta_text (sse_sent (ensure_started wt n st)) = delta_text (sse_sent st)"
  by (simp_all add: send_sse_def open_block_def close_block_def text_delta_def ensure_started_def Let_def)

lemma anthropic_plain_text:
  "delta_text (sse_sent (foldl (anthropic_event A cp False) st evs)) = delta_text (sse_sent st) @ sent_text evs"
proof (induction evs arbitrary: st)
  case (Cons ev evs)
  then show ?case by (cases ev) (simp_all add: anthropic_token_def)
qed simp

definition starts :: "sse list \<Rightarrow> nat" where
  "starts xs = length (filter (\<lambda>x. \<exists>n. x = MessageStart n) xs)"

lemma starts_simps [simp]:
  "starts [] = 0" "starts (xs @ ys) = starts xs + starts ys"
  "starts (MessageStart n # xs) = Suc (starts xs)" "starts (BlockStart i k # xs) = starts xs"
  by (simp_all add: starts_def)

lemma sent_grows_ops [simp]:
  "prefix (sse_sent st) (sse_sent (send_sse x st))"
  "prefix (sse_sent st) (sse_sent (open_block k st))"
  "prefix (sse_sent st) (sse_sent (close_block st))"
  "prefix (sse_sent st) (sse_sent (text_delta t st))"
  "prefix (sse_sent st) (sse_sent (ensure_started wt n st))"
  by (simp_all add: send_sse_def open_block_def close_block_def text_delta_def ensure_started_def Let_def)

lemma sent_ops:
  "sse_sent (text_delta t st) = sse_sent st @ [TextDelta (next_block st) t]"
  "sse_sent (open_block k st) = sse_sent st @ [BlockStart (next_block st + 1) k]"
  by (simp_all add: text_delta_def open_block_def send_sse_def)

lemma sent_grows_token: "prefix (sse_sent st) (sse_sent (anthropic_token A cp wt piece st))"
proof -
  have acc: "prefix (sse_sent st) (sse_sent (ensure_started w 0 (st\<lparr>acc_text := t\<rparr>)))" for w t
    using sent_grows_ops(5) [of "st\<lparr>acc_text := t\<rparr>" w 0] by simp
  show ?thesis
    by (auto simp: anthropic_token_def Let_def acc sent_ops prefix_prefix split: sum.splits)
qed

lemma sent_grows: "prefix (sse_sent st) (sse_sent (foldl (anthropic_event A cp wt) st evs))"
proof (induction evs arbitrary: st)
  case (Cons ev evs)
  have "prefix (sse_sent st) (sse_sent (anthropic_event A cp wt st ev))"
    by (cases ev) (simp_all add: sent_grows_token)
  with Cons.IH show ?case by (metis foldl_Cons prefix_order.trans)
qed simp

lemma sent_grows_tools: "prefix (sse_sent st) (sse_sent (foldl (tool_block J) st cs))"
proof (induction cs arbitrary: st)
  case (Cons c cs)
  have "prefix (sse_sent st) (sse_sent (tool_block J st c))"
    by (simp add: tool_block_def Let_def close_block_def open_block_def send_sse_def)
  with Cons.IH show ?case by (metis foldl_Cons prefix_order.trans)
qed simp

lemma grows_intros:
  "prefix xs (sse_sent st) \<Longrightarrow> prefix xs (sse_sent (send_sse x st))"
  "prefix xs (sse_sent st) \<Longrightarrow> prefix xs (sse_sent (open_block k st))"
  "prefix xs (sse_sent st) \<Longrightarrow> prefix xs (sse_sent (close_block st))"
  "prefix xs (sse_sent st) \<Longrightarrow> prefix xs (sse_sent (text_delta t st))"
  "prefix xs (sse_sent st) \<Longrightarrow> prefix xs (sse_sent (foldl (tool_block J) st cs))"
  using prefix_order.trans sent_grows_ops sent_grows_tools by blast+

lemma starts_mono: "prefix xs ys \<Longrightarrow> starts xs \<le> starts ys"
  by (auto simp: prefix_def)

section \<open>Properties\<close>

text \<open>
  C7. What apply_stops() returns is a prefix of the text that contains none of the stop
  sequences.
\<close>

theorem apply_stops_clean:
  "(\<exists>n. apply_stops t ss = take n t) \<and>
   (\<forall>s \<in> set ss. s = [] \<or> \<not> contains_str s (apply_stops t ss))"
proof -
  have "\<forall>s \<in> set ss. s = [] \<or> \<not> contains_str s (apply_stops t ss)"
  proof (induction t ss rule: apply_stops.induct)
    case (1 t)
    then show ?case by simp
  next
    case (2 t s ss)
    show ?case
    proof (cases "find_str s t")
      case None
      then have "\<not> contains_str s (apply_stops t ss)"
        using apply_stops_prefix [of t ss] contains_take by (metis contains_str_def)
      with 2 None show ?thesis by (cases "s = []") auto
    next
      case (Some pos)
      then have "s = [] \<or> \<not> contains_str s (apply_stops (take pos t) ss)"
        using apply_stops_prefix [of "take pos t" ss] contains_take find_str_cut by metis
      with 2 Some show ?thesis by (cases "s = []") auto
    qed
  qed
  then show ?thesis using apply_stops_prefix by blast
qed

theorem apply_stops_clean_witness:
  "apply_stops ''ok<end>x'' [''<end>''] = ''ok''"
proof -
  have "apply_stops ''ok<end>x'' [''<end>''] = ''ok'' \<and>
    ''<end>'' \<in> set [''<end>'']" by code_simp
  with apply_stops_clean [of "''ok<end>x''" "[''<end>'']"] show ?thesis by simp
qed



definition plain_chat :: chat_params where
  "plain_chat = \<lparr>cp_prompt = ''abc'', cp_content_only = True, cp_stops = []\<rparr>"

lemma toy_detokenize_grows:
  "\<forall>ts t. prefix (detokenize (toy_llama n m b) ts) (detokenize (toy_llama n m b) (ts @ [t]))"
  by (simp add: detokenize_def toy_llama_def)


fun chunk_text :: "chunk list \<Rightarrow> string" where
  "chunk_text [] = []"
| "chunk_text (ContentChunk t # cs) = t @ chunk_text cs"
| "chunk_text (c # cs) = chunk_text cs"

lemma chunk_text_append [simp]: "chunk_text (cs @ ds) = chunk_text cs @ chunk_text ds"
  by (induction cs rule: chunk_text.induct) simp_all

lemma openai_plain:
  "\<exists>acc' cs. foldl (openai_event A cp gen False) (acc, prev, out) evs = (acc', prev, out @ cs) \<and>
     chunk_text cs = sent_text evs \<and> (\<forall>c \<in> set cs. \<exists>t. c = ContentChunk t)"
proof (induction evs arbitrary: acc out)
  case Nil
  then show ?case by (intro exI [where x = acc] exI [where x = "[]"]) simp
next
  case (Cons ev evs)
  show ?case
  proof (cases "ev = OnToken [] \<or> (\<exists>n. ev = OnPrefill n)")
    case True
    with Cons.IH [of acc out] show ?thesis by auto
  next
    case False
    then obtain p where p: "ev = OnToken p" "p \<noteq> []" by (cases ev) auto
    obtain acc' cs where "foldl (openai_event A cp gen False) (acc @ p, prev, out @ [ContentChunk p]) evs
        = (acc', prev, (out @ [ContentChunk p]) @ cs)" "chunk_text cs = sent_text evs"
        "\<forall>c \<in> set cs. \<exists>t. c = ContentChunk t"
      using Cons.IH by blast
    with p show ?thesis by (intro exI [where x = acc'] exI [where x = "ContentChunk p # cs"]) simp
  qed
qed

text \<open>
  With tools enabled the Anthropic stream starts the message again on the first token: no block
  is opened by the prefill hook, so every call of ensure_started() before the first block
  sends a further message_start, the second one with an input count of 0.
\<close>

theorem anthropic_stream_restarts:
  assumes "uses_tools cp" and "out_events r = OnPrefill n # OnToken piece # evs" and "piece \<noteq> []"
  shows "2 \<le> starts (anthropic_stream J A cp r)"
proof -
  let ?s = "foldl (anthropic_event A cp True)"
  let ?s2 = "anthropic_token A cp True piece (ensure_started True n sse_init)"
  have started: "ensure_started True n sse_init = sse_init\<lparr>sse_sent := [MessageStart n]\<rparr>"
    by (simp add: ensure_started_def sse_init_def send_sse_def)
  have "prefix [MessageStart n, MessageStart 0] (sse_sent ?s2)"
    using assms(3) unfolding started anthropic_token_def
    by (auto simp: ensure_started_def Let_def sse_init_def open_block_def text_delta_def send_sse_def split: sum.splits)
  also have "prefix (sse_sent ?s2) (sse_sent (?s ?s2 evs))" by (rule sent_grows)
  finally have s1: "prefix [MessageStart n, MessageStart 0] (sse_sent (?s sse_init (out_events r)))"
    by (simp add: assms(2))
  have "prefix (sse_sent (?s sse_init (out_events r))) (anthropic_stream J A cp r)"
    using assms(1)
    by (auto simp: anthropic_stream_def Let_def text_block_def intro!: prefix_prefix grows_intros)
  with s1 have "prefix [MessageStart n, MessageStart 0] (anthropic_stream J A cp r)"
    by (rule prefix_order.trans)
  from starts_mono [OF this] show ?thesis by simp
qed

definition tool_chat :: chat_params where
  "tool_chat = \<lparr>cp_prompt = ''abc'', cp_content_only = False, cp_stops = []\<rparr>"

theorem anthropic_stream_restarts_witness:
  "\<forall>(J :: unit json_api) A. 2 \<le> starts (anthropic_stream J A tool_chat \<lparr>out_text = ''hi'', stat_prompt = 3, stat_completion = 1,
     out_events = [OnPrefill 3, OnToken ''hi'']\<rparr>)"
  by (intro allI, rule anthropic_stream_restarts [where n = 3 and piece = "''hi''" and evs = "[]"])
     (simp_all add: tool_chat_def uses_tools_def)

text \<open>
  The OpenAI stream without tools: the role first, then content chunks that join to exactly the text
  of the completion, then one finish chunk with the usage, and the end marker.
\<close>

theorem openai_stream_text:
  assumes "\<forall>ts t. prefix (detokenize L ts) (detokenize L (ts @ [t]))"
    and "\<not> uses_tools cp"
    and "complete_stream L now (cp_prompt cp) mt k True True (Some (cp_stops cp)) e = Inr (r, e')"
  shows "\<exists>cs. openai_stream A cp gen r =
      RoleChunk # cs @ [FinishChunk ''stop'' (stat_prompt r) (stat_completion r), DoneChunk] \<and>
    chunk_text cs = out_text r \<and> (\<forall>c \<in> set cs. \<exists>t. c = ContentChunk t)"
proof -
  have "cp_stops cp = []" using assms(2) by (simp add: uses_tools_def)
  then have sent: "sent_text (out_events r) = out_text r"
    using stream_is_output_whole [OF assms(1) assms(3)] by simp
  obtain acc cs where "foldl (openai_event A cp gen False) ([], empty_msg, [RoleChunk]) (out_events r)
      = (acc, empty_msg, [RoleChunk] @ cs)" "chunk_text cs = sent_text (out_events r)"
      "\<forall>c \<in> set cs. \<exists>t. c = ContentChunk t"
    using openai_plain by blast
  with sent assms(2) show ?thesis by (simp add: openai_stream_def)
qed

theorem openai_stream_text_witness:
  "\<forall>A gen. \<exists>r e' cs. complete_stream (toy_llama 16 16 16) 1 (cp_prompt plain_chat) 4 ''s'' True True
       (Some (cp_stops plain_chat)) demo_engine = Inr (r, e') \<and>
     openai_stream A plain_chat gen r =
       RoleChunk # cs @ [FinishChunk ''stop'' (stat_prompt r) (stat_completion r), DoneChunk] \<and>
     chunk_text cs = out_text r"
proof (intro allI)
  fix A gen
  obtain r e' where r: "complete_stream (toy_llama 16 16 16) 1 (cp_prompt plain_chat) 4 ''s'' True True
       (Some (cp_stops plain_chat)) demo_engine = Inr (r, e')"
    using demo_completes [of True "Some []"] by (auto simp: plain_chat_def)
  have "\<not> uses_tools plain_chat" by (simp add: uses_tools_def plain_chat_def)
  from openai_stream_text [OF toy_detokenize_grows this r, of A gen] r
  show "\<exists>r e' cs. complete_stream (toy_llama 16 16 16) 1 (cp_prompt plain_chat) 4 ''s'' True True
       (Some (cp_stops plain_chat)) demo_engine = Inr (r, e') \<and>
     openai_stream A plain_chat gen r =
       RoleChunk # cs @ [FinishChunk ''stop'' (stat_prompt r) (stat_completion r), DoneChunk] \<and>
     chunk_text cs = out_text r" by blast
qed

lemma prefill_succeeds:
  "\<forall>c b. fst (lm_decode L c b) = 0 \<Longrightarrow> prefill L q n pos us c = Inr (okp, c') \<Longrightarrow> n \<noteq> 0 \<Longrightarrow> okp"
proof (induction L q n pos us c rule: prefill.induct)
  case (1 L q n pos us c)
  then show ?case by (auto simp: prefill.simps [of L q n pos us c] Let_def split: if_splits)
qed

text \<open>
  A completion whose first sampled token is the end of the sequence is answered with 503 by
  /v1/completions although every call succeeded: the comment there says that an empty text
  means a failed decode.
\<close>

theorem empty_completion_is_503:
  assumes "j_parse J (req_body req) = Inr body" and "j_value_str J body ''prompt'' [] = Inr prompt"
    and "j_value_int J body ''max_tokens'' 256 = Inr mt" and "prompt \<noteq> []"
    and toks: "tokenize_prompt L prompt = Some ts" "ts \<noteq> []" "\<not> over_budget L (length ts) mt"
    and L: "\<forall>c. fst (lm_sample L c) = lm_eos L" "\<forall>c b. fst (lm_decode L c b) = 0" "0 < lm_n_batch L"
  shows "\<exists>e'. handle_completions J L now req e = Inr (ErrorReply 503 ''inference failed'', e')"
proof -
  let ?e = "e\<lparr>eng_ctx := drop_cells L 0 (- 1) (eng_ctx e)\<rparr>"
  note ok = prefill_succeeds [OF L(2)]
  have "min (max (length ts) 1) (lm_n_batch L) \<noteq> 0" using L(3) by simp
  then obtain c where p: "prefill L 0 (min (max (length ts) 1) (lm_n_batch L)) 0 ts (eng_ctx ?e) = Inr (True, c)"
    using ok prefill_total by metis
  have gen: "\<exists>c'. generate L 0 False None (length ts) n c [] [] = (c', [], [])" for n
    using L(1) by (cases n) (simp_all add: split_beta)
  obtain c' where g: "generate L 0 False None (length ts) (nat mt) c [] [] = (c', [], [])"
    using gen by blast
  have "complete_stream L now prompt mt [] False False None e =
      Inr (\<lparr>out_text = [], stat_prompt = int (length ts), stat_completion = 0, out_events = []\<rparr>, ?e\<lparr>eng_ctx := c'\<rparr>)"
    using toks p g by (simp add: complete_stream_def resolve_session_def reuse_cells_def run_prompt_def
        token_budget_def Let_def detokenize_def)
  with assms(1-4) toks(2) show ?thesis by (simp add: handle_completions_def)
qed

definition demo_json :: "unit json_api" where
  "demo_json =
     \<lparr>j_parse = Inr \<circ> (\<lambda>_. ()), j_is_object = (\<lambda>_. True), j_is_array = (\<lambda>_. False),
      j_is_string = (\<lambda>_. False), j_items = (\<lambda>_. []), j_get = (\<lambda>_ _. None), j_text = (\<lambda>_. []),
      j_value = (\<lambda>_ _ d. Inr d), j_value_str = (\<lambda>_ _ _. Inr ''abc''), j_value_int = (\<lambda>_ _ d. Inr d),
      j_value_bool = (\<lambda>_ _ d. Inr d), j_null = (), j_empty_object = (), j_dump = (\<lambda>_. [])\<rparr>"

definition eos_llama :: "(seq_id \<Rightarrow> cells) llama" where
  "eos_llama = (toy_llama 4096 512 0)\<lparr>lm_sample := (\<lambda>c. (0, c)), lm_decode := (\<lambda>c b. (0, feed c b))\<rparr>"

theorem empty_completion_is_503_witness:
  "\<exists>e'. handle_completions demo_json eos_llama 1 \<lparr>req_body = [], req_session = []\<rparr> demo_engine =
     Inr (ErrorReply 503 ''inference failed'', e')"
  by (rule empty_completion_is_503 [where prompt = "''abc''" and mt = 256 and body = "()" and ts = "[97, 98, 99]"])
     (simp_all add: demo_json_def eos_llama_def toy_llama_def tokenize_prompt_def vec_resize_def over_budget_def)

end
