(* ===== verification/Yamux.thy ===== *)
theory Yamux
  imports Prelude
begin

text \<open>
  tunnel/yamux.hpp and tunnel/yamux.cpp: the frame format, the streams (class MuxStream) and the
  session (class Mux) with its reader thread.

  A stream object is an index into \<open>mx_objs\<close> (a shared_ptr); the table and the accept slot hold
  indices. The results of the coming ::send() calls are \<open>mx_net\<close> (none left: the call fails, as
  it does after shutdown()), the bytes sent so far \<open>mx_out\<close>. std::mutex does not allow a second
  lock by its holder: a call made with mu_ held carries \<open>held = True\<close>, and locking mu_ there is
  \<open>SelfDeadlock\<close>. Blocking calls are modelled by one test of their polling loop.
\<close>

section \<open>Frames\<close>

definition kTypeData :: byte where "kTypeData = 0"
definition kTypeWindowUpdate :: byte where "kTypeWindowUpdate = 1"
definition kTypePing :: byte where "kTypePing = 2"
definition kTypeGoAway :: byte where "kTypeGoAway = 3"
definition kFlagSyn :: u16 where "kFlagSyn = 1"
definition kFlagAck :: u16 where "kFlagAck = 2"
definition kFlagFin :: u16 where "kFlagFin = 4"
definition kDataFrameCap :: nat where "kDataFrameCap = 16 * 1024"
definition kInbufCap :: nat where "kInbufCap = 8 * 1024 * 1024"

record frame =
  f_type :: byte
  f_flags :: u16
  f_sid :: u32
  f_payload :: "byte list"

definition encode_frame :: "frame \<Rightarrow> byte list" where
  "encode_frame f =
     [0, f_type f] @ put_u16 (f_flags f) @ put_u32 (f_sid f) @
     put_u32 (word_of_nat (length (f_payload f))) @ f_payload f"

definition decode_frame :: "byte list \<Rightarrow> (frame, byte) decoded" where
  "decode_frame b =
     (if length b < 12 then Need
      else if b ! 0 \<noteq> 0 then Bad
      else let plen = unat (get_u32 (drop 8 b))
           in if length b - 12 < plen then Need
              else Got \<lparr>f_type = b ! 1, f_flags = get_u16 (drop 2 b), f_sid = get_u32 (drop 4 b),
                        f_payload = take plen (drop 12 b)\<rparr> (drop (12 + plen) b))"

definition frame_valid :: "frame \<Rightarrow> bool" where
  "frame_valid f \<longleftrightarrow> length (f_payload f) < 2 ^ 32"

lemma length_encode [simp]: "length (encode_frame f) = 12 + length (f_payload f)"
  by (simp add: encode_frame_def)

lemma decode_encode_frame:
  assumes "frame_valid f"
  shows "decode_frame (encode_frame f @ r) = Got f r"
proof -
  let ?b = "encode_frame f @ r" and ?n = "length (f_payload f)"
  have b0: "?b ! 0 = 0" "?b ! 1 = f_type f" by (simp_all add: encode_frame_def)
  have b2: "drop 2 ?b = put_u16 (f_flags f) @ put_u32 (f_sid f) @ put_u32 (word_of_nat ?n) @ f_payload f @ r"
    by (simp add: encode_frame_def)
  have "drop 4 ?b = drop 2 (drop 2 ?b)" by simp
  also have "\<dots> = put_u32 (f_sid f) @ put_u32 (word_of_nat ?n) @ f_payload f @ r"
    unfolding b2 by simp
  finally have b4: "drop 4 ?b = put_u32 (f_sid f) @ put_u32 (word_of_nat ?n) @ f_payload f @ r" .
  have "drop 8 ?b = drop 4 (drop 4 ?b)" by simp
  also have "\<dots> = put_u32 (word_of_nat ?n) @ f_payload f @ r" unfolding b4 by simp
  finally have b8: "drop 8 ?b = put_u32 (word_of_nat ?n) @ f_payload f @ r" .
  have "drop 12 ?b = drop 4 (drop 8 ?b)" by simp
  also have "\<dots> = f_payload f @ r" unfolding b8 by simp
  finally have b12: "drop 12 ?b = f_payload f @ r" .
  have "drop (12 + ?n) ?b = drop ?n (drop 12 ?b)" by (simp add: add.commute)
  then have rest: "drop (12 + ?n) ?b = r" unfolding b12 by simp
  have plen: "unat (get_u32 (drop 8 ?b)) = ?n"
    unfolding b8 get_put_u32 using assms by (simp add: frame_valid_def unat_of_nat take_bit_nat_eq_self)
  have len: "\<not> length ?b < 12" "\<not> length ?b - 12 < ?n" by simp_all
  show ?thesis
    unfolding decode_frame_def plen Let_def b0 b2 b4 b12 rest get_put_u16 get_put_u32
    using len by simp
qed

lemma decode_frame_more:
  "decode_frame b = Got f r \<Longrightarrow> decode_frame (b @ x) = Got f (r @ x)"
proof -
  assume g: "decode_frame b = Got f r"
  then have len: "12 \<le> length b" by (auto simp: decode_frame_def split: if_splits)
  then have hd: "drop n (b @ x) = drop n b @ x" if "n \<le> 12" for n using that by simp
  have nth: "(b @ x) ! n = b ! n" if "n < 12" for n using that len by (simp add: nth_append)
  have "4 \<le> length (drop 8 b)" "4 \<le> length (drop 4 b)" "2 \<le> length (drop 2 b)" using len by auto
  then have u: "get_u32 (drop 8 b @ x) = get_u32 (drop 8 b)" "get_u32 (drop 4 b @ x) = get_u32 (drop 4 b)"
    "get_u16 (drop 2 b @ x) = get_u16 (drop 2 b)"
    by (simp_all add: get_u32_def get_u16_def nth_append)
  have plen: "\<not> length b - 12 < unat (get_u32 (drop 8 b))"
    using g by (auto simp: decode_frame_def Let_def split: if_splits)
  then have tk: "take (unat (get_u32 (drop 8 b))) (drop 12 b @ x) = take (unat (get_u32 (drop 8 b))) (drop 12 b)"
    "drop (12 + unat (get_u32 (drop 8 b))) (b @ x) = drop (12 + unat (get_u32 (drop 8 b))) b @ x"
    using len by simp_all
  have "\<not> length (b @ x) < 12" "\<not> length (b @ x) - 12 < unat (get_u32 (drop 8 b))" using len plen by auto
  then show ?thesis
    using g len plen by (simp add: decode_frame_def Let_def hd nth u tk split: if_splits)
qed

lemma decode_frame_bad: "decode_frame b = Bad \<Longrightarrow> decode_frame (b @ x) = Bad"
  by (auto simp: decode_frame_def Let_def nth_append split: if_splits)

lemma decode_frame_shrinks: "decode_frame b = Got f r \<Longrightarrow> length r < length b"
  by (auto simp: decode_frame_def Let_def split: if_splits)

lemma decode_frame_length: "decode_frame b = Got f r \<Longrightarrow> length b = 12 + length (f_payload f) + length r"
  by (auto simp: decode_frame_def Let_def split: if_splits)

lemma decode_frame_Nil: "decode_frame [] = Need"
  by (simp add: decode_frame_def)

interpretation yamux: framing encode_frame decode_frame frame_valid
  by unfold_locales
     (simp_all add: decode_encode_frame decode_frame_shrinks decode_frame_more decode_frame_bad decode_frame_Nil)

section \<open>Streams and the session\<close>

record stream =
  st_id :: u32
  st_buffer :: "byte list"
  st_closed :: bool

record mux =
  mx_client :: bool
  mx_next :: u32
  mx_objs :: "stream list"
  mx_streams :: "(u32 \<times> nat) list"
  mx_pending :: "nat option"
  mx_dead :: bool
  mx_joined :: bool
  mx_net :: "int list"
  mx_out :: "byte list"
  mx_inbuf :: "byte list"

definition mux_init :: "bool \<Rightarrow> int list \<Rightarrow> mux" where
  "mux_init client net =
     \<lparr>mx_client = client, mx_next = (if client then 1 else 2), mx_objs = [], mx_streams = [],
      mx_pending = None, mx_dead = False, mx_joined = False, mx_net = net, mx_out = [], mx_inbuf = []\<rparr>"

text \<open>The loop over ::send(): whether everything went out, what did, and the results left.\<close>

fun send_loop :: "int list \<Rightarrow> byte list \<Rightarrow> bool \<times> byte list \<times> int list" where
  "send_loop net [] = (True, [], net)"
| "send_loop [] bs = (False, [], [])"
| "send_loop (n # net) bs =
     (if n \<le> 0 then (False, [], net)
      else let (ok, sent, net') = send_loop net (drop (nat n) bs)
           in (ok, take (nat n) bs @ sent, net'))"

definition send_frame :: "bool \<Rightarrow> frame \<Rightarrow> mux \<Rightarrow> (bool \<times> mux) or_ub" where
  "send_frame held f m =
     (case send_loop (mx_net m) (encode_frame f) of
        (ok, sent, net) \<Rightarrow>
          let m' = m\<lparr>mx_out := mx_out m @ sent, mx_net := net\<rparr>
          in if ok then Inr (True, m')
             else if held then Inl SelfDeadlock
             else Inr (False, m'\<lparr>mx_dead := True\<rparr>))"

definition control_frame :: "byte \<Rightarrow> u16 \<Rightarrow> u32 \<Rightarrow> frame" where
  "control_frame ty fl sid = \<lparr>f_type = ty, f_flags = fl, f_sid = sid, f_payload = []\<rparr>"

definition data_frame :: "u32 \<Rightarrow> byte list \<Rightarrow> frame" where
  "data_frame sid d = \<lparr>f_type = kTypeData, f_flags = 0, f_sid = sid, f_payload = d\<rparr>"

definition push_data :: "nat \<Rightarrow> byte list \<Rightarrow> mux \<Rightarrow> mux" where
  "push_data i d m =
     m\<lparr>mx_objs := (mx_objs m)[i := (mx_objs m ! i)\<lparr>st_buffer := st_buffer (mx_objs m ! i) @ d\<rparr>]\<rparr>"

function stream_write :: "nat \<Rightarrow> byte list \<Rightarrow> mux \<Rightarrow> (bool \<times> mux) or_ub" where
  "stream_write i buf m =
     (if buf = [] then Inr (True, m)
      else if st_closed (mx_objs m ! i) then Inr (False, m)
      else and_then (send_frame False (data_frame (st_id (mx_objs m ! i)) (take kDataFrameCap buf)) m)
             (\<lambda>(ok, m'). if ok then stream_write i (drop kDataFrameCap buf) m' else Inr (False, m')))"
  by pat_completeness auto
termination by (relation "measure (\<lambda>(i, buf, m). length buf)") (auto simp: kDataFrameCap_def)

declare stream_write.simps [simp del]

definition try_read :: "nat \<Rightarrow> nat \<Rightarrow> mux \<Rightarrow> int \<times> byte list \<times> mux" where
  "try_read i len m =
     (let s = mx_objs m ! i; n = min len (length (st_buffer s))
      in if st_buffer s = [] then (if st_closed s then 0 else - 1, [], m)
         else (int n, take n (st_buffer s),
               m\<lparr>mx_objs := (mx_objs m)[i := s\<lparr>st_buffer := drop n (st_buffer s)\<rparr>]\<rparr>))"

text \<open>One test of the loop of read(): None is another round of sleeping.\<close>

definition read_poll :: "nat \<Rightarrow> nat \<Rightarrow> mux \<Rightarrow> (nat \<times> byte list \<times> mux) option" where
  "read_poll i len m =
     (let s = mx_objs m ! i; n = min len (length (st_buffer s))
      in if st_buffer s = [] then (if st_closed s then Some (0, [], m) else None)
         else Some (n, take n (st_buffer s),
                    m\<lparr>mx_objs := (mx_objs m)[i := s\<lparr>st_buffer := drop n (st_buffer s)\<rparr>]\<rparr>))"

definition stream_close :: "bool \<Rightarrow> nat \<Rightarrow> mux \<Rightarrow> mux or_ub" where
  "stream_close held i m =
     (let s = mx_objs m ! i;
          m' = m\<lparr>mx_objs := (mx_objs m)[i := s\<lparr>st_closed := True\<rparr>]\<rparr>
      in if st_closed s then Inr m'
         else and_then (send_frame held (control_frame kTypeWindowUpdate kFlagFin (st_id s)) m')
                (\<lambda>(ok, m''). Inr m''))"

text \<open>A new stream object under an id; an object the id had before stays alive.\<close>

definition add_stream :: "u32 \<Rightarrow> mux \<Rightarrow> mux" where
  "add_stream sid m =
     m\<lparr>mx_objs := mx_objs m @ [\<lparr>st_id = sid, st_buffer = [], st_closed = False\<rparr>],
       mx_streams := put_entry sid (length (mx_objs m)) (mx_streams m)\<rparr>"

definition open_stream :: "mux \<Rightarrow> (nat \<times> mux) or_ub" where
  "open_stream m =
     (let sid = mx_next m; m1 = add_stream sid (m\<lparr>mx_next := mx_next m + 2\<rparr>)
      in and_then (send_frame True (control_frame kTypeWindowUpdate kFlagSyn sid) m1)
           (\<lambda>(ok, m2). Inr (length (mx_objs m), m2)))"

text \<open>One test of the loop of accept_stream().\<close>

datatype accepted = Waiting | Refused | Accepted nat

definition accept_poll :: "mux \<Rightarrow> accepted \<times> mux" where
  "accept_poll m =
     (if mx_dead m then (Refused, m)
      else case mx_pending m of
             Some i \<Rightarrow> (Accepted i, m\<lparr>mx_pending := None\<rparr>)
           | None \<Rightarrow> (Waiting, m))"

definition handle_frame :: "frame \<Rightarrow> mux \<Rightarrow> mux or_ub" where
  "handle_frame f m =
     (if f_type f = kTypeData then
        Inr (case map_of (mx_streams m) (f_sid f) of
               Some i \<Rightarrow> push_data i (f_payload f) m
             | None \<Rightarrow> m)
      else if f_type f = kTypeWindowUpdate then
        (if f_flags f AND kFlagSyn \<noteq> 0 then
           let m1 = add_stream (f_sid f) m;
               m2 = (if mx_pending m1 = None then m1\<lparr>mx_pending := Some (length (mx_objs m))\<rparr> else m1)
           in and_then (send_frame True (control_frame kTypeWindowUpdate kFlagAck (f_sid f)) m2)
                (\<lambda>(ok, m3). Inr m3)
         else if f_flags f AND kFlagFin \<noteq> 0 then
           (case map_of (mx_streams m) (f_sid f) of
              Some i \<Rightarrow> stream_close True i m
            | None \<Rightarrow> Inr m)
         else Inr m)
      else if f_type f = kTypePing then
        (if f_flags f = 0
         then and_then (send_frame False (control_frame kTypePing kFlagAck 0) m) (\<lambda>(ok, m1). Inr m1)
         else Inr m)
      else if f_type f = kTypeGoAway then Inr (m\<lparr>mx_dead := True\<rparr>)
      else Inr m)"

text \<open>The frames of a buffer, up to the end, a bad version or a GoAway; what is left of the buffer.\<close>

function frames_loop :: "byte list \<Rightarrow> mux \<Rightarrow> (byte list \<times> mux) or_ub" where
  "frames_loop b m =
     (case decode_frame b of
        Need \<Rightarrow> Inr (b, m)
      | Bad \<Rightarrow> Inr (b, m\<lparr>mx_dead := True\<rparr>)
      | Got f r \<Rightarrow>
          and_then (handle_frame f m) (\<lambda>m'.
            if f_type f = kTypeGoAway then Inr (b, m') else frames_loop r m'))"
  by pat_completeness auto
termination by (relation "measure (\<lambda>(b, m). length b)") (auto dest: decode_frame_shrinks)

declare frames_loop.simps [simp del]

text \<open>One round of read_loop(): nothing is read once dead_ is set; None is a recv() that returned 0 or less.\<close>

definition read_step :: "byte list option \<Rightarrow> mux \<Rightarrow> mux or_ub" where
  "read_step chunk m =
     (if mx_dead m then Inr m
      else case chunk of
             None \<Rightarrow> Inr (m\<lparr>mx_dead := True\<rparr>)
           | Some bs \<Rightarrow>
               and_then (frames_loop (mx_inbuf m @ bs) m) (\<lambda>(b, m').
                 let m2 = m'\<lparr>mx_inbuf := b\<rparr>
                 in Inr (if kInbufCap < length b then m2\<lparr>mx_dead := True\<rparr> else m2)))"

fun read_all :: "byte list list \<Rightarrow> mux \<Rightarrow> mux or_ub" where
  "read_all [] m = Inr m"
| "read_all (c # cs) m = and_then (read_step (Some c) m) (read_all cs)"

fun close_each :: "(u32 \<times> nat) list \<Rightarrow> mux \<Rightarrow> mux or_ub" where
  "close_each [] m = Inr m"
| "close_each ((k, i) # es) m = and_then (stream_close True i m) (close_each es)"

text \<open>close(): after shutdown() every ::send() fails, and the reader thread ends and is joined.\<close>

definition mux_close :: "mux \<Rightarrow> mux or_ub" where
  "mux_close m =
     (if mx_dead m then Inr m
      else and_then (close_each (mx_streams m) (m\<lparr>mx_dead := True, mx_net := [], mx_joined := True\<rparr>))
             (\<lambda>m'. Inr (m'\<lparr>mx_streams := []\<rparr>)))"

text \<open>~Mux(): close(), then the members go; destroying a joinable std::thread is std::terminate.\<close>

definition mux_destroy :: "mux \<Rightarrow> mux or_ub" where
  "mux_destroy m =
     and_then (mux_close m) (\<lambda>m'. if mx_joined m' then Inr m' else Inl Terminates)"

section \<open>What is written is what the peer reads\<close>

lemma send_loop_True: "send_loop net bs = (True, sent, net') \<Longrightarrow> sent = bs"
proof (induction net bs arbitrary: sent net' rule: send_loop.induct)
  case (3 n net b bs)
  show ?case
  proof (cases "n \<le> 0")
    case True
    with "3.prems" show ?thesis by simp
  next
    case False
    obtain s' net2 where r: "send_loop net (drop (nat n) (b # bs)) = (True, s', net2)"
      "sent = take (nat n) (b # bs) @ s'"
      using "3.prems" False by (auto split: prod.splits)
    from "3.IH" [OF False r(1)] r(2) show ?thesis by simp
  qed
qed simp_all

lemma send_frame_True:
  "send_frame held f m = Inr (True, m') \<Longrightarrow>
     mx_out m' = mx_out m @ encode_frame f \<and> mx_objs m' = mx_objs m"
  by (auto simp: send_frame_def Let_def split: prod.splits if_splits dest: send_loop_True)

function data_frames :: "u32 \<Rightarrow> byte list \<Rightarrow> frame list" where
  "data_frames sid d =
     (if d = [] then [] else data_frame sid (take kDataFrameCap d) # data_frames sid (drop kDataFrameCap d))"
  by pat_completeness auto
termination by (relation "measure (\<lambda>(sid, d). length d)") (auto simp: kDataFrameCap_def)

declare data_frames.simps [simp del]

lemma data_frames_Nil [simp]: "data_frames sid [] = []"
  by (simp add: data_frames.simps [of sid "[]"])

lemma stream_write_Nil [simp]: "stream_write i [] m = Inr (True, m)"
  by (simp add: stream_write.simps [of i "[]" m])

lemma data_frames_payloads: "concat (map f_payload (data_frames sid d)) = d"
proof (induction sid d rule: data_frames.induct)
  case (1 sid d)
  then show ?case by (cases "d = []") (simp_all add: data_frames.simps [of sid d] data_frame_def)
qed

definition is_data :: "u32 \<Rightarrow> frame \<Rightarrow> bool" where
  "is_data sid f \<longleftrightarrow> f_type f = kTypeData \<and> f_sid f = sid \<and> length (f_payload f) \<le> kDataFrameCap"

lemma data_frames_are: "list_all (is_data sid) (data_frames sid d)"
proof (induction sid d rule: data_frames.induct)
  case (1 sid d)
  then show ?case
    by (cases "d = []") (simp_all add: data_frames.simps [of sid d] data_frame_def is_data_def)
qed

lemma is_data_valid: "is_data sid f \<Longrightarrow> frame_valid f"
  by (simp add: is_data_def frame_valid_def kDataFrameCap_def)

lemma stream_write_out:
  "stream_write i d m = Inr (True, m') \<Longrightarrow>
     mx_out m' = mx_out m @ concat (map encode_frame (data_frames (st_id (mx_objs m ! i)) d))"
proof (induction i d m rule: stream_write.induct)
  case (1 i d m)
  show ?case
  proof (cases "d = []")
    case True
    with "1.prems" show ?thesis by (simp add: stream_write.simps [of i d m] data_frames.simps [of _ d])
  next
    case False
    with "1.prems" obtain m1 where f: "\<not> st_closed (mx_objs m ! i)"
      "send_frame False (data_frame (st_id (mx_objs m ! i)) (take kDataFrameCap d)) m = Inr (True, m1)"
      "stream_write i (drop kDataFrameCap d) m1 = Inr (True, m')"
      by (auto simp: stream_write.simps [of i d m] and_then_Inr split: if_splits)
    note s = send_frame_True [OF f(2)]
    have "mx_out m' = mx_out m1 @ concat (map encode_frame (data_frames (st_id (mx_objs m1 ! i)) (drop kDataFrameCap d)))"
      using "1.IH" [OF False f(1) TrueI f(3)] .
    with s False show ?thesis by (simp add: data_frames.simps [of _ d])
  qed
qed

lemma need_length:
  assumes "decode_frame r = Need" and "decode_frame (r @ x) = Got f q"
  shows "length r < 12 + length (f_payload f)"
proof (cases "length r < 12")
  case False
  have "4 \<le> length (drop 8 r)" using False by simp
  then have "get_u32 (drop 8 r @ x) = get_u32 (drop 8 r)" by (simp add: get_u32_def nth_append)
  then have u: "get_u32 (drop 8 (r @ x)) = get_u32 (drop 8 r)" using False by simp
  have "(r @ x) ! 0 = r ! 0" using False by (cases r) simp_all
  then have need: "length r - 12 < unat (get_u32 (drop 8 r))"
    using assms False by (auto simp: decode_frame_def Let_def split: if_splits)
  have "length (f_payload f) = unat (get_u32 (drop 8 (r @ x)))"
    using assms(2) by (auto simp: decode_frame_def Let_def split: if_splits)
  then have "length r - 12 < length (f_payload f)" using need unfolding u by simp
  then show ?thesis using False by linarith
qed simp

text \<open>A data frame is appended to the buffer of its stream.\<close>

definition deliver :: "nat \<Rightarrow> mux \<Rightarrow> frame \<Rightarrow> mux" where
  "deliver i m f = push_data i (f_payload f) m"

lemma deliver_fields [simp]:
  "mx_streams (deliver i m f) = mx_streams m" "mx_dead (deliver i m f) = mx_dead m"
  "mx_inbuf (deliver i m f) = mx_inbuf m"
  by (simp_all add: deliver_def push_data_def)

lemma deliver_all_fields [simp]:
  "mx_streams (foldl (deliver i) m fs) = mx_streams m" "mx_dead (foldl (deliver i) m fs) = mx_dead m"
  by (induction fs arbitrary: m) simp_all

lemma deliver_buffer:
  "i < length (mx_objs m) \<Longrightarrow>
     st_buffer (mx_objs (foldl (deliver i) m fs) ! i) = st_buffer (mx_objs m ! i) @ concat (map f_payload fs)"
  by (induction fs arbitrary: m) (simp_all add: deliver_def push_data_def)

lemma frames_loop_data:
  "list_all (is_data sid) (fst (decode_all decode_frame b)) \<Longrightarrow> map_of (mx_streams m) sid = Some i \<Longrightarrow>
   decode_frame (snd (decode_all decode_frame b)) = Need \<Longrightarrow>
     frames_loop b m = Inr (snd (decode_all decode_frame b),
       foldl (deliver i) m (fst (decode_all decode_frame b)))"
proof (induction b m rule: frames_loop.induct)
  case (1 b m)
  show ?case
  proof (cases "decode_frame b")
    case Need
    then show ?thesis by (simp add: frames_loop.simps [of b m] decode_all.simps [of decode_frame b])
  next
    case Bad
    with "1.prems"(3) show ?thesis by (simp add: decode_all.simps [of decode_frame b])
  next
    case (Got f r)
    note d = yamux.decode_all_Got [OF Got]
    have f: "is_data sid f" using "1.prems"(1) d by simp
    then have h: "handle_frame f m = Inr (deliver i m f)"
      using "1.prems"(2) by (simp add: handle_frame_def is_data_def deliver_def)
    have g: "f_type f \<noteq> kTypeGoAway" using f by (simp add: is_data_def kTypeData_def kTypeGoAway_def)
    have "frames_loop r (deliver i m f) = Inr (snd (decode_all decode_frame r),
       foldl (deliver i) (deliver i m f) (fst (decode_all decode_frame r)))"
      using "1.prems" d by (intro "1.IH" [OF Got g]) simp_all
    with Got h g d show ?thesis by (simp add: frames_loop.simps [of b m])
  qed
qed

lemma deliver_inbuf: "mx_objs (foldl (deliver i) (m\<lparr>mx_inbuf := b\<rparr>) fs) = mx_objs (foldl (deliver i) m fs)"
proof -
  have one: "deliver i (m\<lparr>mx_inbuf := b\<rparr>) f = (deliver i m f)\<lparr>mx_inbuf := b\<rparr>" for m f
    by (simp add: deliver_def push_data_def)
  have "foldl (deliver i) (m\<lparr>mx_inbuf := b\<rparr>) fs = (foldl (deliver i) m fs)\<lparr>mx_inbuf := b\<rparr>"
    by (induction fs arbitrary: m) (simp_all add: one)
  then show ?thesis by simp
qed

text \<open>A chunk of data frames for one stream: the whole frames are delivered, the rest waits for more.\<close>

lemma read_step_data:
  assumes "\<not> mx_dead m" "map_of (mx_streams m) sid = Some i" "list_all (is_data sid) fs"
    and "decode_all decode_frame (mx_inbuf m @ c @ x) = (fs, [])"
  obtains gs hs r where "read_step (Some c) m = Inr ((foldl (deliver i) m gs)\<lparr>mx_inbuf := r\<rparr>)"
    and "decode_frame r = Need" "fs = gs @ hs" "decode_all decode_frame (r @ x) = (hs, [])"
proof -
  define gs r where gr: "gs = fst (decode_all decode_frame (mx_inbuf m @ c))"
    "r = snd (decode_all decode_frame (mx_inbuf m @ c))"
  have split: "gs @ fst (decode_all decode_frame (r @ x)) = fs" "snd (decode_all decode_frame (r @ x)) = []"
    using assms(4) yamux.decode_all_append [of "mx_inbuf m @ c" x] by (simp_all add: gr)
  define hs where "hs = fst (decode_all decode_frame (r @ x))"
  have data: "list_all (is_data sid) gs" "list_all (is_data sid) hs"
    using assms(3) split(1) by (auto simp: hs_def)
  have need: "decode_frame r = Need"
  proof (rule ccontr)
    assume "decode_frame r \<noteq> Need"
    then have "decode_frame r = Bad" using yamux.leftover_stuck [of "mx_inbuf m @ c"] by (simp add: gr)
    then have bad: "decode_frame (r @ x) = Bad" by (rule decode_frame_bad)
    then have "snd (decode_all decode_frame (r @ x)) = r @ x"
      by (simp add: decode_all.simps [of decode_frame "r @ x"])
    with split(2) have "r @ x = []" by metis
    with bad decode_frame_Nil show False by (metis decoded.distinct(1))
  qed
  have small: "\<not> kInbufCap < length r"
  proof (cases "decode_frame (r @ x)")
    case (Got f q)
    then have "is_data sid f" using data(2) yamux.decode_all_Got [OF Got] by (simp add: hs_def)
    with need_length [OF need Got] show ?thesis by (simp add: is_data_def kDataFrameCap_def kInbufCap_def)
  qed (use split(2) in \<open>simp_all add: decode_all.simps [of decode_frame "r @ x"] kInbufCap_def\<close>)
  have loop: "frames_loop (mx_inbuf m @ c) m = Inr (r, foldl (deliver i) m gs)"
    using frames_loop_data [of sid "mx_inbuf m @ c" m i] data(1) assms(2) need by (simp add: gr)
  show thesis
  proof (rule that)
    show "read_step (Some c) m = Inr ((foldl (deliver i) m gs)\<lparr>mx_inbuf := r\<rparr>)"
      using loop small assms(1) by (simp add: read_step_def Let_def)
    show "fs = gs @ hs" "decode_all decode_frame (r @ x) = (hs, [])"
      using split by (simp_all add: hs_def prod_eq_iff)
  qed (rule need)
qed

lemma read_all_data:
  "\<not> mx_dead m \<Longrightarrow> map_of (mx_streams m) sid = Some i \<Longrightarrow> list_all (is_data sid) fs \<Longrightarrow>
   decode_all decode_frame (mx_inbuf m @ concat cs) = (fs, []) \<Longrightarrow> decode_frame (mx_inbuf m) = Need \<Longrightarrow>
     \<exists>m'. read_all cs m = Inr m' \<and> \<not> mx_dead m' \<and> mx_inbuf m' = [] \<and>
       mx_objs m' = mx_objs (foldl (deliver i) m fs)"
proof (induction cs arbitrary: m fs)
  case Nil
  then have "fs = []" "mx_inbuf m = []" by (simp_all add: decode_all.simps [of decode_frame "mx_inbuf m"])
  with Nil show ?case by simp
next
  case (Cons c cs)
  have d: "decode_all decode_frame (mx_inbuf m @ c @ concat cs) = (fs, [])" using Cons.prems(4) by simp
  obtain gs hs r where step: "read_step (Some c) m = Inr ((foldl (deliver i) m gs)\<lparr>mx_inbuf := r\<rparr>)"
    and need: "decode_frame r = Need" and split: "fs = gs @ hs" "decode_all decode_frame (r @ concat cs) = (hs, [])"
    by (rule read_step_data [OF Cons.prems(1-3) d])
  let ?m = "(foldl (deliver i) m gs)\<lparr>mx_inbuf := r\<rparr>"
  have "\<exists>m'. read_all cs ?m = Inr m' \<and> \<not> mx_dead m' \<and> mx_inbuf m' = [] \<and>
      mx_objs m' = mx_objs (foldl (deliver i) ?m hs)"
    using Cons.prems(1,2,3) split need by (intro Cons.IH) simp_all
  then obtain m' where m': "read_all cs ?m = Inr m'" "\<not> mx_dead m'" "mx_inbuf m' = []"
    "mx_objs m' = mx_objs (foldl (deliver i) ?m hs)"
    by blast
  have "mx_objs m' = mx_objs (foldl (deliver i) m fs)"
    unfolding m'(4) deliver_inbuf split(1) foldl_append ..
  with step m'(1-3) show ?case by simp
qed

section \<open>Sends that fail under the lock\<close>

lemma send_loop_empty: "bs \<noteq> [] \<Longrightarrow> send_loop [] bs = (False, [], [])"
  by (cases bs) simp_all

lemma encode_ne [simp]: "encode_frame f \<noteq> []"
  by (simp add: encode_frame_def)

lemma close_each_cut:
  "mx_net m = [] \<Longrightarrow>
     (if \<forall>(k, i) \<in> set es. st_closed (mx_objs m ! i)
      then \<exists>m'. close_each es m = Inr m' \<and> mx_joined m' = mx_joined m
      else close_each es m = Inl SelfDeadlock)"
proof (induction es)
  case Nil
  then show ?case by simp
next
  case (Cons e es)
  obtain k i where e: "e = (k, i)" by (cases e)
  show ?case
  proof (cases "st_closed (mx_objs m ! i)")
    case True
    then have "(mx_objs m ! i)\<lparr>st_closed := True\<rparr> = mx_objs m ! i" by (cases "mx_objs m ! i") simp
    then have "(mx_objs m)[i := (mx_objs m ! i)\<lparr>st_closed := True\<rparr>] = mx_objs m" by (metis list_update_id)
    then have "stream_close True i m = Inr m" using True by (simp add: stream_close_def Let_def)
    with Cons True e show ?thesis by simp
  next
    case False
    then have "stream_close True i m = Inl SelfDeadlock"
      using Cons.prems by (simp add: stream_close_def send_frame_def Let_def send_loop_empty)
    with False e show ?thesis by simp
  qed
qed

section \<open>Properties\<close>

text \<open>
  C11. The wire format round-trips: decoding the concatenation of encoded frames gives back exactly these
  frames, with nothing left over.
\<close>

theorem frames_roundtrip:
  assumes "list_all frame_valid fs"
  shows "decode_all decode_frame (concat (map encode_frame fs)) = (fs, [])"
  using assms by (rule yamux.decode_all_encoded)

theorem frames_roundtrip_witness:
  "decode_all decode_frame (concat (map encode_frame [data_frame 1 [7, 8], control_frame 1 1 3])) =
     ([data_frame 1 [7, 8], control_frame 1 1 3], [])"
  by (rule frames_roundtrip) (simp add: frame_valid_def data_frame_def control_frame_def)

text \<open>
  C10. End to end: when write() succeeds, the peer's reader appends exactly the written bytes to
  the buffer of the stream, in order, however the network cuts the byte stream into pieces,
  and the peer's session stays alive.
\<close>

theorem write_reaches_peer:
  assumes "stream_write i d m = Inr (True, m')" and "mx_out m = []"
    and "\<not> mx_dead p" and "mx_inbuf p = []"
    and "map_of (mx_streams p) (st_id (mx_objs m ! i)) = Some j" and "j < length (mx_objs p)"
    and "concat cs = mx_out m'"
  shows "\<exists>p'. read_all cs p = Inr p' \<and> \<not> mx_dead p' \<and> mx_inbuf p' = [] \<and>
    st_buffer (mx_objs p' ! j) = st_buffer (mx_objs p ! j) @ d"
proof -
  let ?sid = "st_id (mx_objs m ! i)"
  define fs where "fs = data_frames ?sid d"
  have fs: "list_all (is_data ?sid) fs" "concat (map f_payload fs) = d"
    by (simp_all add: fs_def data_frames_are data_frames_payloads)
  have "concat cs = concat (map encode_frame fs)"
    using stream_write_out [OF assms(1)] assms(2,7) by (simp add: fs_def)
  moreover have "list_all frame_valid fs" using fs(1) is_data_valid by (auto simp: list_all_iff)
  ultimately have "decode_all decode_frame (mx_inbuf p @ concat cs) = (fs, [])"
    using yamux.decode_all_encoded assms(4) by simp
  from read_all_data [OF assms(3,5) fs(1) this] assms(4) show ?thesis
    using deliver_buffer [OF assms(6)] fs(2) by (auto simp: decode_frame_Nil)
qed

definition one_stream :: "int list \<Rightarrow> mux" where
  "one_stream net = (mux_init True net)\<lparr>mx_objs := [\<lparr>st_id = 1, st_buffer = [], st_closed = False\<rparr>],
     mx_streams := [(1, 0)]\<rparr>"

theorem write_reaches_peer_witness:
  "\<exists>m' p'. stream_write 0 [5, 6] (one_stream [3, 100]) = Inr (True, m') \<and>
     read_all [take 4 (mx_out m'), drop 4 (mx_out m')] (one_stream []) = Inr p' \<and>
     st_buffer (mx_objs p' ! 0) = [5, 6]"
proof -
  obtain m' where w: "stream_write 0 [5, 6] (one_stream [3, 100]) = Inr (True, m')"
    by (simp add: stream_write.simps [of 0 "[5, 6]"] one_stream_def mux_init_def send_frame_def data_frame_def
        encode_frame_def put_u16_def put_u32_def kDataFrameCap_def Let_def)
  have "concat [take 4 (mx_out m'), drop 4 (mx_out m')] = mx_out m'" by simp
  from write_reaches_peer [OF w, of "one_stream []" 0, OF _ _ _ _ _ this] w show ?thesis
    by (auto simp: one_stream_def mux_init_def)
qed

text \<open>
  C12. What the destructor of a session does: it ends the process when the connection has already
  died (close() returns early and the reader thread is never joined), it locks its mutex
  twice when a stream is still open (the FIN cannot be sent after shutdown() and send_frame()
  locks mu_, which close() holds), and it returns only otherwise.
\<close>

theorem mux_destroy_outcome:
  "(mx_dead m \<and> \<not> mx_joined m \<longrightarrow> mux_destroy m = Inl Terminates) \<and>
   (\<not> mx_dead m \<and> (\<exists>(k, i) \<in> set (mx_streams m). \<not> st_closed (mx_objs m ! i)) \<longrightarrow>
      mux_destroy m = Inl SelfDeadlock) \<and>
   (\<not> mx_dead m \<and> (\<forall>(k, i) \<in> set (mx_streams m). st_closed (mx_objs m ! i)) \<longrightarrow>
      (\<exists>m'. mux_destroy m = Inr m'))"
proof -
  let ?m = "m\<lparr>mx_dead := True, mx_net := [], mx_joined := True\<rparr>"
  have "if \<forall>(k, i) \<in> set (mx_streams m). st_closed (mx_objs m ! i)
      then \<exists>m'. close_each (mx_streams m) ?m = Inr m' \<and> mx_joined m'
      else close_each (mx_streams m) ?m = Inl SelfDeadlock"
    using close_each_cut [of ?m "mx_streams m"] by (auto split: if_splits)
  then show ?thesis by (auto simp: mux_destroy_def mux_close_def split: if_splits)
qed

theorem mux_destroy_outcome_witness:
  "mux_destroy (one_stream [100]) = Inl SelfDeadlock"
  using mux_destroy_outcome [of "one_stream [100]"] by (simp add: one_stream_def mux_init_def)

text \<open>
  open_stream() sends its SYN while it holds mu_: it locks mu_ a second time exactly when the
  connection does not take the whole frame, instead of reporting a dead session.
\<close>

theorem open_stream_deadlock_iff:
  "open_stream m = Inl SelfDeadlock \<longleftrightarrow>
     \<not> fst (send_loop (mx_net m) (encode_frame (control_frame kTypeWindowUpdate kFlagSyn (mx_next m))))"
  by (simp add: open_stream_def send_frame_def add_stream_def Let_def split: prod.split)

text \<open>
  Two streams that are opened before the first is accepted: the second one enters the table but
  never the accept slot, so accept_stream() delivers the first and then waits forever while the
  peer has been acknowledged.
\<close>

theorem second_syn_never_accepted:
  assumes "\<not> mx_dead m" and "mx_pending m = Some i"
    and "handle_frame (control_frame kTypeWindowUpdate kFlagSyn sid) m = Inr m1"
  shows "\<exists>m2. accept_poll m1 = (Accepted i, m2) \<and> accept_poll m2 = (Waiting, m2) \<and>
    map_of (mx_streams m2) sid = Some (length (mx_objs m))"
proof -
  have m1: "\<not> mx_dead m1" "mx_pending m1 = Some i" "map_of (mx_streams m1) sid = Some (length (mx_objs m))"
    using assms
    by (auto simp: handle_frame_def control_frame_def kTypeWindowUpdate_def kTypeData_def kFlagSyn_def
        add_stream_def Let_def send_frame_def split: prod.splits if_splits)
  then show ?thesis by (simp add: accept_poll_def)
qed

theorem second_syn_never_accepted_witness:
  "\<exists>m1 m2. handle_frame (control_frame kTypeWindowUpdate kFlagSyn 3) ((one_stream [100])\<lparr>mx_pending := Some 0\<rparr>) = Inr m1 \<and>
     accept_poll m1 = (Accepted 0, m2) \<and> accept_poll m2 = (Waiting, m2)"
proof -
  let ?m = "(one_stream [100])\<lparr>mx_pending := Some 0\<rparr>"
  obtain m1 where h: "handle_frame (control_frame kTypeWindowUpdate kFlagSyn 3) ?m = Inr m1"
    by (simp add: handle_frame_def control_frame_def kTypeWindowUpdate_def kTypeData_def kFlagSyn_def
        add_stream_def Let_def send_frame_def one_stream_def mux_init_def encode_frame_def put_u16_def put_u32_def)
  have "\<not> mx_dead ?m" "mx_pending ?m = Some 0" by (simp_all add: one_stream_def mux_init_def)
  from second_syn_never_accepted [OF this h] h show ?thesis by blast
qed

text \<open>
  When the connection dies the streams are not closed: a reader of an open stream without
  buffered bytes polls forever, whatever else arrives.
\<close>

theorem dead_session_blocks_readers:
  assumes "\<not> mx_dead m" and "\<not> st_closed (mx_objs m ! i)" and "st_buffer (mx_objs m ! i) = []"
  shows "\<exists>m'. read_step None m = Inr m' \<and> (\<forall>cs. read_all cs m' = Inr m') \<and> read_poll i len m' = None"
proof -
  have "read_all cs (m\<lparr>mx_dead := True\<rparr>) = Inr (m\<lparr>mx_dead := True\<rparr>)" for cs
    by (induction cs) (simp_all add: read_step_def)
  then show ?thesis using assms by (simp add: read_step_def read_poll_def Let_def)
qed

theorem dead_session_blocks_readers_witness:
  "\<exists>m'. read_step None (one_stream []) = Inr m' \<and> read_poll 0 4096 m' = None"
  using dead_session_blocks_readers [of "one_stream []" 0 4096] by (auto simp: one_stream_def mux_init_def)

end
