(* ===== verification/Relay.thy ===== *)
theory Relay
  imports Yamux
begin

text \<open>
  tunnel/relay.cpp (the public server) and tunnel/client.cpp (the tunnel on the origin): the
  registry of hostnames, the hello line and its answer, the routing of a public request by its
  Host header, and what the client does with a stream and with a lost connection.

  Sockets are not part of the model: what a recv() loop reads is a list (its end is a result of
  0 or less), and the sessions are those of \<open>Yamux\<close>.
\<close>

section \<open>The registry\<close>

record registry =
  g_hosts :: "(string \<times> int) list"
  g_origin_hosts :: "(int \<times> string list) list"

definition registry_init :: registry where
  "registry_init = \<lparr>g_hosts = [], g_origin_hosts = []\<rparr>"

definition register_host :: "string \<Rightarrow> int \<Rightarrow> registry \<Rightarrow> bool \<times> registry" where
  "register_host host fd r =
     (case map_of (g_hosts r) host of
        Some _ \<Rightarrow> (False, r)
      | None \<Rightarrow>
          (True, \<lparr>g_hosts = put_entry host fd (g_hosts r),
                  g_origin_hosts = put_entry fd
                    (List.insert host (case map_of (g_origin_hosts r) fd of Some hs \<Rightarrow> hs | None \<Rightarrow> []))
                    (g_origin_hosts r)\<rparr>))"

definition unregister_fd :: "int \<Rightarrow> registry \<Rightarrow> registry" where
  "unregister_fd fd r =
     (case map_of (g_origin_hosts r) fd of
        None \<Rightarrow> r
      | Some hs \<Rightarrow> \<lparr>g_hosts = fold drop_key hs (g_hosts r), g_origin_hosts = drop_key fd (g_origin_hosts r)\<rparr>)"

definition find_origin :: "string \<Rightarrow> registry \<Rightarrow> int" where
  "find_origin host r = (case map_of (g_hosts r) host of Some fd \<Rightarrow> fd | None \<Rightarrow> - 1)"

section \<open>The control line\<close>

text \<open>A line read byte by byte: carriage returns are dropped, more than 4096 characters are refused.\<close>

fun read_ctl_line :: "string \<Rightarrow> string \<Rightarrow> (string \<times> string) option" where
  "read_ctl_line line [] = None"
| "read_ctl_line line (c # cs) =
     (if c = nl then Some (line, cs)
      else let line' = (if c \<noteq> cr then line @ [c] else line)
           in if 4096 < length line' then None else read_ctl_line line' cs)"

datatype hello = BadHello | Hello string string

definition parse_hello :: "string \<Rightarrow> hello" where
  "parse_hello line =
     (if \<not> starts_with ''HSTLY1 '' line then BadHello
      else case find_char_at (CHR '' '') line 7 of
             None \<Rightarrow> BadHello
           | Some sp \<Rightarrow>
               if sp = 7 then BadHello
               else Hello (substr line 7 (sp - 7)) (drop (sp + 1) line))"

definition host_char :: "char \<Rightarrow> bool" where
  "host_char c \<longleftrightarrow> is_alnum c \<or> c = CHR ''.'' \<or> c = CHR ''-''"

text \<open>The answer of origin_thread() to a hello line; a session is run only after OK.\<close>

definition answer_hello :: "string option \<Rightarrow> string \<Rightarrow> int \<Rightarrow> registry \<Rightarrow> string \<times> bool \<times> registry" where
  "answer_hello want line fd r =
     (case parse_hello line of
        BadHello \<Rightarrow> (''ERR bad-hello'' @ [nl], False, r)
      | Hello token host \<Rightarrow>
          if (case want of None \<Rightarrow> True | Some w \<Rightarrow> w = [] \<or> token \<noteq> w)
          then (''ERR bad-token'' @ [nl], False, r)
          else if \<not> list_all host_char host then (''ERR bad-hostname'' @ [nl], False, r)
          else (case register_host host fd r of
                  (False, r') \<Rightarrow> (''ERR hostname-in-use'' @ [nl], False, r')
                | (True, r') \<Rightarrow> (''OK '' @ host @ [nl], True, r')))"

section \<open>Public requests\<close>

definition crlf :: string where
  "crlf = [cr, nl]"

text \<open>The request head: up to an empty line, 64 KiB or the end of the connection.\<close>

fun read_head :: "string \<Rightarrow> string \<Rightarrow> string" where
  "read_head buf [] = buf"
| "read_head buf (c # cs) =
     (if contains_str (crlf @ crlf) buf \<or> 64 * 1024 \<le> length buf then buf
      else read_head (buf @ [c]) cs)"

definition find_str_at :: "string \<Rightarrow> string \<Rightarrow> nat \<Rightarrow> nat option" where
  "find_str_at pat s from = map_option (\<lambda>i. i + from) (find_str pat (drop from s))"

definition host_of_head :: "string \<Rightarrow> string" where
  "host_of_head buf =
     (case (case find_str (crlf @ ''Host:'') buf of
              Some h \<Rightarrow> Some h
            | None \<Rightarrow> find_str (crlf @ ''host:'') buf) of
        None \<Rightarrow> []
      | Some h \<Rightarrow>
          let s = h + 7 + length (takeWhile (\<lambda>c. c = CHR '' '') (drop (h + 7) buf));
              value = (case find_str_at crlf buf s of
                         Some e \<Rightarrow> substr buf s (e - s)
                       | None \<Rightarrow> drop s buf)
          in case rfind_char (CHR '':'') value of
               Some colon \<Rightarrow> take colon value
             | None \<Rightarrow> value)"

definition public_host :: "string \<Rightarrow> string option" where
  "public_host buf = (let h = host_of_head buf in if h = [] then None else Some (lc h))"

definition bytes_of :: "string \<Rightarrow> byte list" where
  "bytes_of s = map of_char s"

definition text_of :: "byte list \<Rightarrow> string" where
  "text_of bs = map (\<lambda>b. char_of (unat b)) bs"

record relay =
  rl_registry :: registry
  rl_muxes :: "(int \<times> mux) list"

datatype served = NotFound | BadGateway | Streaming int nat

definition dst_line :: "string \<Rightarrow> int \<Rightarrow> string" where
  "dst_line host port = host @ '':'' @ string_of_int port @ [nl]"

text \<open>serve_public() up to its pump: the session of the host, the destination line and the head.\<close>

definition serve_public :: "string \<Rightarrow> int \<Rightarrow> string \<Rightarrow> relay \<Rightarrow> (served \<times> relay) or_ub" where
  "serve_public host port head r =
     (let ofd = find_origin host (rl_registry r)
      in case map_of (rl_muxes r) ofd of
           None \<Rightarrow> Inr (BadGateway, r)
         | Some m \<Rightarrow>
             if mx_dead m then Inr (BadGateway, r)
             else and_then (open_stream m) (\<lambda>(i, m1).
                  and_then (stream_write i (bytes_of (dst_line host port)) m1) (\<lambda>(ok1, m2).
                  and_then (if head \<noteq> [] then stream_write i (bytes_of head) m2 else Inr (True, m2)) (\<lambda>(ok2, m3).
                    Inr (Streaming ofd i, r\<lparr>rl_muxes := put_entry ofd m3 (rl_muxes r)\<rparr>)))))"

definition public_conn :: "string \<Rightarrow> int \<Rightarrow> relay \<Rightarrow> (served \<times> relay) or_ub" where
  "public_conn input port r =
     (let buf = read_head [] input
      in case public_host buf of
           None \<Rightarrow> Inr (NotFound, r)
         | Some host \<Rightarrow> serve_public host port buf r)"

text \<open>
  The life of a registered origin: its session is put into the table, and when it has ended the
  hosts go, the socket is closed and the session object is destroyed.
\<close>

definition origin_up :: "int \<Rightarrow> mux \<Rightarrow> relay \<Rightarrow> relay" where
  "origin_up fd m r = r\<lparr>rl_muxes := put_entry fd m (rl_muxes r)\<rparr>"

definition origin_down :: "int \<Rightarrow> mux \<Rightarrow> relay \<Rightarrow> relay or_ub" where
  "origin_down fd m r =
     and_then (mux_destroy m) (\<lambda>m'.
       Inr (r\<lparr>rl_registry := unregister_fd fd (rl_registry r), rl_muxes := put_entry fd m' (rl_muxes r)\<rparr>))"

section \<open>The tunnel client\<close>

record tunnel_options =
  to_token :: string
  to_hostname :: string
  to_local_host :: string
  to_local_port :: int
  to_port_set :: bool

definition hello_line :: "tunnel_options \<Rightarrow> string" where
  "hello_line opts = ''HSTLY1 '' @ to_token opts @ '' '' @ to_hostname opts @ [nl]"

text \<open>The first line of a stream, one byte at a time, cut after 513 characters.\<close>

fun read_dst :: "string \<Rightarrow> string \<Rightarrow> string \<times> string" where
  "read_dst dst [] = (dst, [])"
| "read_dst dst (b # bs) =
     (if b = nl then (dst, bs)
      else if 512 < length (dst @ [b]) then (dst @ [b], bs)
      else read_dst (dst @ [b]) bs)"

definition upstream_of :: "tunnel_options \<Rightarrow> string \<Rightarrow> string \<times> int" where
  "upstream_of opts dst =
     (to_local_host opts,
      case rfind_char (CHR '':'') dst of
        None \<Rightarrow> to_local_port opts
      | Some colon \<Rightarrow>
          if to_port_set opts then to_local_port opts
          else case stoi (drop (colon + 1) dst) of Some p \<Rightarrow> p | None \<Rightarrow> to_local_port opts)"

text \<open>
  One round of the loop of tunnel_run(): the connection, the hello, the relay's reply, and the
  state of the session when the accept loop ends; then the session object is destroyed.
\<close>

datatype round_end = Unreachable | SendFailed | Rejected | SessionOver

definition tunnel_round :: "bool \<Rightarrow> bool \<Rightarrow> string \<Rightarrow> mux \<Rightarrow> round_end or_ub" where
  "tunnel_round connected sent reply_bytes session =
     (if \<not> connected then Inr Unreachable
      else if \<not> sent then Inr SendFailed
      else case read_ctl_line [] reply_bytes of
             None \<Rightarrow> Inr Rejected
           | Some (reply, rest) \<Rightarrow>
               if \<not> starts_with ''OK'' reply then Inr Rejected
               else and_then (mux_destroy session) (\<lambda>m. Inr SessionOver))"

section \<open>The registry as a partial map\<close>

definition owner :: "registry \<Rightarrow> string \<Rightarrow> int option" where
  "owner r = map_of (g_hosts r)"

text \<open>Both tables hold the same pairs.\<close>

definition registry_ok :: "registry \<Rightarrow> bool" where
  "registry_ok r \<longleftrightarrow>
     (\<forall>h fd. owner r h = Some fd \<longleftrightarrow> (\<exists>hs. map_of (g_origin_hosts r) fd = Some hs \<and> h \<in> set hs))"

datatype registry_event = Register string int | Unregister int

fun registry_step :: "registry \<Rightarrow> registry_event \<Rightarrow> registry" where
  "registry_step r (Register h fd) = snd (register_host h fd r)"
| "registry_step r (Unregister fd) = unregister_fd fd r"

lemma map_of_fold_drop: "map_of (fold drop_key hs kvs) x = (if x \<in> set hs then None else map_of kvs x)"
  by (induction hs arbitrary: kvs) (auto simp: map_of_drop_key)

lemma owner_register:
  "owner (snd (register_host h fd r)) = (if h \<in> dom (owner r) then owner r else (owner r)(h \<mapsto> fd))"
  by (auto simp: owner_def register_host_def split: option.splits)

lemma owner_unregister:
  "registry_ok r \<Longrightarrow> owner (unregister_fd fd r) = (\<lambda>h. if owner r h = Some fd then None else owner r h)"
  by (rule ext) (auto simp: owner_def unregister_fd_def registry_ok_def map_of_fold_drop split: option.splits)

lemma registry_ok_register: "registry_ok r \<Longrightarrow> registry_ok (snd (register_host h fd r))"
  unfolding registry_ok_def owner_register
  by (auto simp: register_host_def owner_def domIff split: option.splits) (metis option.distinct(1))+

lemma registry_ok_unregister: "registry_ok r \<Longrightarrow> registry_ok (unregister_fd fd r)"
proof -
  assume ok: "registry_ok r"
  have "owner (unregister_fd fd r) h = Some fd' \<longleftrightarrow> fd' \<noteq> fd \<and> owner r h = Some fd'" for h fd'
    using owner_unregister [OF ok] by auto
  moreover have "map_of (g_origin_hosts (unregister_fd fd r)) fd' =
      (if fd' = fd then None else map_of (g_origin_hosts r) fd')" for fd'
    by (auto simp: unregister_fd_def map_of_drop_key split: option.splits)
  ultimately show ?thesis using ok by (auto simp: registry_ok_def)
qed

interpretation relay_registry: machine registry_step registry_ok
proof
  fix r e
  show "registry_ok r \<Longrightarrow> registry_ok (registry_step r e)"
    by (cases e) (simp_all add: registry_ok_register registry_ok_unregister)
qed

lemma registry_ok_init: "registry_ok registry_init"
  by (simp add: registry_ok_def registry_init_def owner_def)

section \<open>Lines\<close>

lemma read_ctl_line_plain:
  "nl \<notin> set l \<Longrightarrow> cr \<notin> set l \<Longrightarrow> length acc + length l \<le> 4096 \<Longrightarrow>
     read_ctl_line acc (l @ nl # rest) = Some (acc @ l, rest)"
  by (induction l arbitrary: acc) auto

lemma read_dst_plain:
  "nl \<notin> set l \<Longrightarrow> length acc + length l \<le> 512 \<Longrightarrow> read_dst acc (l @ nl # rest) = (acc @ l, rest)"
  by (induction l arbitrary: acc) auto

lemma host_char_plain: "host_char c \<Longrightarrow> c \<noteq> nl \<and> c \<noteq> cr \<and> c \<noteq> CHR '' ''"
  by (auto simp: host_char_def is_alnum_def is_digit_def is_upper_def is_lower_def)

lemma parse_hello_line:
  assumes "CHR '' '' \<notin> set token" and "token \<noteq> []"
  shows "parse_hello (''HSTLY1 '' @ token @ '' '' @ host) = Hello token host"
proof -
  let ?l = "''HSTLY1 '' @ token @ '' '' @ host"
  have d: "drop 7 ?l = token @ '' '' @ host" by simp
  have "find_char (CHR '' '') (token @ '' '' @ host) = Some (length token)"
    unfolding find_char_def using assms(1)
    by (simp only: append_Cons append_Nil) (rule index_of_append_first, auto)
  then have "find_char_at (CHR '' '') ?l 7 = Some (length token + 7)"
    unfolding find_char_at_def d by simp
  moreover have "drop (length token + 7 + 1) ?l = host"
  proof -
    have "drop (length token + 7 + 1) ?l = drop (length token + 1) (drop 7 ?l)"
      by (simp only: drop_drop ac_simps)
    then show ?thesis unfolding d by simp
  qed
  moreover have "substr ?l 7 (length token) = token" unfolding substr_def d by simp
  ultimately show ?thesis using assms(2) by (simp add: parse_hello_def starts_with_def)
qed

section \<open>Properties\<close>

text \<open>
  C13. The two tables of the relay implement one partial map from hostnames to connections: over every
  run of registrations and disconnections, a registration succeeds exactly for a free name and
  adds it, and a disconnection removes exactly the names of its connection.
\<close>

theorem registry_refines_map:
  "let r = foldl registry_step registry_init es in
     fst (register_host h fd r) = (owner r h = None) \<and>
     owner (snd (register_host h fd r)) = (if owner r h = None then (owner r)(h \<mapsto> fd) else owner r) \<and>
     owner (unregister_fd fd r) = (\<lambda>x. if owner r x = Some fd then None else owner r x)"
proof -
  define r where "r = foldl registry_step registry_init es"
  have "registry_ok r" unfolding r_def by (rule relay_registry.run_inv) (rule registry_ok_init)
  moreover have "fst (register_host h fd r) = (owner r h = None)"
    by (simp add: register_host_def owner_def split: option.split)
  ultimately show ?thesis
    using owner_register [of h fd r] owner_unregister [of r fd] by (auto simp: r_def [symmetric] domIff)
qed

text \<open>
  The hello of a tunnel client is accepted by the relay that shares its token: the relay reads
  the line back, registers the name for the connection, and answers with OK - for a token
  without spaces or line ends and a free name of hostname characters.
\<close>

theorem hello_accepted:
  assumes "to_token opts \<noteq> []" and "\<forall>c \<in> set (to_token opts). c \<noteq> CHR '' '' \<and> c \<noteq> nl \<and> c \<noteq> cr"
    and "list_all host_char (to_hostname opts)"
    and "length (to_token opts) + length (to_hostname opts) \<le> 4088"
    and "owner r (to_hostname opts) = None"
  shows "\<exists>line r'. read_ctl_line [] (hello_line opts @ rest) = Some (line, rest) \<and>
    answer_hello (Some (to_token opts)) line fd r = (''OK '' @ to_hostname opts @ [nl], True, r') \<and>
    owner r' = (owner r)(to_hostname opts \<mapsto> fd)"
proof -
  let ?line = "''HSTLY1 '' @ to_token opts @ '' '' @ to_hostname opts"
  have "nl \<notin> set ?line" "cr \<notin> set ?line" "length ([] :: string) + length ?line \<le> 4096"
    using assms host_char_plain by (auto simp: list_all_iff)
  from read_ctl_line_plain [OF this, of rest]
  have "read_ctl_line [] (hello_line opts @ rest) = Some (?line, rest)" by (simp add: hello_line_def)
  moreover have "parse_hello ?line = Hello (to_token opts) (to_hostname opts)"
    using assms(1,2) by (intro parse_hello_line) auto
  moreover obtain r' where "register_host (to_hostname opts) fd r = (True, r')"
    "owner r' = (owner r)(to_hostname opts \<mapsto> fd)"
    using assms(5) owner_register [of "to_hostname opts" fd r]
    by (cases "register_host (to_hostname opts) fd r") (auto simp: register_host_def owner_def domIff)
  ultimately show ?thesis
    using assms(1,3) by (auto simp: answer_hello_def)
qed

theorem hello_accepted_witness:
  "\<exists>line r'. read_ctl_line [] (hello_line \<lparr>to_token = ''t0k'', to_hostname = ''app.example'',
       to_local_host = [], to_local_port = 80, to_port_set = False\<rparr> @ ''x'') = Some (line, ''x'') \<and>
     answer_hello (Some ''t0k'') line 5 registry_init = (''OK app.example'' @ [nl], True, r')"
  using hello_accepted [of "\<lparr>to_token = ''t0k'', to_hostname = ''app.example'',
       to_local_host = [], to_local_port = 80, to_port_set = False\<rparr>" registry_init "''x''" 5]
  by (auto simp: registry_init_def owner_def host_char_def is_alnum_def is_lower_def is_digit_def is_upper_def)

text \<open>
  A hostname registered with an upper-case letter is never served: the Host header of a request
  is lower-cased before the lookup, the registered name is not.
\<close>

theorem registered_uppercase_unreachable:
  assumes "lc h \<noteq> h"
  shows "public_host buf \<noteq> Some h"
  using assms lc_idem by (auto simp: public_host_def Let_def)

theorem registered_uppercase_unreachable_witness:
  "public_host (''GET / HTTP/1.1'' @ crlf @ ''Host: App.example'' @ crlf @ crlf) \<noteq> Some ''App.example''"
proof (rule registered_uppercase_unreachable)
  show "lc ''App.example'' \<noteq> ''App.example''" by code_simp
qed

text \<open>
  The destination line the relay puts at the front of a stream is what the tunnel client takes
  off: the rest of the stream is left untouched for the local connection, which goes to the
  relay's port unless a local port was set.
\<close>

theorem dst_line_roundtrip:
  assumes "nl \<notin> set host" and "length (dst_line host port) \<le> 513"
    and "- (2 ^ 31) \<le> port" and "port < 2 ^ 31"
  shows "\<exists>dst. read_dst [] (dst_line host port @ rest) = (dst, rest) \<and>
    upstream_of opts dst = (to_local_host opts, if to_port_set opts then to_local_port opts else port)"
proof -
  let ?p = "string_of_int port" and ?dst = "host @ '':'' @ string_of_int port"
  have digits: "c \<in> set ?p \<Longrightarrow> is_digit c \<or> c = CHR ''-''" for c
    by (auto simp: string_of_int_def digits_of_digits split: if_splits)
  have "\<not> is_digit nl" "\<not> is_digit (CHR '':'')" by (simp_all add: is_digit_def)
  with digits have p: "nl \<notin> set ?p" "CHR '':'' \<notin> set ?p" by fastforce+
  have "read_dst [] (?dst @ nl # rest) = (?dst, rest)"
    using assms(1,2) p read_dst_plain [of ?dst "[]" rest] by (auto simp: dst_line_def)
  moreover have "rfind_char (CHR '':'') ?dst = Some (length host)"
    unfolding rfind_char_def using p(2)
    by (simp only: append_Cons append_Nil) (rule last_index_of_append_last, auto)
  ultimately show ?thesis
    using assms(3,4) by (simp add: dst_line_def upstream_of_def stoi_string_of_int)
qed

theorem dst_line_roundtrip_witness:
  "\<exists>dst. read_dst [] (dst_line ''app.example'' 8080 @ ''GET'') = (dst, ''GET'') \<and>
     upstream_of \<lparr>to_token = [], to_hostname = [], to_local_host = ''127.0.0.1'', to_local_port = 80,
       to_port_set = False\<rparr> dst = (''127.0.0.1'', 8080)"
proof -
  have "length (dst_line ''app.example'' 8080) \<le> 513"
    by (simp add: dst_line_def string_of_int_def digits_of.simps)
  from dst_line_roundtrip [OF _ this, of "''GET''" "\<lparr>to_token = [], to_hostname = [],
      to_local_host = ''127.0.0.1'', to_local_port = 80, to_port_set = False\<rparr>"]
  show ?thesis by simp
qed

text \<open>
  A lost connection ends the process on both sides: the client's loop never reaches its
  reconnect, and the relay goes down with the first origin that disconnects, because the
  session object is destroyed with its reader thread unjoined.
\<close>

theorem lost_connection_terminates:
  assumes "mx_dead m" and "\<not> mx_joined m"
  shows "origin_down fd m r = Inl Terminates \<and>
    (\<forall>reply rest. read_ctl_line [] reply_bytes = Some (reply, rest) \<longrightarrow> starts_with ''OK'' reply \<longrightarrow>
       tunnel_round True True reply_bytes m = Inl Terminates)"
  using assms by (simp add: origin_down_def tunnel_round_def mux_destroy_def mux_close_def)

theorem lost_connection_terminates_witness:
  "\<exists>m. read_step None (mux_init True []) = Inr m \<and> tunnel_round True True (''OK a'' @ [nl]) m = Inl Terminates"
proof -
  let ?m = "(mux_init True [])\<lparr>mx_dead := True\<rparr>"
  have "read_step None (mux_init True []) = Inr ?m" by (simp add: read_step_def mux_init_def)
  moreover have "read_ctl_line [] (''OK a'' @ [nl]) = Some (''OK a'', [])" by code_simp
  moreover have "mx_dead ?m" "\<not> mx_joined ?m" by (simp_all add: mux_init_def)
  ultimately show ?thesis
    using lost_connection_terminates [of ?m 0 undefined "''OK a'' @ [nl]"] by (auto simp: starts_with_def)
qed

end
