(* ===== verification/Compose.thy ===== *)
theory Compose
  imports Prelude
begin

text \<open>
  apps/compose.hpp and apps/compose.cpp: the line reader, the parser of the YAML subset, the
  interpolation of variables, the normalisation of services, load_compose() and
  find_compose_file().

  The parser is recursive over the lines not yet consumed (the source's pos); its recursion
  is bounded by fuel, and \<open>parse_never_out_of_fuel\<close> shows the bound is enough for every input.
  The file system and the process environment are arguments.
\<close>

section \<open>Scalars and lines\<close>

text \<open>The scan of strip_comment(): inside single or double quotes, and whether a comment may start.\<close>

fun strip_scan :: "bool \<Rightarrow> bool \<Rightarrow> bool \<Rightarrow> string \<Rightarrow> string" where
  "strip_scan in_s in_d start [] = []"
| "strip_scan in_s in_d start (c # cs) =
     (if c = squote \<and> \<not> in_d then c # strip_scan (\<not> in_s) in_d (is_space c) cs
      else if c = dquote \<and> \<not> in_s then c # strip_scan in_s (\<not> in_d) (is_space c) cs
      else if c = CHR ''#'' \<and> \<not> in_s \<and> \<not> in_d \<and> start then []
      else c # strip_scan in_s in_d (is_space c) cs)"

definition strip_comment :: "string \<Rightarrow> string" where
  "strip_comment s = strip_scan False False True s"

definition trim :: "string \<Rightarrow> string" where
  "trim s = rtrim (ltrim s)"

fun collapse_quotes :: "string \<Rightarrow> string" where
  "collapse_quotes (a # b # cs) =
     (if a = b \<and> (a = squote \<or> a = dquote) then a # collapse_quotes cs else a # collapse_quotes (b # cs))"
| "collapse_quotes cs = cs"

definition unquote :: "string \<Rightarrow> string" where
  "unquote s =
     (if 2 \<le> length s \<and> (hd s = dquote \<and> last s = dquote \<or> hd s = squote \<and> last s = squote)
      then collapse_quotes (substr s 1 (length s - 2)) else s)"

record line =
  indent :: nat
  line_text :: string

definition leading_spaces :: "string \<Rightarrow> nat" where
  "leading_spaces raw = length (takeWhile (\<lambda>c. c = CHR '' '') raw)"

abbreviation tab :: char where "tab \<equiv> CHR 0x09"

definition tab_in_indent :: "string \<Rightarrow> bool" where
  "tab_in_indent raw =
     (case find_char tab raw of None \<Rightarrow> False | Some i \<Rightarrow> i < leading_spaces raw)"

fun read_raw_lines :: "string \<Rightarrow> string list \<Rightarrow> line list or_throw" where
  "read_raw_lines path [] = Inr []"
| "read_raw_lines path (raw # raws) =
     (let s = trim (strip_comment raw)
      in if s = [] \<or> s = ''---'' \<or> s = ''...'' then read_raw_lines path raws
         else if starts_with ''&'' s \<or> starts_with ''*'' s \<or> starts_with ''<<:'' s
         then Inl (''unsupported YAML feature (anchors/aliases) in '' @ path)
         else if tab_in_indent raw
         then Inl (''tabs are not valid YAML indentation in '' @ path)
         else and_then (read_raw_lines path raws) (\<lambda>ls.
                Inr (\<lparr>indent = leading_spaces raw, line_text = s\<rparr> # ls)))"

definition read_lines :: "(string \<Rightarrow> string option) \<Rightarrow> string \<Rightarrow> line list or_throw" where
  "read_lines fs path =
     (case fs path of
        None \<Rightarrow> Inl (''cannot open '' @ path)
      | Some content \<Rightarrow> read_raw_lines path (lines_of content))"

section \<open>The parser\<close>

datatype node = Scalar string | MapNode "(string \<times> node) list" | SeqNode "node list"

definition is_dash :: "string \<Rightarrow> bool" where
  "is_dash t \<longleftrightarrow> starts_with ''- '' t \<or> t = ''-''"

text \<open>The first colon outside quotes that ends the text or is followed by a space.\<close>

fun split_scan :: "bool \<Rightarrow> bool \<Rightarrow> nat \<Rightarrow> string \<Rightarrow> nat option" where
  "split_scan in_s in_d i [] = None"
| "split_scan in_s in_d i (c # cs) =
     (if c = squote \<and> \<not> in_d then split_scan (\<not> in_s) in_d (Suc i) cs
      else if c = dquote \<and> \<not> in_s then split_scan in_s (\<not> in_d) (Suc i) cs
      else if c = CHR '':'' \<and> \<not> in_s \<and> \<not> in_d \<and> (cs = [] \<or> hd cs = CHR '' '') then Some i
      else split_scan in_s in_d (Suc i) cs)"

text \<open>Whether the current line is taken for the nested block of a key without a value.\<close>

definition looks_nested :: "line \<Rightarrow> bool" where
  "looks_nested l \<longleftrightarrow> 0 < indent l \<and>
     (is_dash (line_text l) \<or> contains_str '': '' (line_text l) \<or>
      (line_text l \<noteq> [] \<and> last (line_text l) = CHR '':''))"

definition is_inline_item :: "string \<Rightarrow> bool" where
  "is_inline_item rest \<longleftrightarrow> contains_str '': '' rest \<or> (1 < length rest \<and> last rest = CHR '':'')"

text \<open>
  The functions of struct Parser call each other: a job is a call with its accumulated result, each
  function is a definition over the calls it makes (\<open>call\<close>), and \<open>run_parser\<close> ties them together.
  A failure is the message thrown, or None when the fuel has run out.
\<close>

datatype job =
    Block nat
  | SeqFrom nat "node list"
  | KvInto "(string \<times> node) list" string
  | Siblings nat "(string \<times> node) list"
  | MapFrom nat "(string \<times> node) list"

type_synonym parsed = "string option + (node \<times> line list)"

fun map_fields :: "node \<Rightarrow> (string \<times> node) list" where
  "map_fields (MapNode m) = m"
| "map_fields _ = []"

definition parse_block :: "(job \<Rightarrow> line list \<Rightarrow> parsed) \<Rightarrow> nat \<Rightarrow> line list \<Rightarrow> parsed" where
  "parse_block call ind ls =
     (case ls of
        [] \<Rightarrow> Inr (Scalar [], [])
      | l # _ \<Rightarrow> if is_dash (line_text l) then call (SeqFrom ind []) ls else call (MapFrom ind []) ls)"

definition parse_seq :: "(job \<Rightarrow> line list \<Rightarrow> parsed) \<Rightarrow> nat \<Rightarrow> node list \<Rightarrow> line list \<Rightarrow> parsed" where
  "parse_seq call ind acc ls =
     (case ls of
        [] \<Rightarrow> Inr (SeqNode acc, [])
      | l # ls1 \<Rightarrow>
          if indent l \<noteq> ind \<or> \<not> is_dash (line_text l) then Inr (SeqNode acc, ls)
          else let rest = (if line_text l = ''-'' then [] else drop 2 (line_text l))
               in if rest = [] then
                    (if ls1 \<noteq> [] \<and> ind < indent (hd ls1)
                     then and_then (call (Block (indent (hd ls1))) ls1) (\<lambda>(n, ls2).
                            call (SeqFrom ind (acc @ [n])) ls2)
                     else call (SeqFrom ind (acc @ [Scalar []])) ls1)
                  else if is_inline_item rest then
                    and_then (call (KvInto [] rest) ls1) (\<lambda>(n, ls2).
                    and_then (call (Siblings (ind + 2) (map_fields n)) ls2) (\<lambda>(n', ls3).
                      call (SeqFrom ind (acc @ [n'])) ls3))
                  else call (SeqFrom ind (acc @ [Scalar (unquote (trim rest))])) ls1)"

definition parse_kv_into ::
  "(job \<Rightarrow> line list \<Rightarrow> parsed) \<Rightarrow> (string \<times> node) list \<Rightarrow> string \<Rightarrow> line list \<Rightarrow> parsed" where
  "parse_kv_into call m t ls =
     (case split_scan False False 0 t of
        None \<Rightarrow> Inl (Some (''cannot parse YAML line: '' @ t))
      | Some i \<Rightarrow>
          let key = unquote (trim (take i t)); val = trim (drop (i + 1) t)
          in if val \<noteq> [] then Inr (MapNode (put_sorted key (Scalar (unquote val)) m), ls)
             else if ls \<noteq> [] \<and> looks_nested (hd ls) then
               and_then (if is_dash (line_text (hd ls))
                         then call (SeqFrom (indent (hd ls)) []) ls
                         else call (MapFrom (indent (hd ls)) []) ls) (\<lambda>(child, ls').
                 Inr (MapNode (put_sorted key child m), ls'))
             else Inr (MapNode (put_sorted key (Scalar []) m), ls))"

text \<open>The loop over the sibling keys of an inline item: the line is passed on before it is skipped.\<close>

definition parse_siblings ::
  "(job \<Rightarrow> line list \<Rightarrow> parsed) \<Rightarrow> nat \<Rightarrow> (string \<times> node) list \<Rightarrow> line list \<Rightarrow> parsed" where
  "parse_siblings call ind m ls =
     (case ls of
        [] \<Rightarrow> Inr (MapNode m, [])
      | l # _ \<Rightarrow>
          if indent l \<noteq> ind \<or> starts_with ''- '' (line_text l) then Inr (MapNode m, ls)
          else and_then (call (KvInto m (line_text l)) ls) (\<lambda>(n, ls').
                 call (Siblings ind (map_fields n)) (tl ls')))"

definition parse_map ::
  "(job \<Rightarrow> line list \<Rightarrow> parsed) \<Rightarrow> nat \<Rightarrow> (string \<times> node) list \<Rightarrow> line list \<Rightarrow> parsed" where
  "parse_map call ind m ls =
     (case ls of
        [] \<Rightarrow> Inr (MapNode m, [])
      | l # ls1 \<Rightarrow>
          if indent l \<noteq> ind \<or> is_dash (line_text l) then Inr (MapNode m, ls)
          else and_then (call (KvInto m (line_text l)) ls1) (\<lambda>(n, ls2). call (MapFrom ind (map_fields n)) ls2))"

fun parse_step :: "(job \<Rightarrow> line list \<Rightarrow> parsed) \<Rightarrow> job \<Rightarrow> line list \<Rightarrow> parsed" where
  "parse_step call (Block ind) ls = parse_block call ind ls"
| "parse_step call (SeqFrom ind acc) ls = parse_seq call ind acc ls"
| "parse_step call (KvInto m t) ls = parse_kv_into call m t ls"
| "parse_step call (Siblings ind m) ls = parse_siblings call ind m ls"
| "parse_step call (MapFrom ind m) ls = parse_map call ind m ls"

primrec run_parser :: "nat \<Rightarrow> job \<Rightarrow> line list \<Rightarrow> parsed" where
  "run_parser 0 = (\<lambda>_ _. Inl None)"
| "run_parser (Suc f) = parse_step (run_parser f)"

text \<open>The parse of a file, with fuel for all its lines.\<close>

definition parse_root :: "line list \<Rightarrow> string option + (string \<times> node) list" where
  "parse_root ls =
     and_then (run_parser (4 * length ls + 4) (MapFrom (indent (hd ls)) []) ls) (\<lambda>(n, _). Inr (map_fields n))"

section \<open>Interpolation\<close>

lemma starts_with_ne: "starts_with (c # cs) s \<Longrightarrow> s \<noteq> []"
  by (auto simp: starts_with_def)

definition lookup_var :: "(string \<Rightarrow> string option) \<Rightarrow> (string \<times> string) list \<Rightarrow> string \<Rightarrow> string" where
  "lookup_var env extra name =
     (case map_of extra name of
        Some v \<Rightarrow> v
      | None \<Rightarrow> (case env name of Some v \<Rightarrow> v | None \<Rightarrow> []))"

definition expand_expr :: "(string \<Rightarrow> string option) \<Rightarrow> (string \<times> string) list \<Rightarrow> string \<Rightarrow> string" where
  "expand_expr env extra expr =
     (let (name, def) =
        (case find_str '':-'' expr of
           Some sep \<Rightarrow> (take sep expr, Some (drop (sep + 2) expr))
         | None \<Rightarrow>
             (case find_char (CHR ''-'') expr of
                Some sep \<Rightarrow> if contains_str '':?'' expr then (expr, None)
                             else (take sep expr, Some (drop (sep + 1) expr))
              | None \<Rightarrow> (expr, None)));
          val = lookup_var env extra (trim name)
      in if val \<noteq> [] then val else case def of Some d \<Rightarrow> d | None \<Rightarrow> [])"

function interpolate :: "(string \<Rightarrow> string option) \<Rightarrow> (string \<times> string) list \<Rightarrow> string \<Rightarrow> string" where
  "interpolate env extra s =
     (if starts_with ''${'' s
      then (case find_char (CHR ''}'') (drop 2 s) of
              None \<Rightarrow> hd s # interpolate env extra (tl s)
            | Some e \<Rightarrow> expand_expr env extra (take e (drop 2 s)) @
                          interpolate env extra (drop (e + 3) s))
      else case s of [] \<Rightarrow> [] | c # cs \<Rightarrow> c # interpolate env extra cs)"
  by pat_completeness auto
termination
  by (relation "measure (\<lambda>(env, extra, s). length s)") (auto dest!: starts_with_ne)

declare interpolate.simps [simp del]

section \<open>Services\<close>

definition node_scalar :: "node \<Rightarrow> string" where
  "node_scalar n = (case n of Scalar s \<Rightarrow> s | _ \<Rightarrow> [])"

text \<open>A pair split at a position, as substr(0, i) and substr(i + 1).\<close>

definition split_at :: "nat \<Rightarrow> string \<Rightarrow> string \<times> string" where
  "split_at i s = (take i s, drop (i + 1) s)"

definition parse_env ::
  "(string \<Rightarrow> string option) \<Rightarrow> (string \<times> string) list \<Rightarrow> node \<Rightarrow> (string \<times> string) list" where
  "parse_env env extra n =
     (case n of
        MapNode m \<Rightarrow> map (\<lambda>(k, v). (k, interpolate env extra (node_scalar v))) m
      | SeqNode items \<Rightarrow>
          concat (map (\<lambda>item.
            let s = interpolate env extra (node_scalar item)
            in case find_char (CHR ''='') s of
                 None \<Rightarrow> (case env s of Some v \<Rightarrow> [(s, v)] | None \<Rightarrow> [])
               | Some eq \<Rightarrow> [split_at eq s]) items)
      | Scalar _ \<Rightarrow> [])"

definition port_spec :: "string \<Rightarrow> string \<times> string" where
  "port_spec spec =
     (case rfind_char (CHR '':'') spec of
        None \<Rightarrow> (spec, spec)
      | Some colon \<Rightarrow> split_at colon spec)"

definition compose_ports :: "node \<Rightarrow> (string \<times> string) list" where
  "compose_ports n =
     (case n of
        SeqNode items \<Rightarrow> map (\<lambda>item. port_spec (trim (node_scalar item))) items
      | Scalar s \<Rightarrow> if s \<noteq> [] then [port_spec (trim s)] else []
      | MapNode _ \<Rightarrow> [])"

definition volume_spec :: "string \<Rightarrow> (string \<times> string) list" where
  "volume_spec s =
     (case find_char (CHR '':'') s of
        None \<Rightarrow> []
      | Some colon \<Rightarrow>
          let (src, dst) = split_at colon s
          in [(src, case rfind_char (CHR '':'') dst of Some m \<Rightarrow> take m dst | None \<Rightarrow> dst)])"

definition parse_volumes :: "node \<Rightarrow> (string \<times> string) list" where
  "parse_volumes n =
     (case n of
        SeqNode items \<Rightarrow> concat (map (\<lambda>item. volume_spec (trim (node_scalar item))) items)
      | _ \<Rightarrow> [])"

text \<open>The items of an inline sequence; the accumulator is the loop of parse_command().\<close>

definition skip_separators :: "string \<Rightarrow> string" where
  "skip_separators = dropWhile (\<lambda>c. is_space c \<or> c = CHR '','')"

lemma length_skip_separators: "length (skip_separators s) \<le> length s"
  by (simp add: skip_separators_def length_dropWhile_le)

definition flow_item :: "string \<Rightarrow> string \<times> string" where
  "flow_item b =
     (case b of
        [] \<Rightarrow> ([], [])
      | q # cs \<Rightarrow>
          if q = dquote \<or> q = squote
          then (takeWhile (\<lambda>c. c \<noteq> q) cs, drop 1 (dropWhile (\<lambda>c. c \<noteq> q) cs))
          else (takeWhile (\<lambda>c. c \<noteq> CHR '','') b, dropWhile (\<lambda>c. c \<noteq> CHR '','') b))"

lemma flow_item_shrinks: "b \<noteq> [] \<Longrightarrow> hd b \<noteq> CHR '','' \<Longrightarrow> length (snd (flow_item b)) < length b"
proof (cases b)
  case (Cons q cs)
  assume "hd b \<noteq> CHR '',''"
  have "length (drop 1 (dropWhile P cs)) \<le> length cs" "length (dropWhile P cs) \<le> length cs" for P
    using length_dropWhile_le [of P cs] by auto
  then show ?thesis using Cons \<open>hd b \<noteq> CHR '',''\<close> by (auto simp: flow_item_def le_imp_less_Suc)
qed simp

lemma skip_separators_hd: "skip_separators b \<noteq> [] \<Longrightarrow> hd (skip_separators b) \<noteq> CHR '',''"
  unfolding skip_separators_def using hd_dropWhile by blast

function flow_items :: "string \<Rightarrow> string list" where
  "flow_items b =
     (if skip_separators b = [] then []
      else let (item, rest) = flow_item (skip_separators b);
               t = trim item
           in (if t \<noteq> [] then [t] else []) @ flow_items rest)"
  by pat_completeness auto
termination
proof (relation "measure length")
  fix b x item rest t
  assume "skip_separators b \<noteq> []" and "x = flow_item (skip_separators b)" and "(item, rest) = x"
  then have "length rest < length (skip_separators b)"
    using flow_item_shrinks [of "skip_separators b"] skip_separators_hd [of b] by (metis snd_conv)
  then show "(rest, b) \<in> measure length" using length_skip_separators [of b] by simp
qed simp

declare flow_items.simps [simp del]

definition parse_command :: "node \<Rightarrow> string list or_ub" where
  "parse_command n =
     (case n of
        SeqNode items \<Rightarrow> Inr (map node_scalar items)
      | Scalar s0 \<Rightarrow>
          if s0 = [] then Inr []
          else let s = trim s0
               in if s = [] then Inl OutOfBounds
                  else if hd s = CHR ''['' \<and> last s = CHR '']''
                  then Inr (flow_items (substr s 1 (length s - 2)))
                  else Inr (words_of s)
      | MapNode _ \<Rightarrow> Inr [])"

definition parse_depends_on :: "node \<Rightarrow> string list" where
  "parse_depends_on n =
     (case n of
        SeqNode items \<Rightarrow> map (\<lambda>item. trim (node_scalar item)) items
      | MapNode m \<Rightarrow> map fst m
      | Scalar _ \<Rightarrow> [])"

definition parse_dns :: "node \<Rightarrow> string list" where
  "parse_dns n =
     filter (\<lambda>ip. ip \<noteq> [])
       (case n of
          SeqNode items \<Rightarrow> map (\<lambda>item. trim (node_scalar item)) items
        | _ \<Rightarrow> [trim (node_scalar n)])"

section \<open>load_compose() and find_compose_file()\<close>

record compose_service =
  svc_name :: string
  svc_image :: string
  svc_ports :: "(string \<times> string) list"
  svc_env :: "(string \<times> string) list"
  svc_volumes :: "(string \<times> string) list"
  svc_command :: "string list"
  svc_depends_on :: "string list"
  svc_dns :: "string list"
  svc_mem_limit :: string

record compose_file =
  cf_path :: string
  cf_services :: "compose_service list"

definition dir_of :: "string \<Rightarrow> string" where
  "dir_of path = (case rfind_char (CHR ''/'') path of None \<Rightarrow> ''.'' | Some i \<Rightarrow> take i path)"

text \<open>The .env file next to the compose file: the first definition of a key stands.\<close>

definition dot_env_line :: "string \<Rightarrow> (string \<times> string) list \<Rightarrow> (string \<times> string) list" where
  "dot_env_line raw env =
     (let l = trim (strip_comment raw)
      in case find_char (CHR ''='') l of
           None \<Rightarrow> env
         | Some eq \<Rightarrow>
             let k = trim (take eq l); v = unquote (trim (drop (eq + 1) l))
             in if k \<in> set (keys env) then env else put_sorted k v env)"

definition dot_env ::
  "(string \<Rightarrow> string option) \<Rightarrow> string \<Rightarrow> (string \<times> string) list \<Rightarrow> (string \<times> string) list" where
  "dot_env fs path env =
     (case fs (dir_of path @ ''/.env'') of
        None \<Rightarrow> env
      | Some content \<Rightarrow> fold dot_env_line (lines_of content) env)"

definition load_service ::
  "(string \<Rightarrow> string option) \<Rightarrow> (string \<times> string) list \<Rightarrow> string \<times> node \<Rightarrow> compose_service or_throw or_ub" where
  "load_service env extra nb =
     (case nb of
        (name, body) \<Rightarrow>
          let get = map_of (map_fields body);
              ip = interpolate env extra;
              image = ip (node_scalar (case get ''image'' of Some n \<Rightarrow> n | None \<Rightarrow> Scalar []))
          in if image = []
             then Inr (Inl (''service '' @ [squote] @ name @ [squote] @
               '' has no image (hostely app v1 requires prebuilt images; `build:` is not supported yet)''))
             else and_then (case get ''command'' of None \<Rightarrow> Inr [] | Some n \<Rightarrow> parse_command n) (\<lambda>cmd.
               Inr (Inr \<lparr>svc_name = name, svc_image = image,
                    svc_ports = (case get ''ports'' of None \<Rightarrow> []
                       | Some n \<Rightarrow> map (\<lambda>(h, c). (ip h, ip c)) (compose_ports n)),
                    svc_env = (case get ''environment'' of None \<Rightarrow> [] | Some n \<Rightarrow> parse_env env extra n),
                    svc_volumes = (case get ''volumes'' of None \<Rightarrow> []
                       | Some n \<Rightarrow> map (\<lambda>(s, d). (ip s, ip d)) (parse_volumes n)),
                    svc_command = cmd,
                    svc_depends_on = (case get ''depends_on'' of None \<Rightarrow> [] | Some n \<Rightarrow> parse_depends_on n),
                    svc_dns = (case get ''dns'' of None \<Rightarrow> [] | Some n \<Rightarrow> map ip (parse_dns n)),
                    svc_mem_limit = (case get ''mem_limit'' of None \<Rightarrow> []
                       | Some n \<Rightarrow> ip (trim (node_scalar n)))\<rparr>)))"

fun load_services ::
  "(string \<Rightarrow> string option) \<Rightarrow> (string \<times> string) list \<Rightarrow> (string \<times> node) list
     \<Rightarrow> compose_service list or_throw or_ub" where
  "load_services env extra [] = Inr (Inr [])"
| "load_services env extra (nb # nbs) =
     and_then (load_service env extra nb) (\<lambda>r.
       case r of
         Inl msg \<Rightarrow> Inr (Inl msg)
       | Inr s \<Rightarrow> and_then (load_services env extra nbs) (\<lambda>r'.
           Inr (and_then r' (\<lambda>ss. Inr (s # ss)))))"

definition load_compose ::
  "(string \<Rightarrow> string option) \<Rightarrow> (string \<Rightarrow> string option) \<Rightarrow> string \<Rightarrow> (string \<times> string) list
     \<Rightarrow> compose_file or_throw or_ub" where
  "load_compose fs env path extra_env =
     (let extra = dot_env fs path extra_env
      in case read_lines fs path of
           Inl msg \<Rightarrow> Inr (Inl msg)
         | Inr [] \<Rightarrow> Inr (Inl (''compose file is empty: '' @ path))
         | Inr ls \<Rightarrow>
             (case parse_root ls of
                Inl None \<Rightarrow> Inl NoReturn
              | Inl (Some msg) \<Rightarrow> Inr (Inl msg)
              | Inr root \<Rightarrow>
                  (case map_of root ''services'' of
                     Some (MapNode svcs) \<Rightarrow>
                       and_then (load_services env extra svcs) (\<lambda>r.
                         Inr (and_then r (\<lambda>ss.
                           if ss = [] then Inl (''`services:` block defines no services in '' @ path)
                           else Inr \<lparr>cf_path = path, cf_services = ss\<rparr>)))
                   | _ \<Rightarrow> Inr (Inl (''no top-level `services:` block in '' @ path)))))"

text \<open>list_dir() of a directory, and the candidates of one depth.\<close>

definition list_dir :: "(string \<Rightarrow> string list) \<Rightarrow> (string \<Rightarrow> bool) \<Rightarrow> string \<Rightarrow> string list" where
  "list_dir readdir is_dir d =
     filter is_dir (map (\<lambda>n. d @ ''/'' @ n) (filter (\<lambda>n. n \<noteq> [] \<and> hd n \<noteq> CHR ''.'') (readdir d)))"

definition compose_names :: "string list" where
  "compose_names = [''compose.yaml'', ''compose.yml'', ''docker-compose.yaml'', ''docker-compose.yml'']"

definition candidates :: "string list \<Rightarrow> string list" where
  "candidates ds = concat (map (\<lambda>d. map (\<lambda>n. d @ ''/'' @ n) compose_names) ds)"

definition find_compose_file ::
  "(string \<Rightarrow> string list) \<Rightarrow> (string \<Rightarrow> bool) \<Rightarrow> (string \<Rightarrow> bool) \<Rightarrow> string \<Rightarrow> string option" where
  "find_compose_file readdir is_dir is_file dir =
     (let depth1 = list_dir readdir is_dir dir;
          depth2 = concat (map (list_dir readdir is_dir) depth1)
      in case find is_file (candidates [dir]) of
           Some p \<Rightarrow> Some p
         | None \<Rightarrow>
             (case find is_file (candidates depth1) of
                Some p \<Rightarrow> Some p
              | None \<Rightarrow> find is_file (candidates depth2)))"

section \<open>The fuel is enough\<close>

lemmas parse_defs = parse_block_def parse_seq_def parse_kv_into_def parse_siblings_def parse_map_def

text \<open>A call never gives lines back.\<close>

lemma calls_consume:
  assumes "\<And>job ls n ls'. call job ls = Inr (n, ls') \<Longrightarrow> length ls' \<le> length ls"
    and "parse_step call job ls = Inr (n, ls')"
  shows "length ls' \<le> length ls"
proof (cases job)
  case (Block ind)
  with assms(2) show ?thesis by (auto simp: parse_block_def split: list.splits if_splits dest!: assms(1))
next
  case (SeqFrom ind acc)
  show ?thesis
  proof (cases ls)
    case Nil
    with assms(2) SeqFrom show ?thesis by (simp add: parse_seq_def)
  next
    case (Cons l ls1)
    then show ?thesis
      using assms(2) SeqFrom
      by (auto simp: parse_seq_def Let_def and_then_Inr split: if_splits dest!: assms(1))
  qed
next
  case (KvInto m t)
  with assms(2) show ?thesis
    by (auto simp: parse_kv_into_def Let_def and_then_Inr split: option.splits if_splits dest!: assms(1))
next
  case (Siblings ind m)
  show ?thesis
  proof (cases ls)
    case Nil
    with assms(2) Siblings show ?thesis by (simp add: parse_siblings_def)
  next
    case (Cons l ls1)
    then show ?thesis
      using assms(2) Siblings
      by (auto simp: parse_siblings_def and_then_Inr split: if_splits dest!: assms(1))
  qed
next
  case (MapFrom ind m)
  show ?thesis
  proof (cases ls)
    case Nil
    with assms(2) MapFrom show ?thesis by (simp add: parse_map_def)
  next
    case (Cons l ls1)
    then show ?thesis
      using assms(2) MapFrom
      by (auto simp: parse_map_def and_then_Inr split: if_splits dest!: assms(1))
  qed
qed

lemma run_parser_consumes: "run_parser f job ls = Inr (n, ls') \<Longrightarrow> length ls' \<le> length ls"
proof (induction f arbitrary: job ls n ls')
  case (Suc f)
  then show ?case using calls_consume [of "run_parser f" job ls n ls'] by auto
qed simp

fun fuel_need :: "job \<Rightarrow> nat \<Rightarrow> nat" where
  "fuel_need (Block ind) n = 4 * n + 2"
| "fuel_need (SeqFrom ind acc) n = 4 * n + 1"
| "fuel_need (KvInto m t) n = 4 * n + 2"
| "fuel_need (Siblings ind m) n = 4 * n + 3"
| "fuel_need (MapFrom ind m) n = 4 * n + 1"

lemma run_parser_enough: "fuel_need job (length ls) \<le> f \<Longrightarrow> run_parser f job ls \<noteq> Inl None"
proof (induction f arbitrary: job ls)
  case 0
  then show ?case by (cases job) simp_all
next
  case (Suc f)
  note ok = Suc.IH and eat = run_parser_consumes [of f]
  show ?case
  proof (cases job)
    case (Block ind)
    have "run_parser f (SeqFrom ind []) ls \<noteq> Inl None" "run_parser f (MapFrom ind []) ls \<noteq> Inl None"
      using Suc.prems Block by (intro ok; simp)+
    with Block show ?thesis by (simp add: parse_block_def split: list.split)
  next
    case (KvInto m t)
    have "run_parser f (SeqFrom ind []) ls \<noteq> Inl None" "run_parser f (MapFrom ind []) ls \<noteq> Inl None" for ind
      using Suc.prems KvInto by (intro ok; simp)+
    with KvInto show ?thesis by (auto simp: parse_kv_into_def Let_def and_then_Inl split: option.split)
  next
    case (MapFrom ind m)
    have "run_parser f (KvInto m' t) ls1 \<noteq> Inl None" if "Suc (length ls1) = length ls" for m' t ls1
      using Suc.prems MapFrom that by (intro ok) simp
    moreover have "run_parser f (MapFrom ind m') ls2 \<noteq> Inl None" if "length ls2 < length ls" for m' ls2
      using Suc.prems MapFrom that by (intro ok) simp
    ultimately show ?thesis
      using MapFrom by (auto simp: parse_map_def and_then_Inl le_imp_less_Suc dest!: eat split: list.split)
  next
    case (Siblings ind m)
    have "run_parser f (KvInto m' t) ls \<noteq> Inl None" for m' t
      using Suc.prems Siblings by (intro ok) simp
    moreover have "run_parser f (Siblings ind m') (tl ls2) \<noteq> Inl None" if "length ls2 \<le> length ls" "ls \<noteq> []" for m' ls2
      using Suc.prems Siblings that by (intro ok) (cases ls; simp)
    ultimately show ?thesis
      using Siblings by (auto simp: parse_siblings_def and_then_Inl dest!: eat split: list.split)
  next
    case (SeqFrom ind acc)
    have "run_parser f job' ls2 \<noteq> Inl None"
      if "length ls2 < length ls" "fuel_need job' (length ls2) \<le> 4 * length ls2 + 3" for job' ls2
      using Suc.prems SeqFrom that by (intro ok) simp
    then have step: "run_parser f (SeqFrom ind acc') ls2 \<noteq> Inl None" "run_parser f (Block i) ls2 \<noteq> Inl None"
      "run_parser f (KvInto m t) ls2 \<noteq> Inl None" "run_parser f (Siblings i m) ls2 \<noteq> Inl None"
      if "length ls2 < length ls" for acc' i m t ls2
      using that by simp_all
    show ?thesis
      using SeqFrom step
      by (auto simp: parse_seq_def Let_def and_then_Inl le_imp_less_Suc dest!: eat split: list.split)
  qed
qed

section \<open>The maps are in key order\<close>

fun node_sorted :: "node \<Rightarrow> bool" where
  "node_sorted (Scalar s) \<longleftrightarrow> True"
| "node_sorted (MapNode m) \<longleftrightarrow> sorted_keys m \<and> (\<forall>kv \<in> set m. node_sorted (snd kv))"
| "node_sorted (SeqNode ns) \<longleftrightarrow> (\<forall>n \<in> set ns. node_sorted n)"

fun job_sorted :: "job \<Rightarrow> bool" where
  "job_sorted (Block ind) \<longleftrightarrow> True"
| "job_sorted (SeqFrom ind acc) \<longleftrightarrow> node_sorted (SeqNode acc)"
| "job_sorted (KvInto m t) \<longleftrightarrow> node_sorted (MapNode m)"
| "job_sorted (Siblings ind m) \<longleftrightarrow> node_sorted (MapNode m)"
| "job_sorted (MapFrom ind m) \<longleftrightarrow> node_sorted (MapNode m)"

lemma node_sorted_empty [simp]: "node_sorted (MapNode [])"
  by simp

lemma in_put_sorted: "x \<in> set (put_sorted k v kvs) \<Longrightarrow> x = (k, v) \<or> x \<in> set kvs"
  by (induction kvs) (auto split: if_splits)

lemma node_sorted_put:
  "node_sorted (MapNode m) \<Longrightarrow> node_sorted v \<Longrightarrow> node_sorted (MapNode (put_sorted k v m))"
  by (auto simp: sorted_put_sorted dest!: in_put_sorted)

lemma map_fields_sorted: "node_sorted n \<Longrightarrow> node_sorted (MapNode (map_fields n))"
  by (cases n) simp_all

lemma run_parser_sorted: "run_parser f job ls = Inr (n, ls') \<Longrightarrow> job_sorted job \<Longrightarrow> node_sorted n"
proof (induction f arbitrary: job ls n ls')
  case (Suc f)
  note sorted = Suc.IH
  show ?case
  proof (cases job)
    case (Block ind)
    with Suc.prems show ?thesis
      by (auto simp: parse_block_def split: list.splits if_splits dest!: sorted)
  next
    case (SeqFrom ind acc)
    with Suc.prems show ?thesis
      by (auto simp: parse_seq_def Let_def and_then_Inr split: list.splits if_splits dest!: sorted
          dest: map_fields_sorted simp del: node_sorted.simps(2)) 
  next
    case (KvInto m t)
    with Suc.prems show ?thesis
      by (auto simp: parse_kv_into_def Let_def and_then_Inr split: option.splits if_splits dest!: sorted
          intro!: node_sorted_put simp del: node_sorted.simps(2)) 
  next
    case (Siblings ind m)
    with Suc.prems show ?thesis
      by (auto simp: parse_siblings_def and_then_Inr split: list.splits if_splits dest!: sorted
          dest: map_fields_sorted simp del: node_sorted.simps(2))
  next
    case (MapFrom ind m)
    with Suc.prems show ?thesis
      by (auto simp: parse_map_def and_then_Inr split: list.splits if_splits dest!: sorted
          dest: map_fields_sorted simp del: node_sorted.simps(2))
  qed
qed simp

section \<open>Plain scalars\<close>

text \<open>Words of letters, digits, underscores and slashes pass the scanners unchanged.\<close>

definition plain_char :: "char \<Rightarrow> bool" where
  "plain_char c \<longleftrightarrow> is_alnum c \<or> c = CHR ''_'' \<or> c = CHR ''/''"

definition plain :: "string \<Rightarrow> bool" where
  "plain s \<longleftrightarrow> s \<noteq> [] \<and> list_all plain_char s"

lemma plain_char_not:
  assumes "plain_char c"
  shows "\<not> is_space c" "c \<noteq> squote" "c \<noteq> dquote" "c \<noteq> CHR '':''" "c \<noteq> CHR ''-''" "c \<noteq> CHR ''#''"
    "c \<noteq> CHR '' ''" "c \<noteq> CHR ''$''" "c \<noteq> CHR ''}''" "c \<noteq> CHR ''{''" "c \<noteq> CHR ''?''"
  using assms
  by (auto simp: plain_char_def is_alnum_def is_digit_def is_upper_def is_lower_def is_space_def)

lemma plain_trim: "list_all (\<lambda>c. \<not> is_space c) s \<Longrightarrow> trim s = s"
proof -
  assume s: "list_all (\<lambda>c. \<not> is_space c) s"
  have d: "dropWhile is_space t = t" if "list_all (\<lambda>c. \<not> is_space c) t" for t
    using that by (cases t) simp_all
  have "list_all (\<lambda>c. \<not> is_space c) (rev s)" using s by (simp add: list_all_iff)
  then show ?thesis using s by (simp add: trim_def ltrim_def rtrim_def d)
qed

lemma plain_nospace: "plain s \<Longrightarrow> list_all (\<lambda>c. \<not> is_space c) s"
  by (auto simp: plain_def list_all_iff plain_char_not)

lemma plain_unquote: "plain s \<Longrightarrow> unquote s = s"
proof -
  assume s: "plain s"
  then have "plain_char (hd s)" by (cases s) (simp_all add: plain_def)
  then have "hd s \<noteq> squote" "hd s \<noteq> dquote" by (simp_all add: plain_char_not)
  then show ?thesis by (simp add: unquote_def)
qed

lemma split_scan_plain:
  "list_all plain_char a \<Longrightarrow> cs = [] \<or> hd cs = CHR '' '' \<Longrightarrow>
     split_scan False False n (a @ CHR '':'' # cs) = Some (n + length a)"
  by (induction a arbitrary: n) (auto simp: plain_char_not)

text \<open>A key with a plain value, and a key without one.\<close>

lemma kv_value:
  assumes "plain k" and "plain v"
  shows "parse_kv_into call m (k @ '': '' @ v) ls = Inr (MapNode (put_sorted k (Scalar v) m), ls)"
proof -
  have "split_scan False False 0 (k @ '': '' @ v) = Some (length k)"
    using assms(1) split_scan_plain [of k "CHR '' '' # v" 0] by (simp add: plain_def)
  moreover have "trim (CHR '' '' # v) = trim v" by (simp add: trim_def ltrim_def is_space_def)
  ultimately show ?thesis
    using assms plain_trim [OF plain_nospace] plain_unquote
    by (simp add: parse_kv_into_def plain_def)
qed

lemma kv_empty:
  assumes "plain k"
  shows "parse_kv_into call m (k @ '':'') ls =
    (if ls \<noteq> [] \<and> looks_nested (hd ls)
     then and_then (if is_dash (line_text (hd ls)) then call (SeqFrom (indent (hd ls)) []) ls
                    else call (MapFrom (indent (hd ls)) []) ls)
            (\<lambda>(child, ls'). Inr (MapNode (put_sorted k child m), ls'))
     else Inr (MapNode (put_sorted k (Scalar []) m), ls))"
proof -
  have "split_scan False False 0 (k @ '':'') = Some (length k)"
    using assms split_scan_plain [of k "[]" 0] by (simp add: plain_def)
  moreover have "trim [] = []" by (simp add: trim_def ltrim_def rtrim_def)
  ultimately show ?thesis
    using assms plain_trim [OF plain_nospace] plain_unquote by (simp add: parse_kv_into_def)
qed

lemma plain_not_dash: "plain k \<Longrightarrow> \<not> is_dash (k @ s)"
proof -
  assume "plain k"
  then obtain c cs where k: "k = c # cs" "plain_char c" by (cases k) (auto simp: plain_def)
  then show ?thesis using plain_char_not(5) [OF k(2)] by (auto simp: is_dash_def starts_with_def)
qed

lemma contains_append: "contains_str p (a @ p @ b)"
proof -
  have "take (length p) (drop (length a) (a @ p @ b)) = p" by simp
  then show ?thesis unfolding contains_str_def find_str_None by (intro notI) (metis le_add1 length_append)
qed

section \<open>One line of a block mapping\<close>

lemma run_map_Nil: "run_parser (Suc f) (MapFrom ind m) [] = Inr (MapNode m, [])"
  by (simp add: parse_map_def)

lemma run_map_line:
  "indent l = ind \<Longrightarrow> \<not> is_dash (line_text l) \<Longrightarrow>
     run_parser (Suc f) (MapFrom ind m) (l # ls) =
       and_then (run_parser f (KvInto m (line_text l)) ls)
         (\<lambda>(n, ls2). run_parser f (MapFrom ind (map_fields n)) ls2)"
  by (simp add: parse_map_def)

lemma run_kv_value:
  "plain k \<Longrightarrow> plain v \<Longrightarrow>
     run_parser (Suc f) (KvInto m (k @ '': '' @ v)) ls = Inr (MapNode (put_sorted k (Scalar v) m), ls)"
  using kv_value by (simp only: run_parser.simps parse_step.simps)

lemma run_kv_nested:
  "plain k \<Longrightarrow> looks_nested l \<Longrightarrow> \<not> is_dash (line_text l) \<Longrightarrow>
     run_parser (Suc f) (KvInto m (k @ '':'')) (l # ls) =
       and_then (run_parser f (MapFrom (indent l) []) (l # ls))
         (\<lambda>(child, ls'). Inr (MapNode (put_sorted k child m), ls'))"
  using kv_empty [of k "run_parser f" m "l # ls"] by simp

section \<open>Interpolation of one reference\<close>

lemma interpolate_Nil [simp]: "interpolate env extra [] = []"
  by (simp add: interpolate.simps [of env extra "[]"] starts_with_def)

lemma interpolate_char: "c \<noteq> CHR ''$'' \<Longrightarrow> interpolate env extra (c # cs) = c # interpolate env extra cs"
  by (simp add: interpolate.simps [of env extra "c # cs"] starts_with_def)

lemma interpolate_plain:
  "CHR ''$'' \<notin> set pre \<Longrightarrow> interpolate env extra (pre @ s) = pre @ interpolate env extra s"
  by (induction pre) (auto simp: interpolate_char)

lemma interpolate_expr:
  assumes "CHR ''}'' \<notin> set e"
  shows "interpolate env extra (''${'' @ e @ ''}'' @ s) = expand_expr env extra e @ interpolate env extra s"
proof -
  let ?t = "CHR ''$'' # CHR ''{'' # e @ CHR ''}'' # s"
  have f: "find_char (CHR ''}'') (e @ CHR ''}'' # s) = Some (length e)"
    unfolding find_char_def using assms by (intro index_of_append_first) auto
  have "drop (length e + 3) ?t = drop (length e + 1) (drop 2 ?t)"
    unfolding drop_drop by (rule arg_cong [where f = "\<lambda>n. drop n ?t"]) simp
  then have d: "drop (length e + 3) ?t = s" by simp
  have "interpolate env extra ?t = expand_expr env extra e @ interpolate env extra (drop (length e + 3) ?t)"
    by (subst interpolate.simps) (simp add: f starts_with_def)
  then show ?thesis unfolding d by simp
qed

lemma find_char_plain: "list_all plain_char s \<Longrightarrow> \<not> plain_char c \<Longrightarrow> find_char c s = None"
  by (auto simp: find_char_def list_all_iff)

lemma find_str_plain:
  "list_all plain_char s \<Longrightarrow> find_str (CHR '':'' # p) s = None"
  by (induction s) (auto simp: plain_char_not)

lemma find_str_after_plain:
  "list_all plain_char s \<Longrightarrow> find_str (CHR '':'' # p) (s @ CHR '':'' # p @ t) = Some (length s)"
  by (induction s) (auto simp: plain_char_not)

lemma plain_brace: "plain s \<Longrightarrow> CHR ''}'' \<notin> set s"
  using plain_char_not(9) by (force simp: plain_def list_all_iff)

lemma expand_plain: "plain name \<Longrightarrow> expand_expr env extra name = lookup_var env extra name"
proof -
  assume n: "plain name"
  have "\<not> plain_char (CHR ''-'')" using plain_char_not(5) by blast
  then have "find_char (CHR ''-'') name = None" "find_str '':-'' name = None"
    using n find_char_plain find_str_plain by (simp_all add: plain_def)
  then show ?thesis using plain_trim [OF plain_nospace [OF n]] by (simp add: expand_expr_def Let_def)
qed

lemma expand_default:
  "plain name \<Longrightarrow> expand_expr env extra (name @ '':-'' @ def) =
     (if lookup_var env extra name \<noteq> [] then lookup_var env extra name else def)"
proof -
  assume n: "plain name"
  then have "find_str '':-'' (name @ '':-'' @ def) = Some (length name)"
    using find_str_after_plain [of name "''-''" def] by (simp add: plain_def)
  then show ?thesis using plain_trim [OF plain_nospace [OF n]] by (simp add: expand_expr_def Let_def)
qed

text \<open>
  The check for tabs in the indentation never fires: the indentation counts spaces only, so no tab
  can stand before its end.
\<close>

lemma tab_never_in_indent: "\<not> tab_in_indent raw"
proof
  assume "tab_in_indent raw"
  then obtain i where i: "find_char tab raw = Some i" "i < leading_spaces raw"
    by (auto simp: tab_in_indent_def split: option.splits)
  have "raw ! i = tab" using index_of_Some [OF i(1) [unfolded find_char_def]] by simp
  moreover have "takeWhile (\<lambda>c. c = CHR '' '') raw ! i \<in> set (takeWhile (\<lambda>c. c = CHR '' '') raw)"
    using i(2) by (simp add: leading_spaces_def)
  then have "raw ! i = CHR '' ''"
    using i(2) set_takeWhileD [of _ "\<lambda>c. c = CHR '' ''" raw] by (auto simp: leading_spaces_def takeWhile_nth)
  ultimately show False by simp
qed

text \<open>\<open>${name:?message}\<close> is looked up under the whole expression, not under the name.\<close>

lemma required_looks_up_whole:
  assumes "plain name" and "list_all (\<lambda>c. \<not> is_space c) msg"
    and "find_str '':-'' (name @ '':?'' @ msg) = None"
  shows "expand_expr env extra (name @ '':?'' @ msg) = lookup_var env extra (name @ '':?'' @ msg)"
proof -
  have "trim (name @ '':?'' @ msg) = name @ '':?'' @ msg"
    using plain_nospace [OF assms(1)] assms(2) by (intro plain_trim) (simp add: is_space_def)
  moreover have "contains_str '':?'' (name @ '':?'' @ msg)" by (rule contains_append)
  ultimately show ?thesis using assms(3) by (simp add: expand_expr_def Let_def split: option.split)
qed

section \<open>Properties\<close>

text \<open>
  C14. The parser ends on every file: the recursion never needs more than four calls per line, so the
  fuel of \<open>parse_root\<close> never runs out and the result is a tree or the message of an exception.
\<close>

theorem parse_never_out_of_fuel:
  "parse_root ls \<noteq> Inl None"
  using run_parser_enough [of "MapFrom (indent (hd ls)) []" ls "4 * length ls + 4"]
  by (auto simp: parse_root_def and_then_Inl)

text \<open>
  A key without a value takes its following siblings as its own children: the nested block
  is recognised by an indentation above 0, not above that of the key.
\<close>

theorem empty_value_swallows_sibling:
  assumes "plain r" and "plain a" and "plain b" and "plain v" and "0 < i"
  shows "parse_root [\<lparr>indent = 0, line_text = r @ '':''\<rparr>, \<lparr>indent = i, line_text = a @ '':''\<rparr>,
      \<lparr>indent = i, line_text = b @ '': '' @ v\<rparr>] = Inr [(r, MapNode [(a, MapNode [(b, Scalar v)])])]"
proof -
  let ?l1 = "\<lparr>indent = 0, line_text = r @ '':''\<rparr>"
  let ?l2 = "\<lparr>indent = i, line_text = a @ '':''\<rparr>" and ?l3 = "\<lparr>indent = i, line_text = b @ '': '' @ v\<rparr>"
  have nested: "looks_nested ?l2" "looks_nested ?l3"
    using assms(5) contains_append [of "'': ''" b v] by (simp_all add: looks_nested_def)
  have dash: "\<not> is_dash (r @ '':'')" "\<not> is_dash (a @ '':'')" "\<not> is_dash (b @ '': '' @ v)"
    using assms(1-3) by (simp_all only: plain_not_dash not_False_eq_True)
  have l3: "run_parser (Suc (Suc f)) (MapFrom i []) [?l3] = Inr (MapNode [(b, Scalar v)], [])" for f
    using run_map_line [of ?l3 i "Suc f" "[]" "[]"] dash(3)
    by (simp only: line.select_convs run_kv_value [OF assms(3,4)] run_map_Nil)
       (simp add: run_map_Nil del: run_parser.simps)
  have l2: "run_parser (Suc (Suc (Suc (Suc f)))) (MapFrom i []) [?l2, ?l3] =
      Inr (MapNode [(a, MapNode [(b, Scalar v)])], [])" for f
    using run_map_line [of ?l2 i "Suc (Suc (Suc f))" "[]" "[?l3]"] dash
      run_kv_nested [OF assms(2) nested(2), of "Suc (Suc f)" "[]" "[]"] l3 [of f]
    by (simp add: run_map_Nil del: run_parser.simps)
  have "run_parser (Suc (Suc (Suc (Suc (Suc (Suc f)))))) (MapFrom 0 []) [?l1, ?l2, ?l3] =
      Inr (MapNode [(r, MapNode [(a, MapNode [(b, Scalar v)])])], [])" for f
    using run_map_line [of ?l1 0 "Suc (Suc (Suc (Suc (Suc f))))" "[]" "[?l2, ?l3]"] dash
      run_kv_nested [OF assms(1) nested(1), of "Suc (Suc (Suc (Suc f)))" "[]" "[?l3]"] l2 [of f]
    by (simp add: run_map_Nil del: run_parser.simps)
  from this [of 10] show ?thesis
    by (simp add: parse_root_def eval_nat_numeral del: run_parser.simps)
qed

theorem empty_value_swallows_sibling_witness:
  "parse_root [\<lparr>indent = 0, line_text = ''web'' @ '':''\<rparr>, \<lparr>indent = 2, line_text = ''volumes'' @ '':''\<rparr>,
      \<lparr>indent = 2, line_text = ''image'' @ '': '' @ ''nginx''\<rparr>] =
     Inr [(''web'', MapNode [(''volumes'', MapNode [(''image'', Scalar ''nginx'')])])]"
  by (rule empty_value_swallows_sibling)
     (simp_all add: plain_def plain_char_def is_alnum_def is_lower_def is_digit_def is_upper_def)

text \<open>
  C15. A reference is replaced in place: \<open>${name}\<close> by the value of the variable, \<open>${name:-default}\<close> by
  the value or, when that is empty, the default; the text around it is kept.
\<close>

theorem interpolate_reference:
  assumes "CHR ''$'' \<notin> set pre" and "plain name" and "CHR ''}'' \<notin> set def"
  shows "interpolate env extra (pre @ ''${'' @ name @ ''}'' @ post) =
      pre @ lookup_var env extra name @ interpolate env extra post \<and>
    interpolate env extra (pre @ ''${'' @ (name @ '':-'' @ def) @ ''}'' @ post) =
      pre @ (if lookup_var env extra name \<noteq> [] then lookup_var env extra name else def) @
      interpolate env extra post"
proof -
  have e: "CHR ''}'' \<notin> set (name @ '':-'' @ def)" using plain_brace [OF assms(2)] assms(3) by simp
  show ?thesis
    by (simp only: interpolate_plain [OF assms(1)] interpolate_expr [OF e]
        interpolate_expr [OF plain_brace [OF assms(2)]] expand_plain [OF assms(2)] expand_default [OF assms(2)])
qed

theorem interpolate_reference_witness:
  "interpolate (\<lambda>_. None) [(''TAG'', ''v2'')] (''app/'' @ ''${'' @ ''TAG'' @ ''}'' @ []) =
     ''app/'' @ lookup_var (\<lambda>_. None) [(''TAG'', ''v2'')] ''TAG'' @ interpolate (\<lambda>_. None) [(''TAG'', ''v2'')] [] \<and>
   lookup_var (\<lambda>_. None) [(''TAG'', ''v2'')] ''TAG'' = ''v2''"
proof
  show "interpolate (\<lambda>_. None) [(''TAG'', ''v2'')] (''app/'' @ ''${'' @ ''TAG'' @ ''}'' @ []) =
     ''app/'' @ lookup_var (\<lambda>_. None) [(''TAG'', ''v2'')] ''TAG'' @ interpolate (\<lambda>_. None) [(''TAG'', ''v2'')] []"
    by (rule conjunct1 [OF interpolate_reference [of _ _ "[]"]])
       (simp_all add: plain_def plain_char_def is_alnum_def is_lower_def is_digit_def is_upper_def)
qed (simp add: lookup_var_def)

lemma load_service_name: "load_service env extra nb = Inr (Inr s) \<Longrightarrow> svc_name s = fst nb"
  by (cases nb) (auto simp: load_service_def Let_def and_then_Inr split: if_splits)

lemma load_services_names:
  "load_services env extra nbs = Inr (Inr ss) \<Longrightarrow> map svc_name ss = map fst nbs"
proof (induction nbs arbitrary: ss)
  case (Cons nb nbs)
  obtain r where r: "load_service env extra nb = Inr r"
    using Cons.prems by (cases "load_service env extra nb") auto
  obtain s where s: "r = Inr s" using Cons.prems r by (cases r) auto
  obtain ss' where "load_services env extra nbs = Inr (Inr ss')" "ss = s # ss'"
    using Cons.prems r s by (auto simp: and_then_Inr)
  then show ?case using Cons.IH load_service_name r s by simp
qed simp

text \<open>
  The services of a loaded file are in the order of their names, not in the order of the file as
  the comment on ComposeFile says.
\<close>

theorem services_in_name_order:
  assumes "load_compose fs env path extra_env = Inr (Inr cf)"
  shows "sorted_wrt str_less (map svc_name (cf_services cf))"
proof -
  from assms obtain ls svcs root ss where r: "parse_root ls = Inr root" "map_of root ''services'' = Some (MapNode svcs)"
    "load_services env (dot_env fs path extra_env) svcs = Inr (Inr ss)" "cf_services cf = ss"
    by (auto simp: load_compose_def Let_def and_then_Inr split: sum.splits list.splits option.splits node.splits if_splits)
  from r(1) obtain n ls' where "run_parser (4 * length ls + 4) (MapFrom (indent (hd ls)) []) ls = Inr (n, ls')"
    "root = map_fields n"
    by (auto simp: parse_root_def and_then_Inr)
  then have "node_sorted (MapNode root)" using run_parser_sorted map_fields_sorted by fastforce
  then have "sorted_keys svcs" using map_of_SomeD [OF r(2)] by force
  then show ?thesis using load_services_names [OF r(3)] r(4) by (simp add: sorted_keys_def keys_def)
qed

definition two_services :: "string \<Rightarrow> string option" where
  "two_services p = (if p = ''f'' then Some
     (''services:'' @ [nl] @ ''  b:'' @ [nl] @ ''    image: x'' @ [nl] @ ''  a:'' @ [nl] @ ''    image: y'')
     else None)"

lemma two_services_loaded:
  "(case load_compose two_services (\<lambda>_. None) ''f'' [] of
      Inr (Inr cf) \<Rightarrow> map svc_name (cf_services cf) = [''a'', ''b''] | _ \<Rightarrow> False)"
  by code_simp

theorem services_in_name_order_witness:
  "\<exists>cf. load_compose two_services (\<lambda>_. None) ''f'' [] = Inr (Inr cf) \<and>
     map svc_name (cf_services cf) = [''a'', ''b''] \<and> sorted_wrt str_less (map svc_name (cf_services cf))"
proof -
  obtain cf where c: "load_compose two_services (\<lambda>_. None) ''f'' [] = Inr (Inr cf)"
    "map svc_name (cf_services cf) = [''a'', ''b'']"
    using two_services_loaded by (auto split: sum.splits)
  show ?thesis by (intro exI [of _ cf] conjI c services_in_name_order [OF c(1)])
qed

end
