(* ===== verification/Manager.thy ===== *)
theory Manager
  imports Prelude
begin

text \<open>
  services/manager.hpp, services/manager.cpp and services/cli.cpp: the calls to the container
  command line tool and the way its exit code and output become a result or an error.

  cli::run() starts a program that is not part of the sources: it is an argument, a function
  from the state of the outside world and the argument vector to the new state and the captured
  result.
\<close>

section \<open>Results\<close>

record cli_result =
  exit_code :: int
  stdout_text :: string
  stderr_text :: string

definition started :: "cli_result \<Rightarrow> bool" where
  "started r \<longleftrightarrow> 0 \<le> exit_code r"

datatype manager_error_kind = CliNotFound | SystemNotStarted | BadInvocation | NonZeroExit

record manager_error =
  kind :: manager_error_kind
  message :: string
  stderr_tail :: string

type_synonym 'a outcome = "manager_error + 'a"

type_synonym 'w cli = "'w \<Rightarrow> string list \<Rightarrow> 'w \<times> cli_result"

record service_info =
  si_id :: string
  si_name :: string
  si_image :: string
  si_status :: string
  si_ports :: string

record run_options =
  opt_name :: string
  opt_image :: string
  opt_ports :: "(string \<times> string) list"
  opt_env :: "(string \<times> string) list"
  opt_volumes :: "(string \<times> string) list"
  opt_args :: "string list"
  opt_dns :: "string list"
  opt_memory :: string

section \<open>Helpers\<close>

definition tail :: "string \<Rightarrow> nat \<Rightarrow> string" where
  "tail s n = (if length s \<le> n then s else drop (length s - n) s)"

text \<open>The two loops of contains_ci(): over the start positions, and over the needle.\<close>

fun match_ci :: "string \<Rightarrow> string \<Rightarrow> bool" where
  "match_ci hay [] = True"
| "match_ci [] (b # bs) = False"
| "match_ci (a # as) (b # bs) = (to_lower a = to_lower b \<and> match_ci as bs)"

fun contains_ci_from :: "string \<Rightarrow> string \<Rightarrow> bool" where
  "contains_ci_from [] needle = match_ci [] needle"
| "contains_ci_from (a # as) needle = (match_ci (a # as) needle \<or> contains_ci_from as needle)"

definition contains_ci :: "string \<Rightarrow> string \<Rightarrow> bool" where
  "contains_ci hay needle = (length needle \<le> length hay \<and> contains_ci_from hay needle)"

definition is_status :: "string \<Rightarrow> bool" where
  "is_status t \<longleftrightarrow> t = ''running'' \<or> t = ''stopped'' \<or> t = ''starting'' \<or> t = ''stopping'' \<or> t = ''created''"

text \<open>One row of the table: first, second and last token, a state in the middle, a port before the name.\<close>

definition row_status :: "string list \<Rightarrow> string" where
  "row_status toks =
     (case find is_status (butlast (drop 2 toks)) of
        Some t \<Rightarrow> t
      | None \<Rightarrow> if 4 \<le> length toks then toks ! 3 else [])"

definition looks_like_ports :: "string \<Rightarrow> bool" where
  "looks_like_ports t \<longleftrightarrow> find_char (CHR '':'') t \<noteq> None \<or> t = ''-'' \<or> list_ex is_digit t"

definition ls_row :: "string list \<Rightarrow> service_info" where
  "ls_row toks =
     \<lparr>si_id = toks ! 0, si_name = toks ! (length toks - 1), si_image = toks ! 1, si_status = row_status toks,
      si_ports = (let p = toks ! (length toks - 2) in if looks_like_ports p then p else [])\<rparr>"

fun parse_ls_lines :: "bool \<Rightarrow> string list \<Rightarrow> service_info list" where
  "parse_ls_lines first [] = []"
| "parse_ls_lines first (l # ls) =
     (if l = [] then parse_ls_lines first ls
      else if first then parse_ls_lines False ls
      else if list_all (\<lambda>c. c = CHR '' '' \<or> c = CHR ''-'') l then parse_ls_lines False ls
      else let toks = words_of l
           in if length toks < 3 then parse_ls_lines False ls
              else ls_row toks # parse_ls_lines False ls)"

definition parse_ls :: "string \<Rightarrow> service_info list" where
  "parse_ls out = parse_ls_lines True (lines_of out)"

section \<open>The calls\<close>

definition install_instructions :: string where
  "install_instructions =
     ''Apple's `container` CLI is not installed.'' @ [nl] @
     ''Install:'' @ [nl] @
     ''  1. Download `container-installer-signed.pkg` from:'' @ [nl] @
     ''       https://github.com/apple/container/releases'' @ [nl] @
     ''  2. Run the installer (admin password required).'' @ [nl] @
     ''  3. Start the system once:'' @ [nl] @
     ''       container system start'' @ [nl] @ [nl] @
     ''hostely will then be able to manage containers on this Mac.''"

definition no_cli :: "string \<Rightarrow> manager_error" where
  "no_cli msg = \<lparr>kind = CliNotFound, message = msg, stderr_tail = []\<rparr>"

definition bad_invocation :: "string \<Rightarrow> manager_error" where
  "bad_invocation msg = \<lparr>kind = BadInvocation, message = msg, stderr_tail = []\<rparr>"

definition not_launched :: "cli_result \<Rightarrow> manager_error" where
  "not_launched r = \<lparr>kind = CliNotFound, message = ''could not launch container CLI'', stderr_tail = stderr_text r\<rparr>"

definition exit_error :: "string \<Rightarrow> cli_result \<Rightarrow> manager_error" where
  "exit_error what r = \<lparr>kind = NonZeroExit, message = what, stderr_tail = tail (stderr_text r) 2048\<rparr>"

text \<open>The error of a call that failed, with the hint when the system has not been started.\<close>

definition run_error :: "string \<Rightarrow> cli_result \<Rightarrow> manager_error" where
  "run_error what r =
     (let err = tail (stderr_text r) 2048
      in if contains_ci err ''system start''
         then \<lparr>kind = SystemNotStarted,
               message = ''the container system has not been started.'' @ [nl] @
                 ''  Run `container system start` once, then retry.'',
               stderr_tail = err\<rparr>
         else \<lparr>kind = NonZeroExit, message = what, stderr_tail = err\<rparr>)"

definition run_json :: "'w cli \<Rightarrow> string \<Rightarrow> string list \<Rightarrow> string \<Rightarrow> 'w \<Rightarrow> 'w \<times> string outcome" where
  "run_json cli path args what w =
     (if path = [] then (w, Inl (no_cli install_instructions))
      else let (w', r) = cli w (path # args)
           in (w', if \<not> started r then Inl (not_launched r)
                   else if exit_code r \<noteq> 0 then Inl (run_error what r)
                   else Inr (stdout_text r)))"

definition system_is_ready :: "'w cli \<Rightarrow> string \<Rightarrow> 'w \<Rightarrow> 'w \<times> bool outcome" where
  "system_is_ready cli path w =
     (if path = [] then (w, Inl (no_cli ''container CLI not on PATH''))
      else let (w', r) = cli w [path, ''system'', ''start'']
           in (w', if \<not> started r then Inl (not_launched r)
                   else if exit_code r \<noteq> 0 then Inl (exit_error ''`container system start` failed'' r)
                   else Inr True))"

definition run_argv :: "string \<Rightarrow> run_options \<Rightarrow> string list" where
  "run_argv path opts =
     [path, ''run'', ''-d'', ''--name'', opt_name opts] @
     concat (map (\<lambda>(h, c). [''-p'', h @ '':'' @ c]) (opt_ports opts)) @
     concat (map (\<lambda>(k, v). [''-e'', k @ ''='' @ v]) (opt_env opts)) @
     concat (map (\<lambda>(s, d). [''-v'', s @ '':'' @ d]) (opt_volumes opts)) @
     concat (map (\<lambda>ns. [''--dns'', ns]) (opt_dns opts)) @
     (if opt_memory opts \<noteq> [] then [''--memory'', opt_memory opts] else []) @
     opt_image opts # opt_args opts"

definition trim_id :: "string \<Rightarrow> string" where
  "trim_id s = rev (dropWhile (\<lambda>c. c = nl \<or> c = cr \<or> c = CHR '' '') (rev s))"

definition manager_run :: "'w cli \<Rightarrow> string \<Rightarrow> run_options \<Rightarrow> 'w \<Rightarrow> 'w \<times> string outcome" where
  "manager_run cli path opts w =
     (if path = [] then (w, Inl (no_cli install_instructions))
      else if opt_name opts = [] \<or> opt_image opts = []
      then (w, Inl (bad_invocation ''both --name and --image are required''))
      else let (w', r) = cli w (run_argv path opts)
           in (w', if \<not> started r then Inl (not_launched r)
                   else if exit_code r \<noteq> 0 then Inl (run_error ''container run failed'' r)
                   else Inr (trim_id (stdout_text r))))"

definition manager_list :: "'w cli \<Rightarrow> string \<Rightarrow> 'w \<Rightarrow> 'w \<times> service_info list outcome" where
  "manager_list cli path w =
     (if path = [] then (w, Inl (no_cli install_instructions))
      else let (w', r) = cli w [path, ''ls'']
           in (w', if \<not> started r then Inl (not_launched r)
                   else if exit_code r \<noteq> 0 then Inl (run_error ''container ls failed'' r)
                   else Inr (parse_ls (stdout_text r))))"

definition list_json :: "'w cli \<Rightarrow> string \<Rightarrow> 'w \<Rightarrow> 'w \<times> string outcome" where
  "list_json cli path = run_json cli path [''ls'', ''--format'', ''json''] ''container ls failed''"

definition stats_json :: "'w cli \<Rightarrow> string \<Rightarrow> 'w \<Rightarrow> 'w \<times> string outcome" where
  "stats_json cli path =
     run_json cli path [''stats'', ''--format'', ''json'', ''--no-stream''] ''container stats failed''"

definition manager_stop :: "'w cli \<Rightarrow> string \<Rightarrow> string \<Rightarrow> 'w \<Rightarrow> 'w \<times> bool outcome" where
  "manager_stop cli path name w =
     (if path = [] then (w, Inl (no_cli install_instructions))
      else if name = [] then (w, Inl (bad_invocation ''service name is required''))
      else let (w', r) = cli w [path, ''stop'', name];
               err = tail (stderr_text r) 2048
           in (w', if \<not> started r then Inl (not_launched r)
                   else if exit_code r \<noteq> 0 \<and> (contains_ci err ''not found'' \<or> contains_ci err ''no such'')
                   then Inr True
                   else if exit_code r \<noteq> 0 then Inl (exit_error ''container stop failed'' r)
                   else Inr True))"

definition manager_logs :: "'w cli \<Rightarrow> string \<Rightarrow> string \<Rightarrow> bool \<Rightarrow> 'w \<Rightarrow> 'w \<times> string outcome" where
  "manager_logs cli path name follow w =
     (if path = [] then (w, Inl (no_cli install_instructions))
      else if name = [] then (w, Inl (bad_invocation ''service name is required''))
      else let (w', r) = cli w ([path, ''logs''] @ (if follow then [''-f''] else []) @ [name])
           in (w', if \<not> started r then Inl (not_launched r)
                   else if exit_code r \<noteq> 0 then Inl (exit_error ''container logs failed'' r)
                   else Inr (stdout_text r)))"

text \<open>The search of PATH: the directories in order, empty ones left out.\<close>

fun split_colons :: "string \<Rightarrow> string \<Rightarrow> string list" where
  "split_colons acc [] = [rev acc]"
| "split_colons acc (c # cs) =
     (if c = CHR '':'' then rev acc # split_colons [] cs else split_colons (c # acc) cs)"

fun which_in :: "(string \<Rightarrow> bool) \<Rightarrow> string \<Rightarrow> string list \<Rightarrow> string option" where
  "which_in executable name [] = None"
| "which_in executable name (d # ds) =
     (if d \<noteq> [] \<and> executable (d @ ''/'' @ name) then Some (d @ ''/'' @ name)
      else which_in executable name ds)"

definition which :: "(string \<Rightarrow> bool) \<Rightarrow> string option \<Rightarrow> string \<Rightarrow> string option" where
  "which executable path_env name =
     (if name = [] then None
      else if find_char (CHR ''/'') name \<noteq> None then (if executable name then Some name else None)
      else case path_env of
             None \<Rightarrow> None
           | Some p \<Rightarrow> if p = [] then None else which_in executable name (split_colons [] p))"

section \<open>Lemmas\<close>

lemma match_ci_take: "match_ci hay needle \<longleftrightarrow> take (length needle) (lc hay) = lc needle"
  by (induction hay needle rule: match_ci.induct) auto

lemma contains_ci_from_lc: "contains_ci_from hay needle \<longleftrightarrow> contains_str (lc needle) (lc hay)"
  by (induction hay) (auto simp: contains_str_def match_ci_take)

lemma contains_str_length: "contains_str p s \<Longrightarrow> length p \<le> length s"
  using find_str_bound by (fastforce simp: contains_str_def)

text \<open>contains_ci() is the search for the lower-cased needle in the lower-cased text.\<close>

lemma contains_ci_lc: "contains_ci hay needle \<longleftrightarrow> contains_str (lc needle) (lc hay)"
  using contains_str_length [of "lc needle" "lc hay"] by (auto simp: contains_ci_def contains_ci_from_lc)

lemma tail_suffix: "suffix (tail s n) s" and length_tail: "length (tail s n) \<le> n"
  by (auto simp: tail_def suffix_drop)

lemma which_in_Some:
  "which_in ex name ds = Some p \<longleftrightarrow>
     (\<exists>pre d post. ds = pre @ d # post \<and> d \<noteq> [] \<and> p = d @ ''/'' @ name \<and> ex p \<and>
        (\<forall>e \<in> set pre. e \<noteq> [] \<longrightarrow> \<not> ex (e @ ''/'' @ name)))"
proof (induction ds)
  case (Cons d ds)
  show ?case
  proof (cases "d \<noteq> [] \<and> ex (d @ ''/'' @ name)")
    case True
    then have "which_in ex name (d # ds) = Some (d @ ''/'' @ name)" by simp
    moreover have "(\<exists>pre d' post. d # ds = pre @ d' # post \<and> d' \<noteq> [] \<and> p = d' @ ''/'' @ name \<and> ex p \<and>
        (\<forall>e \<in> set pre. e \<noteq> [] \<longrightarrow> \<not> ex (e @ ''/'' @ name))) \<longleftrightarrow> p = d @ ''/'' @ name" (is "?L \<longleftrightarrow> _")
    proof
      assume ?L
      then obtain pre d' post where s: "d # ds = pre @ d' # post" "p = d' @ ''/'' @ name"
        "\<forall>e \<in> set pre. e \<noteq> [] \<longrightarrow> \<not> ex (e @ ''/'' @ name)" by blast
      with True show "p = d @ ''/'' @ name" by (cases pre) auto
    next
      assume "p = d @ ''/'' @ name"
      with True have "d # ds = [] @ d # ds \<and> d \<noteq> [] \<and> p = d @ ''/'' @ name \<and> ex p \<and>
        (\<forall>e \<in> set []. e \<noteq> [] \<longrightarrow> \<not> ex (e @ ''/'' @ name))" by simp
      then show ?L by blast
    qed
    ultimately show ?thesis by auto
  next
    case False
    then have "which_in ex name (d # ds) = which_in ex name ds" by auto
    moreover have "(\<exists>pre d' post. d # ds = pre @ d' # post \<and> d' \<noteq> [] \<and> p = d' @ ''/'' @ name \<and> ex p \<and>
        (\<forall>e \<in> set pre. e \<noteq> [] \<longrightarrow> \<not> ex (e @ ''/'' @ name))) \<longleftrightarrow>
      (\<exists>pre d' post. ds = pre @ d' # post \<and> d' \<noteq> [] \<and> p = d' @ ''/'' @ name \<and> ex p \<and>
        (\<forall>e \<in> set pre. e \<noteq> [] \<longrightarrow> \<not> ex (e @ ''/'' @ name)))" (is "?L \<longleftrightarrow> ?R")
    proof
      assume ?L
      then obtain pre d' post where s: "d # ds = pre @ d' # post" "d' \<noteq> []" "p = d' @ ''/'' @ name" "ex p"
        "\<forall>e \<in> set pre. e \<noteq> [] \<longrightarrow> \<not> ex (e @ ''/'' @ name)" by blast
      with False show ?R by (cases pre) auto
    next
      assume ?R
      then obtain pre d' post where "ds = pre @ d' # post" "d' \<noteq> []" "p = d' @ ''/'' @ name" "ex p"
        "\<forall>e \<in> set pre. e \<noteq> [] \<longrightarrow> \<not> ex (e @ ''/'' @ name)" by blast
      with False show ?L by (intro exI [of _ "d # pre"]) auto
    qed
    ultimately show ?thesis using Cons.IH by simp
  qed
qed simp

text \<open>
  which() of a plain name gives the candidate of the first directory of PATH that holds an
  executable of that name, empty directories left out; a name with a slash stands for itself.
\<close>

lemma which_first_on_path:
  "which executable path_env name = Some p \<longleftrightarrow>
     name \<noteq> [] \<and>
     (if CHR ''/'' \<in> set name then executable name \<and> p = name
      else (\<exists>dirs pre d post. path_env = Some dirs \<and> dirs \<noteq> [] \<and> split_colons [] dirs = pre @ d # post \<and>
         d \<noteq> [] \<and> p = d @ ''/'' @ name \<and> executable p \<and>
         list_all (\<lambda>e. e = [] \<or> \<not> executable (e @ ''/'' @ name)) pre))"
proof -
  have slash: "find_char (CHR ''/'') name = None \<longleftrightarrow> CHR ''/'' \<notin> set name"
    by (auto simp: find_char_def)
  have pre: "(\<forall>e \<in> set pre. e \<noteq> [] \<longrightarrow> \<not> executable (e @ ''/'' @ name)) \<longleftrightarrow>
    list_all (\<lambda>e. e = [] \<or> \<not> executable (e @ ''/'' @ name)) pre" for pre
    by (auto simp: list_all_iff)
  show ?thesis
    unfolding which_def slash pre [symmetric] by (auto simp: which_in_Some split: option.split)
qed

section \<open>Properties\<close>

text \<open>
  Stopping is idempotent as documented: given a tool that starts, stop() succeeds exactly when
  the tool does or when the last 2048 characters of its stderr contain "not found" or "no such" in
  any mixture of cases.
\<close>

theorem stop_missing_is_ok:
  assumes "path \<noteq> []" and "name \<noteq> []" and "started (snd (cli w [path, ''stop'', name]))"
  shows "snd (manager_stop cli path name w) = Inr True \<longleftrightarrow>
    (let r = snd (cli w [path, ''stop'', name]); err = lc (tail (stderr_text r) 2048)
     in exit_code r = 0 \<or> contains_str ''not found'' err \<or> contains_str ''no such'' err)"
proof -
  have "lc ''not found'' = ''not found''" "lc ''no such'' = ''no such''" by code_simp+
  then show ?thesis
    using assms by (auto simp: manager_stop_def contains_ci_lc Let_def split: prod.splits)
qed

theorem stop_missing_is_ok_witness:
  "snd (manager_stop (\<lambda>w argv. (w, \<lparr>exit_code = 1, stdout_text = [], stderr_text = ''Error: Not Found''\<rparr>))
     ''container'' ''db'' ()) = Inr True"
proof -
  let ?cli = "\<lambda>(w :: unit) (argv :: string list).
    (w, \<lparr>exit_code = 1, stdout_text = [], stderr_text = ''Error: Not Found''\<rparr>)"
  have "contains_str ''not found'' (lc (tail ''Error: Not Found'' 2048))" by code_simp
  then show ?thesis
    using stop_missing_is_ok [of "''container''" "''db''" ?cli "()"] by (simp add: started_def Let_def)
qed

end
