(* ===== verification/Apps.thy ===== *)
theory Apps
  imports Compose Manager Json "HOL-Library.Multiset"
begin

text \<open>
  apps/app.hpp and apps/app.cpp: the state file of an app, the order of its services, the
  translation of a compose service into run options, app_up() with its reconciliation, and
  app_stop(), app_ps(), app_logs() and app_rm().

  The outside world (container tool, sockets, files, environment) is a value of type \<open>'w\<close> that the
  operations of the record \<open>app_os\<close> read and change, in the order the source calls them.
\<close>

section \<open>State and outside world\<close>

record app_service_state =
  ass_service :: string
  ass_container :: string
  ass_image :: string
  ass_hash :: string
  ass_ports :: "(string \<times> string) list"

record app_state =
  as_name :: string
  as_compose :: string
  as_services :: "app_service_state list"

record 'w app_os =
  os_cli :: "'w cli"
  os_busy :: "'w \<Rightarrow> int \<Rightarrow> bool"
  os_env :: "string \<Rightarrow> string option"
  os_file :: "'w \<Rightarrow> string \<Rightarrow> string option"
  os_readdir :: "'w \<Rightarrow> string \<Rightarrow> string list"
  os_is_dir :: "'w \<Rightarrow> string \<Rightarrow> bool"
  os_is_file :: "'w \<Rightarrow> string \<Rightarrow> bool"
  os_interfaces :: "'w \<Rightarrow> (string \<times> string) list option"
  os_state_path :: "string \<Rightarrow> string"
  os_read_state :: "'w \<Rightarrow> string \<Rightarrow> string option"
  os_write_state :: "'w \<Rightarrow> string \<Rightarrow> string \<Rightarrow> 'w option"
  os_remove_state :: "'w \<Rightarrow> string \<Rightarrow> 'w"
  os_apps :: "'w \<Rightarrow> (string \<times> string) list"

section \<open>The state file\<close>

fun read_port :: "('j, 'm) json_api_scheme \<Rightarrow> 'j \<Rightarrow> (string \<times> string) list or_throw" where
  "read_port J p =
     (if j_is_array J p \<and> length (j_items J p) = 2
      then and_then (get_str J (j_items J p ! 0)) (\<lambda>h.
           and_then (get_str J (j_items J p ! 1)) (\<lambda>c. Inr [(h, c)]))
      else Inr [])"

definition read_service :: "('j, 'm) json_build_scheme \<Rightarrow> 'j \<Rightarrow> app_service_state or_throw" where
  "read_service J s =
     and_then (j_value_str J s ''service'' []) (\<lambda>service.
     and_then (j_value_str J s ''container'' []) (\<lambda>container.
     and_then (j_value_str J s ''image'' []) (\<lambda>image.
     and_then (j_value_str J s ''config_hash'' []) (\<lambda>hash.
     and_then (j_value J s ''ports'' (j_of_arr J [])) (\<lambda>ports.
     and_then (each_then (read_port J) (j_items J ports)) (\<lambda>pss.
       Inr \<lparr>ass_service = service, ass_container = container, ass_image = image, ass_hash = hash,
            ass_ports = concat pss\<rparr>))))))"

definition parse_state :: "('j, 'm) json_build_scheme \<Rightarrow> string \<Rightarrow> string \<Rightarrow> app_state or_throw" where
  "parse_state J app content =
     and_then (j_parse J content) (\<lambda>j.
     and_then (j_value_str J j ''name'' app) (\<lambda>name.
     and_then (j_value_str J j ''compose_path'' []) (\<lambda>path.
     and_then (j_value J j ''services'' (j_of_arr J [])) (\<lambda>services.
     and_then (each_then (read_service J) (j_items J services)) (\<lambda>ss.
       Inr \<lparr>as_name = name, as_compose = path, as_services = ss\<rparr>)))))"

definition load_state ::
  "('j, 'm) json_build_scheme \<Rightarrow> ('w, 'o) app_os_scheme \<Rightarrow> string \<Rightarrow> 'w \<Rightarrow> app_state option" where
  "load_state J os app w =
     (case os_read_state os w app of
        None \<Rightarrow> None
      | Some content \<Rightarrow> (case parse_state J app content of Inl _ \<Rightarrow> None | Inr st \<Rightarrow> Some st))"

definition pair_json :: "('j, 'm) json_build_scheme \<Rightarrow> string \<times> string \<Rightarrow> 'j" where
  "pair_json J p = j_of_arr J [j_of_str J (fst p), j_of_str J (snd p)]"

definition service_json :: "('j, 'm) json_build_scheme \<Rightarrow> app_service_state \<Rightarrow> 'j" where
  "service_json J s =
     j_of_obj J
       [(''service'', j_of_str J (ass_service s)), (''container'', j_of_str J (ass_container s)),
        (''image'', j_of_str J (ass_image s)), (''config_hash'', j_of_str J (ass_hash s)),
        (''ports'', j_of_arr J (map (pair_json J) (ass_ports s)))]"

definition state_json :: "('j, 'm) json_build_scheme \<Rightarrow> app_state \<Rightarrow> 'j" where
  "state_json J st =
     j_of_obj J
       [(''name'', j_of_str J (as_name st)), (''compose_path'', j_of_str J (as_compose st)),
        (''services'', j_of_arr J (map (service_json J) (as_services st)))]"

text \<open>
  save_state(): the file is opened (and emptied), then the value is printed. A value that cannot be
  printed throws out of the caller; otherwise the result is the message of AppError or nothing.
\<close>

definition save_state ::
  "('j, 'm) json_build_scheme \<Rightarrow> ('w, 'o) app_os_scheme \<Rightarrow> app_state \<Rightarrow> 'w \<Rightarrow> 'w \<times> (string + unit) or_throw" where
  "save_state J os st w =
     (case os_write_state os w (as_name st) [] of
        None \<Rightarrow> (w, Inr (Inl (''cannot write '' @ os_state_path os (as_name st))))
      | Some w1 \<Rightarrow>
          (case j_pretty J (state_json J st) of
             Inl t \<Rightarrow> (w1, Inl t)
           | Inr s \<Rightarrow> (case os_write_state os w1 (as_name st) (s @ [nl]) of
                         None \<Rightarrow> (w1, Inr (Inr ()))
                       | Some w2 \<Rightarrow> (w2, Inr (Inr ())))))"

section \<open>Helpers\<close>

definition trim_slash :: "string \<Rightarrow> string" where
  "trim_slash p =
     (let t = rev (dropWhile (\<lambda>c. c = CHR ''/'') (rev p))
      in if t = [] then take 1 p else t)"

text \<open>The first address of en0, or else the first that is no loopback and no link-local one.\<close>

fun pick_ip :: "string \<Rightarrow> (string \<times> string) list \<Rightarrow> string" where
  "pick_ip fallback [] = fallback"
| "pick_ip fallback ((name, ip) # ifs) =
     (if name = ''lo0'' then pick_ip fallback ifs
      else if starts_with ''169.254.'' ip then pick_ip fallback ifs
      else if name = ''en0'' then ip
      else pick_ip (if fallback = [] then ip else fallback) ifs)"

definition lan_ip :: "(string \<times> string) list option \<Rightarrow> string" where
  "lan_ip ifs = (case ifs of None \<Rightarrow> [] | Some l \<Rightarrow> pick_ip [] l)"

definition fnv1a_step :: "u64 \<Rightarrow> char \<Rightarrow> u64" where
  "fnv1a_step h c = (h XOR of_nat (char_nat c)) * 1099511628211"

definition hex_digit :: "nat \<Rightarrow> char" where
  "hex_digit d = (if d < 10 then char_of (48 + d) else char_of (87 + d))"

fun hex_of :: "nat \<Rightarrow> string" where
  "hex_of n = (if n < 16 then [hex_digit n] else hex_of (n div 16) @ [hex_digit (n mod 16)])"

declare hex_of.simps [simp del]

definition fnv1a :: "string \<Rightarrow> string" where
  "fnv1a s = hex_of (unat (foldl fnv1a_step 1469598103934665603 s))"

definition config_fingerprint :: "('j, 'm) json_build_scheme \<Rightarrow> compose_service \<Rightarrow> string" where
  "config_fingerprint J s =
     (let strs = (\<lambda>l. j_of_arr J (map (j_of_str J) l)); pairs = (\<lambda>l. j_of_arr J (map (pair_json J) l))
      in fnv1a (j_dump J (j_of_obj J
        [(''image'', j_of_str J (svc_image s)), (''ports'', pairs (svc_ports s)), (''env'', pairs (svc_env s)),
         (''volumes'', pairs (svc_volumes s)), (''command'', strs (svc_command s)), (''dns'', strs (svc_dns s)),
         (''mem_limit'', j_of_str J (svc_mem_limit s))])))"

definition basename_of :: "string \<Rightarrow> string" where
  "basename_of path = (case rfind_char (CHR ''/'') path of None \<Rightarrow> path | Some i \<Rightarrow> drop (i + 1) path)"

definition looks_absolute :: "string \<Rightarrow> bool" where
  "looks_absolute p \<longleftrightarrow> p \<noteq> [] \<and> hd p = CHR ''/''"

definition app_name_from_dir :: "string \<Rightarrow> string" where
  "app_name_from_dir dir =
     (let clean = map (\<lambda>c. if is_alnum c \<or> c = CHR ''-'' \<or> c = CHR ''_'' then c else CHR ''-'')
                    (basename_of (trim_slash dir))
      in if clean = [] then ''app'' else clean)"

section \<open>Topological order\<close>

text \<open>
  The state of topo_sort(): the marks (None new, False being visited, True done) and the output. A
  failure is the text of the error, or None when the fuel has run out.
\<close>

type_synonym topo = "(string \<rightharpoonup> bool) \<times> compose_service list"

fun visit_deps ::
  "(compose_service \<Rightarrow> topo \<Rightarrow> string option + topo) \<Rightarrow> (string \<Rightarrow> compose_service option) \<Rightarrow> string
     \<Rightarrow> string list \<Rightarrow> topo \<Rightarrow> string option + topo" where
  "visit_deps call by_name name [] t = Inr t"
| "visit_deps call by_name name (dep # deps) t =
     (case by_name dep of
        None \<Rightarrow> Inl (Some (''service '' @ [squote] @ name @ [squote] @ '' depends on unknown service '' @
                  [squote] @ dep @ [squote]))
      | Some s \<Rightarrow> and_then (call s t) (visit_deps call by_name name deps))"

primrec visit ::
  "nat \<Rightarrow> (string \<Rightarrow> compose_service option) \<Rightarrow> compose_service \<Rightarrow> topo \<Rightarrow> string option + topo" where
  "visit 0 by_name s t = Inl None"
| "visit (Suc f) by_name s t =
     (case fst t (svc_name s) of
        Some True \<Rightarrow> Inr t
      | Some False \<Rightarrow> Inl (Some (''dependency cycle involving '' @ [squote] @ svc_name s @ [squote]))
      | None \<Rightarrow>
          and_then (visit_deps (visit f by_name) by_name (svc_name s) (svc_depends_on s)
                      ((fst t)(svc_name s \<mapsto> False), snd t)) (\<lambda>t'.
            Inr ((fst t')(svc_name s \<mapsto> True), snd t' @ [s])))"

fun visit_all ::
  "(compose_service \<Rightarrow> topo \<Rightarrow> string option + topo) \<Rightarrow> compose_service list \<Rightarrow> topo \<Rightarrow> string option + topo" where
  "visit_all call [] t = Inr t"
| "visit_all call (s # ss) t = and_then (call s t) (visit_all call ss)"

definition by_name_of :: "compose_service list \<Rightarrow> string \<Rightarrow> compose_service option" where
  "by_name_of ss = map_of (rev (map (\<lambda>s. (svc_name s, s)) ss))"

definition topo_sort :: "compose_service list \<Rightarrow> string option + compose_service list" where
  "topo_sort ss =
     and_then (visit_all (visit (length ss + 1) (by_name_of ss)) ss (Map.empty, [])) (\<lambda>t. Inr (snd t))"

section \<open>Translation of a service\<close>

definition looks_like_addr :: "string \<Rightarrow> bool" where
  "looks_like_addr k \<longleftrightarrow>
     (let u = map to_upper k
      in contains_str ''HOST'' u \<or> contains_str ''URL'' u \<or> contains_str ''ENDPOINT'' u \<or>
         contains_str ''ADDR'' u \<or> contains_str ''URI'' u)"

text \<open>The names of a std::set are in their order; a value already rewritten is compared again.\<close>

definition name_set :: "compose_service list \<Rightarrow> string list" where
  "name_set ss = map fst (fold (\<lambda>s. put_sorted (svc_name s) ()) ss [])"

definition rewrite_value :: "string \<Rightarrow> string list \<Rightarrow> string \<Rightarrow> string \<Rightarrow> string" where
  "rewrite_value host names self v =
     fold (\<lambda>other v. if other = self \<or> other = [] then v else if v = other then host else v) names v"

definition rewrite_env ::
  "string \<Rightarrow> string list \<Rightarrow> compose_service \<Rightarrow> (string \<times> string) list" where
  "rewrite_env host names s =
     map (\<lambda>(k, v). (k, if looks_like_addr k then rewrite_value host names (svc_name s) v else v)) (svc_env s)"

definition place_volume ::
  "string \<Rightarrow> string \<Rightarrow> string \<times> string \<Rightarrow> (string \<times> string) \<times> string list" where
  "place_volume app name v =
     (case v of (src, dst) \<Rightarrow>
        if looks_absolute src
        then ((src, dst), [''[warn] bind mount '' @ src @ '' -> '' @ dst @
               '': virtiofs on macOS 15 forbids chown; stateful services (postgres, mysql) need a named volume''])
        else if find_char (CHR ''/'') src = None then ((src, dst), [])
        else let vol = app @ ''-'' @ name @ ''-'' @ basename_of (trim_slash dst)
             in ((vol, dst), [''[info] volume '' @ src @ '' -> '' @ dst @ '' became named volume '' @
                  [squote] @ vol @ [squote]]))"

text \<open>The search for a free port may go on for ever: None.\<close>

partial_function (option) pick_from :: "(int \<Rightarrow> bool) \<Rightarrow> int \<Rightarrow> int option" where
  "pick_from busy p = (if busy p then pick_from busy (p + 1) else Some p)"

text \<open>The loop over the ports of a service, with the ports claimed so far in the run.\<close>

fun pick_ports ::
  "(int \<Rightarrow> bool) \<Rightarrow> string \<Rightarrow> (string \<times> string) list \<Rightarrow> int list
     \<Rightarrow> ((string \<times> string) list \<times> int list \<times> string list) or_ub" where
  "pick_ports in_use name [] claimed = Inr ([], claimed, [])"
| "pick_ports in_use name ((h, c) # ps) claimed =
     (let wanted = atoi h; busy = (\<lambda>p. in_use p \<or> p \<in> set claimed)
      in if wanted \<le> 0
         then and_then (pick_ports in_use name ps claimed) (\<lambda>(out, cl, ms). Inr ((h, c) # out, cl, ms))
         else (case (if busy wanted then pick_from busy (wanted + 1) else Some wanted) of
                 None \<Rightarrow> Inl NoReturn
               | Some actual \<Rightarrow>
                   and_then (pick_ports in_use name ps (actual # claimed)) (\<lambda>(out, cl, ms).
                     Inr ((string_of_int actual, c) # out, cl,
                       (if busy wanted
                        then [''[info] host port '' @ string_of_int wanted @ '' in use; '' @ name @ '' uses '' @
                              string_of_int actual @ '' instead'']
                        else []) @ ms))))"

section \<open>Reconciliation\<close>

definition container_tool :: string where
  "container_tool = ''/usr/local/bin/container''"

definition cli_container :: "'w cli \<Rightarrow> string list \<Rightarrow> 'w \<Rightarrow> 'w \<times> bool outcome" where
  "cli_container cli args w =
     (let (w', r) = cli w (container_tool # args)
      in (w', if \<not> started r then Inl (no_cli ''could not launch container CLI'') else Inr (exit_code r = 0)))"

definition first_word_is :: "string \<Rightarrow> string \<Rightarrow> bool" where
  "first_word_is name l \<longleftrightarrow> (case words_of l of [] \<Rightarrow> False | t # _ \<Rightarrow> t = name)"

definition container_exists_any_state :: "'w cli \<Rightarrow> string \<Rightarrow> 'w \<Rightarrow> 'w \<times> bool" where
  "container_exists_any_state cli name w =
     (let (w', r) = cli w [container_tool, ''ls'', ''-a'']
      in (w', started r \<and> exit_code r = 0 \<and> list_ex (first_word_is name) (drop 1 (lines_of (stdout_text r)))))"

definition rm_container :: "'w cli \<Rightarrow> string \<Rightarrow> 'w \<Rightarrow> 'w \<times> bool outcome" where
  "rm_container cli name w =
     (let (w', r) = cli w [container_tool, ''rm'', ''-f'', name]
      in (w', if \<not> started r then Inl (no_cli ''could not launch container CLI'') else Inr (exit_code r = 0)))"

text \<open>The loop over the services of the old state: whether the container has to be run, and messages.\<close>

definition reconcile_one ::
  "('w, 'o) app_os_scheme \<Rightarrow> string \<Rightarrow> string \<Rightarrow> string \<Rightarrow> string \<Rightarrow> app_service_state
     \<Rightarrow> 'w \<times> bool \<times> string list \<Rightarrow> 'w \<times> bool \<times> string list" where
  "reconcile_one os path name container fp old st =
     (case st of (w, needs, ms) \<Rightarrow>
        if ass_service old \<noteq> name \<or> ass_hash old \<noteq> fp then (w, needs, ms)
        else let (w1, lst) = manager_list (os_cli os) path w;
                 running = (case lst of Inl _ \<Rightarrow> False | Inr rows \<Rightarrow> list_ex (\<lambda>i. si_name i = container) rows);
                 (w2, exists) = container_exists_any_state (os_cli os) container w1
             in if running
                then (w2, False, ms @ [''[ok] '' @ name @ '' up to date ('' @ container @ '')''])
                else if exists
                then let (w3, ok) = cli_container (os_cli os) [''start'', container] w2
                     in (w3, False, ms @
                          [if ok = Inr True then ''[started] '' @ name @ '' ('' @ container @ '')''
                           else ''[warn] could not start '' @ container @ ''; remove it and re-run `hostely app up`''])
                else (w2, needs, ms))"

definition reconcile ::
  "('w, 'o) app_os_scheme \<Rightarrow> string \<Rightarrow> string \<Rightarrow> string \<Rightarrow> string \<Rightarrow> app_service_state list
     \<Rightarrow> 'w \<times> bool \<times> string list \<Rightarrow> 'w \<times> bool \<times> string list" where
  "reconcile os path name container fp olds st = fold (reconcile_one os path name container fp) olds st"

text \<open>
  One pass of the loop of app_up(). It ends with the world, the claimed ports, the messages and
  the message of the error or the new state of the service.
\<close>

definition recorded_ports :: "string \<Rightarrow> app_service_state list \<Rightarrow> (string \<times> string) list \<Rightarrow> (string \<times> string) list" where
  "recorded_ports name olds ports = fold (\<lambda>old p. if ass_service old = name then ass_ports old else p) olds ports"

definition clear_stale :: "('w, 'o) app_os_scheme \<Rightarrow> string \<Rightarrow> string \<Rightarrow> bool \<Rightarrow> 'w \<Rightarrow> 'w" where
  "clear_stale os path container needs w =
     (if needs then fst (rm_container (os_cli os) container (fst (manager_stop (os_cli os) path container w)))
      else w)"

definition start_service ::
  "('w, 'o) app_os_scheme \<Rightarrow> string \<Rightarrow> compose_service \<Rightarrow> run_options \<Rightarrow> string \<Rightarrow> bool \<Rightarrow> 'w
     \<Rightarrow> 'w \<times> string list \<times> (string + app_service_state)" where
  "start_service os path s ro fp needs w =
     (let new = \<lparr>ass_service = svc_name s, ass_container = opt_name ro, ass_image = svc_image s,
                 ass_hash = fp, ass_ports = opt_ports ro\<rparr>
      in if \<not> needs then (w, [], Inr new)
         else case manager_run (os_cli os) path ro w of
                (w', Inl e) \<Rightarrow> (w', [], Inl (''failed to start '' @ svc_name s @ '': '' @ message e @
                    (if stderr_tail e = [] then [] else [nl] @ stderr_tail e)))
              | (w', Inr cid) \<Rightarrow> (w', [''[up] '' @ svc_name s @ ''  ('' @ opt_name ro @ '', id '' @
                    take 12 cid @ '')''], Inr new))"

text \<open>The fingerprint is taken after the environment of the service has been rewritten.\<close>

definition up_service ::
  "('j, 'm) json_build_scheme \<Rightarrow> ('w, 'o) app_os_scheme \<Rightarrow> string \<Rightarrow> string \<Rightarrow> string \<Rightarrow> string list
     \<Rightarrow> compose_service \<Rightarrow> 'w \<times> int list \<times> string list
     \<Rightarrow> (('w \<times> int list \<times> string list) \<times> (string + app_service_state)) or_ub" where
  "up_service J os path app host names s st =
     (case st of (w, claimed, ms) \<Rightarrow>
        let container = app @ ''-'' @ svc_name s;
            env = rewrite_env host names s;
            vols = map (place_volume app (svc_name s)) (svc_volumes s);
            fp = config_fingerprint J (s\<lparr>svc_env := env\<rparr>);
            olds = (case load_state J os app w of None \<Rightarrow> [] | Some old \<Rightarrow> as_services old);
            (w1, needs, ms2) = reconcile os path (svc_name s) container fp olds
                                 (w, True, ms @ concat (map snd vols));
            w2 = clear_stale os path container needs w1
        in and_then (pick_ports (os_busy os w2) (svc_name s) (svc_ports s) claimed) (\<lambda>(picked, claimed', pms).
           let ports = (if needs then picked else recorded_ports (svc_name s) olds picked);
               ro = \<lparr>opt_name = container, opt_image = svc_image s, opt_ports = ports,
                     opt_env = env, opt_volumes = map fst vols,
                     opt_args = svc_command s, opt_dns = svc_dns s, opt_memory = svc_mem_limit s\<rparr>;
               run = start_service os path s ro fp needs w2
           in Inr ((fst run, claimed', ms2 @ pms @ fst (snd run)), snd (snd run))))"

fun up_services ::
  "('j, 'm) json_build_scheme \<Rightarrow> ('w, 'o) app_os_scheme \<Rightarrow> string \<Rightarrow> string \<Rightarrow> string \<Rightarrow> string list
     \<Rightarrow> compose_service list \<Rightarrow> 'w \<times> int list \<times> string list
     \<Rightarrow> (('w \<times> int list \<times> string list) \<times> (string + app_service_state list)) or_ub" where
  "up_services J os path app host names [] st = Inr (st, Inr [])"
| "up_services J os path app host names (s # ss) st =
     and_then (up_service J os path app host names s st) (\<lambda>(st', r).
       case r of
         Inl e \<Rightarrow> Inr (st', Inl e)
       | Inr new \<Rightarrow>
           and_then (up_services J os path app host names ss st') (\<lambda>(st'', r').
             Inr (st'', and_then r' (\<lambda>news. Inr (new # news)))))"

text \<open>
  The loop of app_up() over the services and the saving of the new state; the exception of
  save_state() leaves it as a thrown message.
\<close>

definition launch_app ::
  "('j, 'm) json_build_scheme \<Rightarrow> ('w, 'o) app_os_scheme \<Rightarrow> string \<Rightarrow> string \<Rightarrow> string
     \<Rightarrow> compose_service list \<Rightarrow> string list \<Rightarrow> 'w \<Rightarrow> ('w \<times> string list \<times> (string + unit) or_throw) or_ub" where
  "launch_app J os path app f ordered ms w =
     and_then (up_services J os path app (lan_ip (os_interfaces os w)) (name_set ordered) ordered (w, [], ms))
       (\<lambda>((w', cl, ms'), res).
         case res of
           Inl e \<Rightarrow> Inr (w', ms', Inr (Inl e))
         | Inr news \<Rightarrow>
             (case save_state J os \<lparr>as_name = app, as_compose = f, as_services = news\<rparr> w' of
                (w'', r) \<Rightarrow> Inr (w'', ms', r)))"

definition app_up ::
  "('j, 'm) json_build_scheme \<Rightarrow> ('w, 'o) app_os_scheme \<Rightarrow> string \<Rightarrow> string \<Rightarrow> string option
     \<Rightarrow> (string \<times> string) list \<Rightarrow> 'w \<Rightarrow> ('w \<times> string list \<times> (string + unit) or_throw) or_ub" where
  "app_up J os path dir name_override extra w =
     (case find_compose_file (os_readdir os w) (os_is_dir os w) (os_is_file os w) dir of
        None \<Rightarrow> Inr (w, [], Inr (Inl (''no compose.yaml / docker-compose.yml found in '' @ dir @
                  '' (searched the directory and subdirectories, depth 2)'')))
      | Some f \<Rightarrow>
          and_then (load_compose (os_file os w) (os_env os) f (fold (\<lambda>(k, v). put_sorted k v) extra [])) (\<lambda>r.
            case r of
              Inl e \<Rightarrow> Inr (w, [], Inr (Inl e))
            | Inr cf \<Rightarrow>
                let app = (case name_override of
                             Some n \<Rightarrow> if n = [] then app_name_from_dir dir else n
                           | None \<Rightarrow> app_name_from_dir dir);
                    ms = [''app        : '' @ app, ''compose    : '' @ f]
                in (case topo_sort (cf_services cf) of
                      Inl None \<Rightarrow> Inl NoReturn
                    | Inl (Some e) \<Rightarrow> Inr (w, ms, Inr (Inl e))
                    | Inr ordered \<Rightarrow> launch_app J os path app f ordered ms w)))"

section \<open>The other commands\<close>

fun stop_each ::
  "'w cli \<Rightarrow> string \<Rightarrow> app_service_state list \<Rightarrow> 'w \<Rightarrow> 'w \<times> string list" where
  "stop_each cli path [] w = (w, [])"
| "stop_each cli path (s # ss) w =
     (let (w1, r) = manager_stop cli path (ass_container s) w;
          (w2, ms) = stop_each cli path ss w1
      in (w2, (case r of Inr _ \<Rightarrow> ''[stopped] '' @ ass_container s
                       | Inl e \<Rightarrow> ''[warn] '' @ ass_container s @ '': '' @ message e) # ms))"

definition app_stop ::
  "('j, 'm) json_build_scheme \<Rightarrow> ('w, 'o) app_os_scheme \<Rightarrow> string \<Rightarrow> string \<Rightarrow> 'w
     \<Rightarrow> 'w \<times> string list \<times> (string + unit)" where
  "app_stop J os path app w =
     (case load_state J os app w of
        None \<Rightarrow> (w, [], Inl (''no known app named '' @ [squote] @ app @ [squote] @
                  '' (nothing was ever `hostely app up`'' @ [squote] @ ''d from it)''))
      | Some st \<Rightarrow>
          let (w', ms) = stop_each (os_cli os) path (rev (as_services st)) w in (w', ms, Inr ()))"

fun rm_each :: "'w cli \<Rightarrow> app_service_state list \<Rightarrow> 'w \<Rightarrow> 'w \<times> string list" where
  "rm_each cli [] w = (w, [])"
| "rm_each cli (s # ss) w =
     (let (w1, r) = rm_container cli (ass_container s) w;
          (w2, ms) = rm_each cli ss w1
      in (w2, (if r = Inr True then ''[removed] '' @ ass_container s
               else ''[warn] could not remove '' @ ass_container s) # ms))"

definition app_rm ::
  "('j, 'm) json_build_scheme \<Rightarrow> ('w, 'o) app_os_scheme \<Rightarrow> string \<Rightarrow> string \<Rightarrow> 'w
     \<Rightarrow> 'w \<times> string list \<times> (string + unit)" where
  "app_rm J os path app w =
     (case app_stop J os path app w of
        (w1, ms, Inl e) \<Rightarrow> (w1, ms, Inl e)
      | (w1, ms, Inr _) \<Rightarrow>
          let (w2, ms2) = rm_each (os_cli os) (case load_state J os app w1 of None \<Rightarrow> [] | Some st \<Rightarrow> as_services st) w1
          in (os_remove_state os w2 app, ms @ ms2, Inr ()))"

fun logs_each ::
  "'w cli \<Rightarrow> string \<Rightarrow> string option \<Rightarrow> bool \<Rightarrow> app_service_state list \<Rightarrow> string \<Rightarrow> 'w
     \<Rightarrow> 'w \<times> (string + string)" where
  "logs_each cli path service follow [] out w = (w, Inr out)"
| "logs_each cli path service follow (s # ss) out w =
     (if (case service of None \<Rightarrow> False | Some n \<Rightarrow> n \<noteq> ass_service s \<and> n \<noteq> ass_container s)
      then logs_each cli path service follow ss out w
      else case manager_logs cli path (ass_container s) follow w of
             (w', Inl e) \<Rightarrow> (w', Inl (ass_container s @ '': '' @ message e))
           | (w', Inr t) \<Rightarrow>
               let rule = concat (replicate 2 [CHR 0xE2, CHR 0x94, CHR 0x80]);
                   out' = out @ rule @ '' '' @ ass_container s @ '' '' @ rule @ [nl] @ t @ [nl]
               in if follow then (w', Inr out') else logs_each cli path service follow ss out' w')"

definition app_logs ::
  "('j, 'm) json_build_scheme \<Rightarrow> ('w, 'o) app_os_scheme \<Rightarrow> string \<Rightarrow> string \<Rightarrow> string option \<Rightarrow> bool \<Rightarrow> 'w
     \<Rightarrow> 'w \<times> (string + string)" where
  "app_logs J os path app service follow w =
     (case load_state J os app w of
        None \<Rightarrow> (w, Inl (''no known app named '' @ [squote] @ app @ [squote]))
      | Some st \<Rightarrow> logs_each (os_cli os) path service follow (as_services st) [] w)"

definition ps_status :: "'w cli \<Rightarrow> string \<Rightarrow> string \<Rightarrow> 'w \<Rightarrow> 'w \<times> string" where
  "ps_status cli path container w =
     (let (w', lst) = manager_list cli path w
      in (w', case lst of
                Inl _ \<Rightarrow> ''?''
              | Inr rows \<Rightarrow> (case find (\<lambda>i. si_name i = container) rows of None \<Rightarrow> ''?'' | Some i \<Rightarrow> si_status i)))"

definition ports_text :: "(string \<times> string) list \<Rightarrow> string" where
  "ports_text ps = foldl (\<lambda>t (h, c). t @ (if t = [] then [] else '', '') @ h @ ''->'' @ c) [] ps"

fun ps_lines :: "'w cli \<Rightarrow> string \<Rightarrow> app_service_state list \<Rightarrow> 'w \<Rightarrow> 'w \<times> string list" where
  "ps_lines cli path [] w = (w, [])"
| "ps_lines cli path (s # ss) w =
     (let (w1, status) = ps_status cli path (ass_container s) w;
          (w2, ls) = ps_lines cli path ss w1
      in (w2, (ass_container s @ ''  '' @ status @ ''  '' @ ports_text (ass_ports s)) # ls))"

text \<open>app_ps() over the entries of the state directory, each a stem and an extension.\<close>

fun ps_each ::
  "('j, 'm) json_build_scheme \<Rightarrow> ('w, 'o) app_os_scheme \<Rightarrow> string \<Rightarrow> (string \<times> string) list \<Rightarrow> 'w
     \<Rightarrow> 'w \<times> (string \<times> string list) list" where
  "ps_each J os path [] w = (w, [])"
| "ps_each J os path ((stem, ext) # es) w =
     (if ext \<noteq> [] \<and> ext \<noteq> ''.json'' then ps_each J os path es w
      else case load_state J os stem w of
             None \<Rightarrow> ps_each J os path es w
           | Some st \<Rightarrow>
               let (w1, ls) = ps_lines (os_cli os) path (as_services st) w;
                   (w2, rest) = ps_each J os path es w1
               in (w2, (stem, ls) # rest))"

definition app_ps ::
  "('j, 'm) json_build_scheme \<Rightarrow> ('w, 'o) app_os_scheme \<Rightarrow> string \<Rightarrow> 'w \<Rightarrow> 'w \<times> (string \<times> string list) list" where
  "app_ps J os path w = ps_each J os path (os_apps os w) w"

section \<open>The order of the services\<close>

definition grows :: "topo \<Rightarrow> topo \<Rightarrow> bool" where
  "grows t t' \<longleftrightarrow> (\<forall>n b. fst t n = Some b \<longrightarrow> fst t' n = Some b)"

lemma grows_refl [simp]: "grows t t" by (simp add: grows_def)

lemma grows_trans: "grows t t' \<Longrightarrow> grows t' t'' \<Longrightarrow> grows t t''" by (simp add: grows_def)

text \<open>Every service stands after the services it depends on.\<close>

definition deps_first :: "compose_service list \<Rightarrow> bool" where
  "deps_first out \<longleftrightarrow>
     (\<forall>pre s post. out = pre @ s # post \<longrightarrow> set (svc_depends_on s) \<subseteq> svc_name ` set pre)"

lemma deps_first_snoc:
  "deps_first out \<Longrightarrow> set (svc_depends_on s) \<subseteq> svc_name ` set out \<Longrightarrow> deps_first (out @ [s])"
  unfolding deps_first_def by (metis append_eq_append_conv2 append_Cons append_Nil butlast.simps(2) butlast_append butlast_snoc last_snoc list.distinct(1) last_appendR last_ConsL)

definition topo_ok :: "compose_service list \<Rightarrow> topo \<Rightarrow> bool" where
  "topo_ok ss t \<longleftrightarrow>
     set (snd t) \<subseteq> set ss \<and> deps_first (snd t) \<and> distinct (map svc_name (snd t)) \<and>
     (\<forall>n. fst t n = Some True \<longleftrightarrow> n \<in> svc_name ` set (snd t))"

lemma topo_ok_mark:
  assumes "topo_ok ss t" and "fst t n = None"
  shows "topo_ok ss ((fst t)(n \<mapsto> False), snd t)"
proof -
  have "n \<notin> svc_name ` set (snd t)" using assms unfolding topo_ok_def by force
  then show ?thesis using assms by (simp add: topo_ok_def)
qed

definition names_ok :: "compose_service list \<Rightarrow> (string \<Rightarrow> compose_service option) \<Rightarrow> bool" where
  "names_ok ss by_name \<longleftrightarrow> (\<forall>d s. by_name d = Some s \<longrightarrow> s \<in> set ss \<and> svc_name s = d)"

lemma by_name_of_ok: "names_ok ss (by_name_of ss)"
  unfolding names_ok_def by_name_of_def by (auto dest!: map_of_SomeD)

lemma visit_deps_ok:
  assumes call: "\<And>s t t'. call s t = Inr t' \<Longrightarrow> topo_ok ss t \<Longrightarrow> s \<in> set ss \<Longrightarrow>
      topo_ok ss t' \<and> grows t t' \<and> fst t' (svc_name s) = Some True"
    and "names_ok ss by_name"
  shows "visit_deps call by_name name deps t = Inr t' \<Longrightarrow> topo_ok ss t \<Longrightarrow>
      topo_ok ss t' \<and> grows t t' \<and> (\<forall>d \<in> set deps. fst t' d = Some True)"
proof (induction deps arbitrary: t)
  case (Cons d deps)
  obtain s where s: "by_name d = Some s" using Cons.prems(1) by (cases "by_name d") auto
  have s': "s \<in> set ss" "svc_name s = d" using assms(2) s by (auto simp: names_ok_def)
  obtain t1 where t1: "call s t = Inr t1" "visit_deps call by_name name deps t1 = Inr t'"
    using Cons.prems(1) s by (auto simp: and_then_Inr)
  note c = call [OF t1(1) Cons.prems(2) s'(1)]
  with Cons.IH [OF t1(2)] have r: "topo_ok ss t'" "grows t1 t'" "\<forall>d \<in> set deps. fst t' d = Some True" by auto
  then have "fst t' d = Some True" using c s'(2) unfolding grows_def by blast
  then show ?case using r c grows_trans [of t t1 t'] by auto
qed simp

lemma visit_ok:
  "visit f by_name s t = Inr t' \<Longrightarrow> topo_ok ss t \<Longrightarrow> names_ok ss by_name \<Longrightarrow> s \<in> set ss \<Longrightarrow>
     topo_ok ss t' \<and> grows t t' \<and> fst t' (svc_name s) = Some True"
proof (induction f arbitrary: s t t')
  case (Suc f)
  show ?case
  proof (cases "fst t (svc_name s)")
    case (Some b)
    with Suc.prems show ?thesis by (cases b) auto
  next
    case None
    let ?t0 = "((fst t)(svc_name s \<mapsto> False), snd t)"
    obtain t1 where t1: "visit_deps (visit f by_name) by_name (svc_name s) (svc_depends_on s) ?t0 = Inr t1"
      "t' = ((fst t1)(svc_name s \<mapsto> True), snd t1 @ [s])"
      using Suc.prems(1) None by (auto simp: and_then_Inr)
    have t0: "topo_ok ss ?t0" using Suc.prems(2) None by (rule topo_ok_mark)
    have "topo_ok ss t1 \<and> grows ?t0 t1 \<and> (\<forall>d \<in> set (svc_depends_on s). fst t1 d = Some True)"
      using visit_deps_ok [OF _ Suc.prems(3) t1(1) t0] Suc.IH [OF _ _ Suc.prems(3)] by blast
    then have d: "topo_ok ss t1" "grows ?t0 t1" "\<forall>d \<in> set (svc_depends_on s). fst t1 d = Some True" by auto
    have f: "fst t1 (svc_name s) = Some False" using d(2) by (simp add: grows_def)
    then have new: "svc_name s \<notin> svc_name ` set (snd t1)" using d(1) unfolding topo_ok_def by force
    have "set (svc_depends_on s) \<subseteq> svc_name ` set (snd t1)" using d(1,3) by (auto simp: topo_ok_def)
    then have "topo_ok ss t'"
      using d(1) new Suc.prems(4) t1(2) by (auto simp: topo_ok_def deps_first_snoc)
    moreover have "grows t t'" using d(2) None t1(2) by (auto simp: grows_def)
    ultimately show ?thesis using t1(2) by simp
  qed
qed simp

lemma visit_all_ok:
  "visit_all (visit f by_name) xs t = Inr t' \<Longrightarrow> topo_ok ss t \<Longrightarrow> names_ok ss by_name \<Longrightarrow> set xs \<subseteq> set ss \<Longrightarrow>
     topo_ok ss t' \<and> grows t t' \<and> (\<forall>s \<in> set xs. fst t' (svc_name s) = Some True)"
proof (induction xs arbitrary: t)
  case (Cons x xs)
  obtain t1 where t1: "visit f by_name x t = Inr t1" "visit_all (visit f by_name) xs t1 = Inr t'"
    using Cons.prems(1) by (auto simp: and_then_Inr)
  have c: "topo_ok ss t1 \<and> grows t t1 \<and> fst t1 (svc_name x) = Some True"
    using visit_ok [OF t1(1) Cons.prems(2,3)] Cons.prems(4) by simp
  with Cons.IH [OF t1(2) _ Cons.prems(3)] Cons.prems(4)
  have r: "topo_ok ss t'" "grows t1 t'" "\<forall>s \<in> set xs. fst t' (svc_name s) = Some True" by auto
  then have "fst t' (svc_name x) = Some True" using c by (simp add: grows_def)
  then show ?case using r c grows_trans [of t t1 t'] by auto
qed simp

text \<open>The fuel: one call for each name without a mark, and one more.\<close>

definition unmarked :: "compose_service list \<Rightarrow> topo \<Rightarrow> nat" where
  "unmarked ss t = card {n \<in> svc_name ` set ss. fst t n = None}"

lemma unmarked_grows: "grows t t' \<Longrightarrow> unmarked ss t' \<le> unmarked ss t"
  unfolding unmarked_def grows_def by (rule card_mono) (auto, metis not_None_eq)

lemma unmarked_mark:
  "s \<in> set ss \<Longrightarrow> fst t (svc_name s) = None \<Longrightarrow>
     unmarked ss ((fst t)(svc_name s \<mapsto> b), out) < unmarked ss t"
  unfolding unmarked_def by (rule psubset_card_mono) auto

lemma visit_deps_fuel:
  assumes "\<And>s t. s \<in> set ss \<Longrightarrow> topo_ok ss t \<Longrightarrow> unmarked ss t < f \<Longrightarrow> visit f by_name s t \<noteq> Inl None"
    and "names_ok ss by_name"
  shows "topo_ok ss t \<Longrightarrow> unmarked ss t < f \<Longrightarrow> visit_deps (visit f by_name) by_name name deps t \<noteq> Inl None"
proof (induction deps arbitrary: t)
  case (Cons d deps)
  show ?case
  proof (cases "by_name d")
    case (Some s)
    then have s: "s \<in> set ss" using assms(2) by (auto simp: names_ok_def)
    have "visit_deps (visit f by_name) by_name name deps t' \<noteq> Inl None" if "visit f by_name s t = Inr t'" for t'
      using Cons.IH [of t'] visit_ok [OF that Cons.prems(1) assms(2) s] unmarked_grows [of t t' ss] Cons.prems(2)
      by auto
    then show ?thesis using Some assms(1) [OF s Cons.prems] by (auto simp: and_then_Inl)
  qed simp
qed simp

lemma visit_fuel:
  "s \<in> set ss \<Longrightarrow> topo_ok ss t \<Longrightarrow> names_ok ss by_name \<Longrightarrow> unmarked ss t < f \<Longrightarrow> visit f by_name s t \<noteq> Inl None"
proof (induction f arbitrary: s t)
  case (Suc f)
  show ?case
  proof (cases "fst t (svc_name s)")
    case (Some b)
    then show ?thesis by (cases b) auto
  next
    case None
    let ?t0 = "((fst t)(svc_name s \<mapsto> False), snd t)"
    have "topo_ok ss ?t0" using Suc.prems(2) None by (rule topo_ok_mark)
    moreover have "unmarked ss ?t0 < f"
      using unmarked_mark [OF Suc.prems(1) None, of False "snd t"] Suc.prems(4) by simp
    ultimately have "visit_deps (visit f by_name) by_name name deps ?t0 \<noteq> Inl None" for name deps
      using visit_deps_fuel [OF _ Suc.prems(3)] Suc.IH [OF _ _ Suc.prems(3)] by blast
    then show ?thesis using None by (simp add: and_then_Inl)
  qed
qed simp

lemma visit_all_fuel:
  "set xs \<subseteq> set ss \<Longrightarrow> topo_ok ss t \<Longrightarrow> names_ok ss by_name \<Longrightarrow> unmarked ss t < f \<Longrightarrow>
     visit_all (visit f by_name) xs t \<noteq> Inl None"
proof (induction xs arbitrary: t)
  case (Cons x xs)
  have "visit_all (visit f by_name) xs t' \<noteq> Inl None" if "visit f by_name x t = Inr t'" for t'
    using Cons.IH [of t'] visit_ok [OF that Cons.prems(2,3)] unmarked_grows [of t t' ss] Cons.prems by auto
  then show ?case using visit_fuel [of x ss t by_name f] Cons.prems by (auto simp: and_then_Inl)
qed simp

lemma topo_ok_init: "topo_ok ss (Map.empty, [])"
  by (simp add: topo_ok_def deps_first_def)

section \<open>Ports\<close>

lemma pick_from_free: "pick_from busy p = Some q \<Longrightarrow> \<not> busy q \<and> p \<le> q"
proof (erule pick_from.raw_induct [where P = "\<lambda>busy p q. \<not> busy q \<and> p \<le> q", rotated])
  fix f and busy :: "int \<Rightarrow> bool" and p q :: int
  assume ih: "\<And>busy p q. f busy p = Some q \<Longrightarrow> \<not> busy q \<and> p \<le> q"
    and step: "(if busy p then f busy (p + 1) else Some p) = Some q"
  show "\<not> busy q \<and> p \<le> q" using ih [of busy "p + 1" q] step by (fastforce split: if_splits)
qed

text \<open>The ports chosen for the wanted positive ports of a service are free, unclaimed and distinct.\<close>

fun chosen :: "(string \<times> string) list \<Rightarrow> (string \<times> string) list \<Rightarrow> int list \<Rightarrow> bool" where
  "chosen [] [] [] \<longleftrightarrow> True"
| "chosen ((h, c) # ps) ((h', c') # out) new \<longleftrightarrow> c' = c \<and>
     (if atoi h \<le> 0 then h' = h \<and> chosen ps out new
      else case new of [] \<Rightarrow> False | p # new' \<Rightarrow> atoi h \<le> p \<and> h' = string_of_int p \<and> chosen ps out new')"
| "chosen _ _ _ \<longleftrightarrow> False"

lemma pick_ports_spec:
  "pick_ports in_use name ps claimed = Inr (out, cl, ms) \<Longrightarrow>
     \<exists>new. cl = rev new @ claimed \<and> distinct new \<and> set new \<inter> set claimed = {} \<and>
       list_all (\<lambda>p. \<not> in_use p) new \<and> chosen ps out new"
proof (induction in_use name ps claimed arbitrary: out cl ms rule: pick_ports.induct)
  case (2 in_use name h c ps claimed)
  let ?busy = "\<lambda>p. in_use p \<or> p \<in> set claimed"
  show ?case
  proof (cases "atoi h \<le> 0")
    case True
    then obtain out' where o: "pick_ports in_use name ps claimed = Inr (out', cl, ms)" "out = (h, c) # out'"
      using "2.prems" by (auto simp: and_then_Inr)
    from "2.IH"(1) [OF refl refl True o(1)] show ?thesis using True o(2) by auto
  next
    case False
    let ?pick = "if ?busy (atoi h) then pick_from ?busy (atoi h + 1) else Some (atoi h)"
    obtain p out' ms' where o: "?pick = Some p" "pick_ports in_use name ps (p # claimed) = Inr (out', cl, ms')"
      "out = (string_of_int p, c) # out'"
      using "2.prems" False by (auto simp: and_then_Inr Let_def split: option.splits)
    have p: "\<not> ?busy p" "atoi h \<le> p"
      using o(1) pick_from_free [of ?busy "atoi h + 1" p] by (auto split: if_splits)
    from "2.IH"(2) [OF refl refl False o(1) o(2)] obtain new where n: "cl = rev new @ p # claimed" "distinct new"
      "set new \<inter> set (p # claimed) = {}" "list_all (\<lambda>p. \<not> in_use p) new" "chosen ps out' new"
      by blast
    show ?thesis using n p False o(3) by (intro exI [of _ "p # new"]) auto
  qed
qed simp

section \<open>Runs that fail keep the state file\<close>

definition same_files :: "('w, 'o) app_os_scheme \<Rightarrow> 'w \<Rightarrow> 'w \<Rightarrow> bool" where
  "same_files os w w' \<longleftrightarrow> (\<forall>app. os_read_state os w' app = os_read_state os w app)"

lemma same_files_refl [simp]: "same_files os w w" by (simp add: same_files_def)

lemma same_files_trans: "same_files os w w' \<Longrightarrow> same_files os w' w'' \<Longrightarrow> same_files os w w''"
  by (simp add: same_files_def)

text \<open>The container tool does not write the state files of the apps.\<close>

definition cli_keeps_files :: "('w, 'o) app_os_scheme \<Rightarrow> bool" where
  "cli_keeps_files os \<longleftrightarrow> (\<forall>w argv. same_files os w (fst (os_cli os w argv)))"

lemma cli_keeps: "cli_keeps_files os \<Longrightarrow> os_cli os w argv = (w', r) \<Longrightarrow> same_files os w w'"
  unfolding cli_keeps_files_def by (metis fst_conv)

lemma manager_keeps:
  assumes "cli_keeps_files os"
  shows "same_files os w (fst (manager_list (os_cli os) path w))"
    and "same_files os w (fst (manager_stop (os_cli os) path name w))"
    and "same_files os w (fst (manager_run (os_cli os) path opts w))"
    and "same_files os w (fst (container_exists_any_state (os_cli os) name w))"
    and "same_files os w (fst (cli_container (os_cli os) args w))"
    and "same_files os w (fst (rm_container (os_cli os) name w))"
  using assms
  by (auto simp: manager_list_def manager_stop_def manager_run_def container_exists_any_state_def
      cli_container_def rm_container_def Let_def dest: cli_keeps split: prod.split)

lemma reconcile_one_keeps:
  assumes "cli_keeps_files os"
  shows "same_files os (fst st) (fst (reconcile_one os path name container fp old st))"
proof -
  obtain w needs ms where st: "st = (w, needs, ms)" by (cases st)
  obtain w1 lst where l: "manager_list (os_cli os) path w = (w1, lst)" by (cases "manager_list (os_cli os) path w")
  obtain w2 ex where e: "container_exists_any_state (os_cli os) container w1 = (w2, ex)"
    by (cases "container_exists_any_state (os_cli os) container w1")
  obtain w3 ok where c: "cli_container (os_cli os) [''start'', container] w2 = (w3, ok)"
    by (cases "cli_container (os_cli os) [''start'', container] w2")
  have k1: "same_files os w w1" using manager_keeps(1) [OF assms, of w path] l by simp
  have "same_files os w1 w2" using manager_keeps(4) [OF assms, of w1 container] e by simp
  with k1 have k2: "same_files os w w2" by (rule same_files_trans)
  have "same_files os w2 w3" using manager_keeps(5) [OF assms, of w2 "[''start'', container]"] c by simp
  with k2 have k3: "same_files os w w3" by (rule same_files_trans)
  have "fst (reconcile_one os path name container fp old st) \<in> {w, w2, w3}"
    by (simp add: reconcile_one_def st l e c Let_def)
  with k2 k3 show ?thesis unfolding st by auto
qed

lemma reconcile_keeps:
  "cli_keeps_files os \<Longrightarrow> same_files os (fst st) (fst (reconcile os path name container fp olds st))"
  unfolding reconcile_def
proof (induction olds arbitrary: st)
  case (Cons old olds)
  show ?case
    using same_files_trans [OF reconcile_one_keeps [OF Cons.prems] Cons.IH [OF Cons.prems]] by simp
qed simp

lemma clear_stale_keeps: "cli_keeps_files os \<Longrightarrow> same_files os w (clear_stale os path container needs w)"
  unfolding clear_stale_def
  by (auto intro!: same_files_trans [OF manager_keeps(2) manager_keeps(6)])

lemma start_service_keeps:
  "cli_keeps_files os \<Longrightarrow> same_files os w (fst (start_service os path s ro fp needs w))"
  using manager_keeps(3) [of os w path ro]
  by (auto simp: start_service_def Let_def split: prod.split sum.split)

lemma up_service_keeps:
  assumes "cli_keeps_files os"
    and up: "up_service J os path app host names s (w, cl, ms) = Inr ((w', cl', ms'), r)"
  shows "same_files os w w'"
proof -
  let ?container = "app @ ''-'' @ svc_name s"
  let ?fp = "config_fingerprint J (s\<lparr>svc_env := rewrite_env host names s\<rparr>)"
  let ?olds = "case load_state J os app w of None \<Rightarrow> [] | Some old \<Rightarrow> as_services old"
  let ?ms1 = "ms @ concat (map snd (map (place_volume app (svc_name s)) (svc_volumes s)))"
  obtain w1 needs ms2 where rec: "reconcile os path (svc_name s) ?container ?fp ?olds (w, True, ?ms1) = (w1, needs, ms2)"
    by (cases "reconcile os path (svc_name s) ?container ?fp ?olds (w, True, ?ms1)")
  let ?w2 = "clear_stale os path ?container needs w1"
  have "same_files os w w1"
    using reconcile_keeps [OF assms(1), of "(w, True, ?ms1)" path "svc_name s" ?container ?fp ?olds] rec by simp
  then have k2: "same_files os w ?w2" by (rule same_files_trans [OF _ clear_stale_keeps [OF assms(1)]])
  obtain ro where "w' = fst (start_service os path s ro ?fp needs ?w2)"
    using up unfolding up_service_def Let_def prod.case rec by (auto simp: and_then_Inr)
  then show ?thesis using same_files_trans [OF k2 start_service_keeps [OF assms(1)]] by simp
qed

lemma up_services_keeps:
  "cli_keeps_files os \<Longrightarrow>
     up_services J os path app host names ss st = Inr (st', r) \<Longrightarrow> same_files os (fst st) (fst st')"
proof (induction ss arbitrary: st st' r)
  case (Cons s ss)
  obtain st1 r1 where u: "up_service J os path app host names s st = Inr (st1, r1)"
    using Cons.prems(2) by (auto simp: and_then_Inr)
  have k: "same_files os (fst st) (fst st1)"
    using up_service_keeps [OF Cons.prems(1), of J path app host names s "fst st" "fst (snd st)" "snd (snd st)"
        "fst st1" "fst (snd st1)" "snd (snd st1)" r1] u by simp
  show ?case
  proof (cases r1)
    case (Inl e)
    then show ?thesis using Cons.prems(2) u k by simp
  next
    case (Inr new)
    then obtain r2 where "up_services J os path app host names ss st1 = Inr (st', r2)"
      using Cons.prems(2) u by (auto simp: and_then_Inr)
    then show ?thesis using same_files_trans [OF k Cons.IH [OF Cons.prems(1)]] by simp
  qed
qed simp

lemma launch_app_keeps:
  assumes "cli_keeps_files os" and l: "launch_app J os path app f ordered ms w = Inr (w', ms', Inr (Inl e))"
  shows "same_files os w w'"
proof -
  obtain w1 cl ms1 res where
    u: "up_services J os path app (lan_ip (os_interfaces os w)) (name_set ordered) ordered (w, [], ms) =
      Inr ((w1, cl, ms1), res)"
    using l by (auto simp: launch_app_def and_then_Inr)
  have k: "same_files os w w1" using up_services_keeps [OF assms(1) u] by simp
  have "w' = w1"
  proof (cases res)
    case (Inl m)
    then show ?thesis using l u by (simp add: launch_app_def)
  next
    case (Inr news)
    then show ?thesis using l u by (auto simp: launch_app_def save_state_def split: option.splits sum.splits)
  qed
  with k show ?thesis by simp
qed

section \<open>The state file is read back\<close>

lemma each_then_map: "(\<And>x. x \<in> set xs \<Longrightarrow> f (g x) = Inr (h x)) \<Longrightarrow> each_then f (map g xs) = Inr (map h xs)"
  by (induction xs) auto

lemma read_pair_json: "json_ok J \<Longrightarrow> read_port J (pair_json J p) = Inr [p]"
  by (simp add: pair_json_def get_str_def json_okD(3-6))

lemma each_pair_json:
  "json_ok J \<Longrightarrow> each_then (read_port J) (map (pair_json J) ps) = Inr (map (\<lambda>p. [p]) ps)"
  by (rule each_then_map) (rule read_pair_json)

lemma concat_singles: "concat (map (\<lambda>x. [x]) xs) = xs"
  by (induction xs) auto

lemma read_service_json: "json_ok J \<Longrightarrow> read_service J (service_json J s) = Inr s"
  by (simp add: read_service_def service_json_def json_okD(1-4) concat_singles each_pair_json)

lemma each_service_json: "json_ok J \<Longrightarrow> each_then (read_service J) (map (service_json J) ss) = Inr ss"
proof -
  assume J: "json_ok J"
  have "each_then (read_service J) (map (service_json J) ss) = Inr (map (\<lambda>s. s) ss)"
    by (rule each_then_map) (rule read_service_json [OF J])
  then show ?thesis by simp
qed

lemma parse_state_json:
  assumes "json_ok J" and "j_pretty J (state_json J st) = Inr t"
  shows "parse_state J app (t @ [nl]) = Inr st"
  using json_okD(7) [OF assms]
  by (simp add: parse_state_def state_json_def json_okD(1-4) [OF assms(1)] each_service_json [OF assms(1)])

text \<open>Two relative sources mounted under the same last name become one named volume.\<close>

lemma volumes_collide:
  assumes "\<not> looks_absolute s1" and "\<not> looks_absolute s2" and "CHR ''/'' \<in> set s1" and "CHR ''/'' \<in> set s2"
    and "basename_of (trim_slash d1) = basename_of (trim_slash d2)"
  shows "fst (fst (place_volume app name (s1, d1))) = fst (fst (place_volume app name (s2, d2)))"
proof -
  have "find_char (CHR ''/'') s1 \<noteq> None" "find_char (CHR ''/'') s2 \<noteq> None"
    using assms(3,4) by (auto simp: find_char_def)
  then show ?thesis using assms(1,2,5) by (auto simp: place_volume_def Let_def)
qed

text \<open>The name derived from a directory is made of letters, digits, dashes and underscores; that of "." is a dash.\<close>

lemma app_name_chars:
  "app_name_from_dir dir \<noteq> [] \<and>
   list_all (\<lambda>c. is_alnum c \<or> c = CHR ''-'' \<or> c = CHR ''_'') (app_name_from_dir dir)"
proof -
  have "list_all (\<lambda>c. is_alnum c \<or> c = CHR ''-'' \<or> c = CHR ''_'') ''app''" by code_simp
  then show ?thesis by (auto simp: app_name_from_dir_def Let_def list_all_iff)
qed

lemma app_name_of_dot: "app_name_from_dir ''.'' = ''-''"
  by code_simp

text \<open>A world that is the state files, with a fixed answer of the container tool and one busy port.\<close>

definition demo_os :: "cli_result \<Rightarrow> (string \<Rightarrow> string option) app_os" where
  "demo_os r =
     \<lparr>os_cli = (\<lambda>w argv. (w, r)), os_busy = (\<lambda>w p. p = 80), os_env = (\<lambda>_. None), os_file = (\<lambda>_ _. None),
      os_readdir = (\<lambda>_ _. []), os_is_dir = (\<lambda>_ _. False), os_is_file = (\<lambda>_ _. False),
      os_interfaces = (\<lambda>_. None), os_state_path = (\<lambda>a. a), os_read_state = (\<lambda>w a. w a),
      os_write_state = (\<lambda>w a s. Some (w(a \<mapsto> s))), os_remove_state = (\<lambda>w a. w(a := None)), os_apps = (\<lambda>_. [])\<rparr>"

section \<open>Properties\<close>

text \<open>
  C16. topo_sort() ends on every list of services; when it succeeds on services with distinct names,
  the result holds exactly those services, each after all services it depends on.
\<close>

theorem topo_sort_orders:
  "topo_sort ss \<noteq> Inl None \<and>
   (distinct (map svc_name ss) \<longrightarrow> topo_sort ss = Inr out \<longrightarrow> mset out = mset ss \<and> deps_first out)"
proof
  have "unmarked ss (Map.empty, []) \<le> card (svc_name ` set ss)"
    unfolding unmarked_def by (rule card_mono) auto
  also have "\<dots> \<le> length ss" by (metis card_length length_map list.set_map)
  finally show "topo_sort ss \<noteq> Inl None"
    using visit_all_fuel [OF subset_refl topo_ok_init by_name_of_ok] by (auto simp: topo_sort_def and_then_Inl)
  show "distinct (map svc_name ss) \<longrightarrow> topo_sort ss = Inr out \<longrightarrow> mset out = mset ss \<and> deps_first out"
  proof (intro impI)
    assume d: "distinct (map svc_name ss)" and r: "topo_sort ss = Inr out"
    obtain t where t: "visit_all (visit (length ss + 1) (by_name_of ss)) ss (Map.empty, []) = Inr t" "out = snd t"
      using r by (auto simp: topo_sort_def and_then_Inr)
    have k: "topo_ok ss t" "\<forall>s \<in> set ss. fst t (svc_name s) = Some True"
      using visit_all_ok [OF t(1) topo_ok_init by_name_of_ok subset_refl] by auto
    have "set ss \<subseteq> set out"
    proof
      fix s assume s: "s \<in> set ss"
      then have "svc_name s \<in> svc_name ` set out" using k t(2) unfolding topo_ok_def by blast
      then obtain s' where s': "s' \<in> set out" "svc_name s' = svc_name s" by auto
      then have "s' \<in> set ss" using k(1) t(2) by (auto simp: topo_ok_def)
      then show "s \<in> set out" using s' s d by (metis distinct_map inj_onD)
    qed
    then have "set out = set ss" using k(1) t(2) by (auto simp: topo_ok_def)
    moreover have "distinct out" "distinct ss" using k(1) t(2) d by (auto simp: topo_ok_def distinct_map)
    ultimately have "mset out = mset ss" using set_eq_iff_mset_eq_distinct by blast
    then show "mset out = mset ss \<and> deps_first out" using k(1) t(2) by (simp add: topo_ok_def)
  qed
qed

definition demo_service :: "string \<Rightarrow> string list \<Rightarrow> compose_service" where
  "demo_service name deps =
     \<lparr>svc_name = name, svc_image = ''i'', svc_ports = [], svc_env = [], svc_volumes = [], svc_command = [],
      svc_depends_on = deps, svc_dns = [], svc_mem_limit = []\<rparr>"

theorem topo_sort_orders_witness:
  "mset [demo_service ''db'' [], demo_service ''app'' [''db'']] =
     mset [demo_service ''app'' [''db''], demo_service ''db'' []] \<and>
   deps_first [demo_service ''db'' [], demo_service ''app'' [''db'']]"
proof -
  let ?ss = "[demo_service ''app'' [''db''], demo_service ''db'' []]"
  let ?out = "[demo_service ''db'' [], demo_service ''app'' [''db'']]"
  have "topo_sort ?ss = Inr ?out"
    by (simp add: topo_sort_def by_name_of_def demo_service_def)
  moreover have "distinct (map svc_name ?ss)" by (simp add: demo_service_def)
  ultimately show ?thesis using topo_sort_orders [of ?ss ?out] by blast
qed

text \<open>
  The host ports chosen for one service are not in use, not claimed by an earlier service and
  pairwise distinct, each at or above the wanted one; they are claimed for the services that follow.
\<close>

theorem picked_ports_are_free:
  assumes "pick_ports in_use name ps claimed = Inr (out, cl, ms)"
  shows "\<exists>new. cl = rev new @ claimed \<and> distinct new \<and> set new \<inter> set claimed = {} \<and>
    list_all (\<lambda>p. \<not> in_use p) new \<and> chosen ps out new"
  using assms by (rule pick_ports_spec)

theorem picked_ports_are_free_witness:
  "\<exists>new. [81, 80] = rev new @ [80] \<and> distinct new \<and> set new \<inter> set [80::int] = {} \<and>
    list_all (\<lambda>p. \<not> False) new \<and> chosen [(''80'', ''8080'')] [(''81'', ''8080'')] new"
proof -
  have "atoi ''80'' = 80" "string_of_int 81 = ''81''" "string_of_int 80 = ''80''" by code_simp+
  moreover have "pick_from (\<lambda>p. p = 80) 81 = Some 81" by (subst pick_from.simps) simp
  ultimately have "pick_ports (\<lambda>_. False) ''web'' [(''80'', ''8080'')] [80] =
    Inr ([(''81'', ''8080'')], [81, 80], [''[info] host port 80 in use; web uses 81 instead''])"
    by simp
  then show ?thesis by (rule picked_ports_are_free)
qed

text \<open>
  C17. An app_up() that ends with an error leaves the state files of all apps as they were, provided
  the container tool does not write them.
\<close>

theorem failed_up_keeps_state:
  assumes "cli_keeps_files os" and "app_up J os path dir name extra w = Inr (w', ms, Inr (Inl e))"
  shows "\<forall>app. os_read_state os w' app = os_read_state os w app"
proof -
  have "same_files os w w'"
  proof (cases "find_compose_file (os_readdir os w) (os_is_dir os w) (os_is_file os w) dir")
    case None
    then show ?thesis using assms(2) by (simp add: app_up_def)
  next
    case (Some f)
    let ?extra = "fold (\<lambda>(k, v). put_sorted k v) extra []"
    obtain r where l: "load_compose (os_file os w) (os_env os) f ?extra = Inr r"
      using assms(2) Some by (cases "load_compose (os_file os w) (os_env os) f ?extra") (simp_all add: app_up_def)
    show ?thesis
    proof (cases r)
      case (Inl m)
      then show ?thesis using assms(2) Some l by (simp add: app_up_def)
    next
      case r: (Inr cf)
      show ?thesis
      proof (cases "topo_sort (cf_services cf)")
        case (Inl m)
        then show ?thesis using assms(2) Some l r by (cases m) (simp_all add: app_up_def Let_def)
      next
        case (Inr ordered)
        have "\<exists>app ms0. launch_app J os path app f ordered ms0 w = Inr (w', ms, Inr (Inl e))"
          using assms(2) unfolding app_up_def Some option.case l and_then.simps r sum.case Let_def Inr by blast
        then show ?thesis using launch_app_keeps [OF assms(1)] by blast
      qed
    qed
  qed
  then show ?thesis by (simp add: same_files_def)
qed

theorem failed_up_keeps_state_witness:
  "\<exists>w' ms e. app_up tree_json (demo_os \<lparr>exit_code = 0, stdout_text = [], stderr_text = []\<rparr>)
       ''container'' ''d'' None [] (Map.empty (''a'' \<mapsto> ''x'')) = Inr (w', ms, Inr (Inl e)) \<and> w' ''a'' = Some ''x''"
proof -
  let ?os = "demo_os \<lparr>exit_code = 0, stdout_text = [], stderr_text = []\<rparr>"
  let ?w = "Map.empty (''a'' \<mapsto> ''x'') :: string \<Rightarrow> string option"
  have k: "cli_keeps_files ?os" by (simp add: cli_keeps_files_def demo_os_def)
  have "\<exists>w' ms e. app_up tree_json ?os ''container'' ''d'' None [] ?w = Inr (w', ms, Inr (Inl e))"
    by (simp add: app_up_def find_compose_file_def candidates_def list_dir_def demo_os_def compose_names_def)
  then obtain w' ms e where u: "app_up tree_json ?os ''container'' ''d'' None [] ?w = Inr (w', ms, Inr (Inl e))"
    by blast
  have "w' ''a'' = Some ''x''" using failed_up_keeps_state [OF k u] by (simp add: demo_os_def)
  with u show ?thesis by blast
qed

text \<open>
  C18. A state that save_state() has written is the state load_state() reads: every service with its
  container, image, fingerprint and ports, in order.
\<close>

theorem app_state_roundtrip:
  assumes "json_ok J" and "\<And>w a s. \<exists>w'. os_write_state os w a s = Some w' \<and> os_read_state os w' a = Some s"
    and "save_state J os st w = (w', Inr (Inr ()))"
  shows "load_state J os (as_name st) w' = Some st"
proof -
  obtain t where t: "j_pretty J (state_json J st) = Inr t"
    using assms(2,3) by (auto simp: save_state_def split: option.splits sum.splits)
  obtain w1 where w1: "os_write_state os w (as_name st) [] = Some w1" using assms(2) by blast
  obtain w2 where w2: "os_write_state os w1 (as_name st) (t @ [nl]) = Some w2"
    "os_read_state os w2 (as_name st) = Some (t @ [nl])" using assms(2) by blast
  have "w' = w2" using assms(3) t w1 w2 by (simp add: save_state_def)
  then show ?thesis using w2 parse_state_json [OF assms(1) t] by (simp add: load_state_def)
qed

definition demo_state :: app_state where
  "demo_state = \<lparr>as_name = ''a'', as_compose = ''c'', as_services =
     [\<lparr>ass_service = ''db'', ass_container = ''a-db'', ass_image = ''i'',
       ass_hash = config_fingerprint tree_json (demo_service ''db'' []\<lparr>svc_ports := [(string_of_int 80, ''5432'')]\<rparr>),
       ass_ports = [(''80'', ''5432'')]\<rparr>]\<rparr>"

theorem app_state_roundtrip_witness:
  "\<exists>w'. load_state tree_json (demo_os \<lparr>exit_code = 0, stdout_text = [], stderr_text = []\<rparr>) ''a'' w' = Some demo_state"
proof -
  let ?os = "demo_os \<lparr>exit_code = 0, stdout_text = [], stderr_text = []\<rparr>"
  have w: "\<exists>w'. os_write_state ?os w a s = Some w' \<and> os_read_state ?os w' a = Some s" for w a s
    by (simp add: demo_os_def)
  have "\<exists>w'. save_state tree_json ?os demo_state Map.empty = (w', Inr (Inr ()))"
    by (simp add: save_state_def demo_os_def tree_json_def)
  then obtain w' where "save_state tree_json ?os demo_state Map.empty = (w', Inr (Inr ()))" by blast
  from app_state_roundtrip [OF tree_json_ok w this] show ?thesis by (auto simp: demo_state_def)
qed

text \<open>
  A service that is up to date keeps its recorded ports, but its own running container makes
  the wanted port count as taken: the run reports and claims the port after it.
\<close>

theorem unchanged_service_claims_next_port:
  assumes "load_state J os app w = Some old" and "svc_volumes s = []"
    and "svc_ports s = [(string_of_int n, c)]" and "0 < n"
    and "reconcile os path (svc_name s) (app @ ''-'' @ svc_name s)
           (config_fingerprint J (s\<lparr>svc_env := rewrite_env host names s\<rparr>)) (as_services old) (w, True, ms) =
         (w1, False, ms1)"
    and "os_busy os w1 n" and "\<not> os_busy os w1 (n + 1)" and "n + 1 \<notin> set claimed"
  shows "up_service J os path app host names s (w, claimed, ms) =
    Inr ((w1, (n + 1) # claimed, ms1 @ [''[info] host port '' @ string_of_int n @ '' in use; '' @ svc_name s @
            '' uses '' @ string_of_int (n + 1) @ '' instead'']),
         Inr \<lparr>ass_service = svc_name s, ass_container = app @ ''-'' @ svc_name s, ass_image = svc_image s,
              ass_hash = config_fingerprint J (s\<lparr>svc_env := rewrite_env host names s\<rparr>),
              ass_ports = recorded_ports (svc_name s) (as_services old) [(string_of_int (n + 1), c)]\<rparr>)"
proof -
  have "pick_from (\<lambda>p. os_busy os w1 p \<or> p \<in> set claimed) (n + 1) = Some (n + 1)"
    using assms(7,8) by (subst pick_from.simps) simp
  then show ?thesis
    using assms(1-6) by (simp add: up_service_def Let_def clear_stale_def start_service_def)
qed

theorem unchanged_service_claims_next_port_witness:
  "\<exists>w1 ms1 new.
     up_service tree_json
       (demo_os \<lparr>exit_code = 0, stdout_text = ''ID'' @ [nl] @ ''1 i running a-db'', stderr_text = []\<rparr>)
       ''container'' ''a'' [] [''db''] (demo_service ''db'' []\<lparr>svc_ports := [(string_of_int 80, ''5432'')]\<rparr>)
       (Map.empty (''a'' \<mapsto> digits_of (to_nat (state_json tree_json demo_state)) @ [nl]), [], []) =
     Inr ((w1, [80 + 1], ms1), Inr new) \<and> ass_ports new = [(''80'', ''5432'')]"
proof -
  let ?r = "\<lparr>exit_code = 0, stdout_text = ''ID'' @ [nl] @ ''1 i running a-db'', stderr_text = []\<rparr>"
  let ?os = "demo_os ?r" and ?s = "demo_service ''db'' []\<lparr>svc_ports := [(string_of_int 80, ''5432'')]\<rparr>"
  let ?t = "digits_of (to_nat (state_json tree_json demo_state))"
  let ?w = "Map.empty (''a'' \<mapsto> ?t @ [nl]) :: string \<Rightarrow> string option"
  have env: "?s\<lparr>svc_env := rewrite_env [] [''db''] ?s\<rparr> = ?s" by (simp add: rewrite_env_def demo_service_def)
  have "j_pretty tree_json (state_json tree_json demo_state) = Inr ?t" by (simp add: tree_json_def)
  from parse_state_json [OF tree_json_ok this]
  have old: "load_state tree_json ?os ''a'' ?w = Some demo_state" by (simp add: load_state_def demo_os_def)
  have "list_ex (\<lambda>i. si_name i = ''a-db'') (parse_ls (''ID'' @ [nl] @ ''1 i running a-db''))" by code_simp
  then have "\<exists>ms1. reconcile ?os ''container'' ''db'' ''a-db'' (config_fingerprint tree_json ?s)
      (as_services demo_state) (?w, True, []) = (?w, False, ms1)"
    by (simp add: reconcile_def reconcile_one_def demo_state_def manager_list_def started_def
        container_exists_any_state_def demo_os_def)
  then obtain ms1 where rec: "reconcile ?os ''container'' (svc_name ?s) (''a'' @ ''-'' @ svc_name ?s)
      (config_fingerprint tree_json (?s\<lparr>svc_env := rewrite_env [] [''db''] ?s\<rparr>)) (as_services demo_state) (?w, True, []) =
      (?w, False, ms1)"
    unfolding env by (auto simp: demo_service_def)
  have "recorded_ports (svc_name ?s) (as_services demo_state) x = [(''80'', ''5432'')]" for x
    by (simp add: recorded_ports_def demo_service_def demo_state_def)
  then show ?thesis
    using unchanged_service_claims_next_port [OF old _ _ _ rec, of 80 "''5432''" "[]"]
    by (simp add: demo_os_def demo_service_def)
qed

end
