(* ===== verification/Args.thy ===== *)
theory Args
  imports Manager
begin

text \<open>
  cli/args.hpp and cli/args.cpp, the parser of the command line, and from main.cpp parse_ports()
  and the part of run_run() that turns the parsed arguments into run options. The arguments after
  the program name are a list of strings; the record of parsed arguments has the options in the
  order they were given and the positionals.
\<close>

section \<open>The parser\<close>

record cli_option =
  co_name :: string
  co_value :: string

record parsed_args =
  pa_options :: "cli_option list"
  pa_positionals :: "string list"

text \<open>The name behind the dashes; None when the token is no option.\<close>

definition strip_dashes :: "string \<Rightarrow> string option" where
  "strip_dashes token =
     (if starts_with ''--'' token then Some (drop 2 token)
      else if 2 \<le> length token \<and> hd token = CHR ''-'' then Some (drop 1 token)
      else None)"

definition is_option_token :: "string \<Rightarrow> bool" where
  "is_option_token next \<longleftrightarrow> 2 \<le> length next \<and> hd next = CHR ''-''"

definition add_option :: "string \<Rightarrow> string \<Rightarrow> parsed_args \<Rightarrow> parsed_args" where
  "add_option n v p = p\<lparr>pa_options := \<lparr>co_name = n, co_value = v\<rparr> # pa_options p\<rparr>"

definition add_positional :: "string \<Rightarrow> parsed_args \<Rightarrow> parsed_args" where
  "add_positional t p = p\<lparr>pa_positionals := t # pa_positionals p\<rparr>"

fun parse_tokens :: "string list \<Rightarrow> parsed_args" where
  "parse_tokens [] = \<lparr>pa_options = [], pa_positionals = []\<rparr>"
| "parse_tokens (token # rest) =
     (if token = ''--'' then \<lparr>pa_options = [], pa_positionals = rest\<rparr>
      else case strip_dashes token of
             None \<Rightarrow> add_positional token (parse_tokens rest)
           | Some name \<Rightarrow>
               (case find_char (CHR ''='') name of
                  Some eq \<Rightarrow> add_option (take eq name) (drop (eq + 1) name) (parse_tokens rest)
                | None \<Rightarrow>
                    (case rest of
                       [] \<Rightarrow> add_option name [] \<lparr>pa_options = [], pa_positionals = []\<rparr>
                     | next # rest' \<Rightarrow>
                         if is_option_token next \<and> next \<noteq> ''-'' then add_option name [] (parse_tokens rest)
                         else add_option name next (parse_tokens rest'))))"

definition from_argv :: "string list \<Rightarrow> parsed_args" where
  "from_argv argv = parse_tokens (drop 1 argv)"

definition has_option :: "parsed_args \<Rightarrow> string \<Rightarrow> bool" where
  "has_option p n \<longleftrightarrow> list_ex (\<lambda>opt. co_name opt = n) (pa_options p)"

definition get_option :: "parsed_args \<Rightarrow> string \<Rightarrow> string option" where
  "get_option p n = map_option co_value (find (\<lambda>opt. co_name opt = n) (pa_options p))"

definition command :: "parsed_args \<Rightarrow> string" where
  "command p = (case pa_positionals p of [] \<Rightarrow> [] | c # _ \<Rightarrow> c)"

definition operands :: "parsed_args \<Rightarrow> string list" where
  "operands p = drop 1 (pa_positionals p)"

section \<open>hostely run\<close>

definition split_first :: "char \<Rightarrow> string \<Rightarrow> (string \<times> string) option" where
  "split_first c v = map_option (\<lambda>i. (take i v, drop (i + 1) v)) (find_char c v)"

definition parse_ports :: "parsed_args \<Rightarrow> (string \<times> string) list" where
  "parse_ports p =
     map (\<lambda>opt. case split_first (CHR '':'') (co_value opt) of None \<Rightarrow> (co_value opt, co_value opt) | Some hc \<Rightarrow> hc)
       (filter (\<lambda>opt. co_name opt = ''port'') (pa_options p))"

text \<open>The loop over the repeatable options; a value without its separator is the error message.\<close>

fun run_flags :: "cli_option list \<Rightarrow> run_options \<Rightarrow> string + run_options" where
  "run_flags [] opts = Inr opts"
| "run_flags (f # fs) opts =
     (if co_name f = ''env'' \<and> co_value f \<noteq> []
      then (case split_first (CHR ''='') (co_value f) of
              None \<Rightarrow> Inl (''--env expects KEY=VALUE, got '' @ [squote] @ co_value f @ [squote])
            | Some kv \<Rightarrow> run_flags fs (opts\<lparr>opt_env := opt_env opts @ [kv]\<rparr>))
      else if co_name f = ''dns'' \<and> co_value f \<noteq> []
      then run_flags fs (opts\<lparr>opt_dns := opt_dns opts @ [co_value f]\<rparr>)
      else if co_name f = ''volume'' \<and> co_value f \<noteq> []
      then (case split_first (CHR '':'') (co_value f) of
              None \<Rightarrow> Inl (''--volume expects src:dst, got '' @ [squote] @ co_value f @ [squote])
            | Some sd \<Rightarrow> run_flags fs (opts\<lparr>opt_volumes := opt_volumes opts @ [sd]\<rparr>))
      else run_flags fs opts)"

definition run_usage :: string where
  "run_usage = ''Usage: hostely run <name> --image <image> [--port h:c]...'' @ [nl] @
     ''      [--env K=V]... [--volume src:dst]... [--dns <ip>]... [-- cmd arg...]'' @ [nl]"

text \<open>run_run() up to the limits: the message of an exit with status 2, or the options.\<close>

definition run_request :: "parsed_args \<Rightarrow> string + run_options" where
  "run_request p =
     (case operands p of
        [] \<Rightarrow> Inl run_usage
      | name # args \<Rightarrow>
          and_then (run_flags (pa_options p)
            \<lparr>opt_name = name, opt_image = (case get_option p ''image'' of None \<Rightarrow> [] | Some v \<Rightarrow> v),
             opt_ports = parse_ports p, opt_env = [], opt_volumes = [], opt_args = [], opt_dns = [],
             opt_memory = []\<rparr>) (\<lambda>opts.
            if opt_image opts = [] then Inl ''--image is required'' else Inr (opts\<lparr>opt_args := args\<rparr>)))"

section \<open>Writing a request as a command line\<close>

definition flag :: "string \<Rightarrow> string \<Rightarrow> string" where
  "flag n v = ''--'' @ n @ ''='' @ v"

definition run_line :: "run_options \<Rightarrow> string list" where
  "run_line opts =
     [''hostely'', ''run'', opt_name opts, flag ''image'' (opt_image opts)] @
     map (\<lambda>(h, c). flag ''port'' (h @ '':'' @ c)) (opt_ports opts) @
     map (\<lambda>(k, v). flag ''env'' (k @ ''='' @ v)) (opt_env opts) @
     map (\<lambda>(s, d). flag ''volume'' (s @ '':'' @ d)) (opt_volumes opts) @
     map (flag ''dns'') (opt_dns opts) @
     ''--'' # opt_args opts"

definition expressible :: "run_options \<Rightarrow> bool" where
  "expressible opts \<longleftrightarrow>
     \<not> is_option_token (opt_name opts) \<and> opt_image opts \<noteq> [] \<and> opt_memory opts = [] \<and>
     list_all (\<lambda>p. CHR '':'' \<notin> set (fst p)) (opt_ports opts) \<and>
     list_all (\<lambda>p. CHR ''='' \<notin> set (fst p)) (opt_env opts) \<and>
     list_all (\<lambda>p. CHR '':'' \<notin> set (fst p)) (opt_volumes opts) \<and>
     list_all (\<lambda>d. d \<noteq> []) (opt_dns opts)"

lemma no_option_token: "\<not> is_option_token t \<Longrightarrow> strip_dashes t = None \<and> t \<noteq> ''--''"
proof (cases t)
  case (Cons c cs)
  assume "\<not> is_option_token t"
  then show ?thesis using Cons by (cases cs) (auto simp: is_option_token_def strip_dashes_def starts_with_def)
qed (simp add: strip_dashes_def starts_with_def)

lemma parse_positional:
  "\<not> is_option_token t \<Longrightarrow> parse_tokens (t # rest) = add_positional t (parse_tokens rest)"
  using no_option_token by simp

lemma parse_end: "parse_tokens (''--'' # rest) = \<lparr>pa_options = [], pa_positionals = rest\<rparr>"
  by simp

lemma parse_flag:
  assumes "CHR ''='' \<notin> set n" and "n \<noteq> []"
  shows "parse_tokens (flag n v # rest) = add_option n v (parse_tokens rest)"
proof -
  have "find_char (CHR ''='') (n @ CHR ''='' # v) = Some (length n)"
    unfolding find_char_def using assms(1) by (intro index_of_append_first) auto
  moreover have "flag n v \<noteq> ''--''" using assms(2) by (simp add: flag_def)
  moreover have "strip_dashes (flag n v) = Some (n @ CHR ''='' # v)" by (simp add: strip_dashes_def flag_def starts_with_def)
  ultimately show ?thesis by simp
qed

lemma parse_flags:
  assumes "CHR ''='' \<notin> set n" and "n \<noteq> []"
  shows "parse_tokens (map (\<lambda>x. flag n (g x)) xs @ rest) =
    (parse_tokens rest)\<lparr>pa_options := map (\<lambda>x. \<lparr>co_name = n, co_value = g x\<rparr>) xs @ pa_options (parse_tokens rest)\<rparr>"
proof (induction xs)
  case (Cons x xs)
  then show ?case using parse_flag [OF assms, of "g x"] by (simp add: add_option_def)
qed simp

lemma split_first_at: "c \<notin> set a \<Longrightarrow> split_first c (a @ c # b) = Some (a, b)"
proof -
  assume "c \<notin> set a"
  then have "find_char c (a @ c # b) = Some (length a)"
    unfolding find_char_def by (intro index_of_append_first) auto
  then show ?thesis by (simp add: split_first_def)
qed

lemma run_flags_append:
  "run_flags (fs @ gs) opts = and_then (run_flags fs opts) (run_flags gs)"
  by (induction fs opts rule: run_flags.induct) (auto split: option.splits)

lemma run_flags_skip:
  "list_all (\<lambda>f. co_name f \<notin> {''env'', ''dns'', ''volume''}) fs \<Longrightarrow> run_flags fs opts = Inr opts"
  by (induction fs) auto

lemma run_flags_env:
  "list_all (\<lambda>p. CHR ''='' \<notin> set (fst p)) kvs \<Longrightarrow>
     run_flags (map (\<lambda>p. \<lparr>co_name = ''env'', co_value = fst p @ ''='' @ snd p\<rparr>) kvs) opts =
     Inr (opts\<lparr>opt_env := opt_env opts @ kvs\<rparr>)"
  by (induction kvs arbitrary: opts) (auto simp: split_first_at)

lemma run_flags_volume:
  "list_all (\<lambda>p. CHR '':'' \<notin> set (fst p)) sds \<Longrightarrow>
     run_flags (map (\<lambda>p. \<lparr>co_name = ''volume'', co_value = fst p @ '':'' @ snd p\<rparr>) sds) opts =
     Inr (opts\<lparr>opt_volumes := opt_volumes opts @ sds\<rparr>)"
  by (induction sds arbitrary: opts) (auto simp: split_first_at)

lemma run_flags_dns:
  "list_all (\<lambda>d. d \<noteq> []) ds \<Longrightarrow>
     run_flags (map (\<lambda>d. \<lparr>co_name = ''dns'', co_value = d\<rparr>) ds) opts = Inr (opts\<lparr>opt_dns := opt_dns opts @ ds\<rparr>)"
  by (induction ds arbitrary: opts) auto

text \<open>The parsed form of a written request.\<close>

lemma parse_run_line:
  assumes "expressible opts"
  shows "from_argv (run_line opts) =
    \<lparr>pa_options = \<lparr>co_name = ''image'', co_value = opt_image opts\<rparr> #
       map (\<lambda>p. \<lparr>co_name = ''port'', co_value = fst p @ '':'' @ snd p\<rparr>) (opt_ports opts) @
       map (\<lambda>p. \<lparr>co_name = ''env'', co_value = fst p @ ''='' @ snd p\<rparr>) (opt_env opts) @
       map (\<lambda>p. \<lparr>co_name = ''volume'', co_value = fst p @ '':'' @ snd p\<rparr>) (opt_volumes opts) @
       map (\<lambda>d. \<lparr>co_name = ''dns'', co_value = d\<rparr>) (opt_dns opts),
     pa_positionals = ''run'' # opt_name opts # opt_args opts\<rparr>"
proof -
  have name: "\<not> is_option_token (opt_name opts)" "\<not> is_option_token ''run''"
    using assms by (simp_all add: expressible_def is_option_token_def)
  have dns: "parse_tokens (map (flag ''dns'') ds @ rest) = (parse_tokens rest)\<lparr>pa_options :=
      map (\<lambda>d. \<lparr>co_name = ''dns'', co_value = d\<rparr>) ds @ pa_options (parse_tokens rest)\<rparr>" for ds rest
    using parse_flags [of "''dns''" "\<lambda>d. d" ds rest] by simp
  show ?thesis
    unfolding from_argv_def run_line_def case_prod_beta
    by (simp add: parse_positional [OF name(1)] parse_positional [OF name(2)] parse_flag parse_flags parse_end
        dns add_option_def add_positional_def del: parse_tokens.simps(2))
qed

section \<open>Properties\<close>

text \<open>
  C21. A run request survives the command line: the options written as --name=value flags, with the
  container's command behind a bare --, are parsed and translated back to the same request.
\<close>

theorem run_line_roundtrip:
  assumes "expressible opts"
  shows "run_request (from_argv (run_line opts)) = Inr opts"
proof -
  have "split_first (CHR '':'') (fst p @ CHR '':'' # snd p) = Some p" if "p \<in> set (opt_ports opts)" for p
    using assms that by (auto simp: expressible_def list_all_iff split_first_at)
  then have ports: "parse_ports (from_argv (run_line opts)) = opt_ports opts"
    unfolding parse_ports_def parse_run_line [OF assms]
    by (simp add: filter_map o_def filter_empty_conv cong: map_cong)
  have parts: "list_all (\<lambda>p. CHR ''='' \<notin> set (fst p)) (opt_env opts)"
    "list_all (\<lambda>p. CHR '':'' \<notin> set (fst p)) (opt_volumes opts)" "list_all (\<lambda>d. d \<noteq> []) (opt_dns opts)"
    "opt_image opts \<noteq> []" "opt_memory opts = []"
    using assms by (simp_all add: expressible_def)
  let ?ports = "map (\<lambda>p. \<lparr>co_name = ''port'', co_value = fst p @ '':'' @ snd p\<rparr>) (opt_ports opts)"
  have skip: "run_flags ?ports o1 = Inr o1" for o1
    by (rule run_flags_skip) (simp add: list_all_iff)
  show ?thesis
    using parts(4,5) ports
    unfolding run_request_def operands_def get_option_def parse_run_line [OF assms]
    by (simp add: run_flags_append skip [simplified] run_flags_env [OF parts(1), simplified]
        run_flags_volume [OF parts(2), simplified] run_flags_dns [OF parts(3), simplified])
qed

definition demo_request :: run_options where
  "demo_request = \<lparr>opt_name = ''web'', opt_image = ''nginx'', opt_ports = [(''8080'', ''80'')],
     opt_env = [(''A'', ''x=y'')], opt_volumes = [(''data'', ''/d'')], opt_args = [''-v''], opt_dns = [''1.1.1.1''],
     opt_memory = []\<rparr>"

theorem run_line_roundtrip_witness:
  "run_request (from_argv (run_line demo_request)) = Inr demo_request"
  by (rule run_line_roundtrip) (simp add: expressible_def demo_request_def is_option_token_def)

text \<open>
  A value that starts with a dash cannot be given behind a space: the option stays empty and
  the value is parsed as an option of its own; a flag before an operand takes the operand as its value.
\<close>

theorem dash_value_lost:
  assumes "n \<noteq> []" and "CHR ''='' \<notin> set n" and "is_option_token v" and "\<not> is_option_token w"
  shows "parse_tokens ((''--'' @ n) # v # rest) = add_option n [] (parse_tokens (v # rest)) \<and>
    parse_tokens ((''--'' @ n) # w # rest) = add_option n w (parse_tokens rest)"
proof -
  have "strip_dashes (''--'' @ n) = Some n" by (simp add: strip_dashes_def starts_with_def)
  moreover have "find_char (CHR ''='') n = None" using assms(2) by (auto simp: find_char_def)
  moreover have "v \<noteq> ''-''" using assms(3) by (auto simp: is_option_token_def)
  ultimately show ?thesis using assms by simp
qed

theorem dash_value_lost_witness:
  "parse_tokens [''--gpu-layers'', ''-1''] = \<lparr>pa_options = [\<lparr>co_name = ''gpu-layers'', co_value = []\<rparr>,
     \<lparr>co_name = ''1'', co_value = []\<rparr>], pa_positionals = []\<rparr> \<and>
   parse_tokens [''--gpu-layers'', ''m''] = \<lparr>pa_options = [\<lparr>co_name = ''gpu-layers'', co_value = ''m''\<rparr>], pa_positionals = []\<rparr>"
proof -
  have "parse_tokens [''-1''] = \<lparr>pa_options = [\<lparr>co_name = ''1'', co_value = []\<rparr>], pa_positionals = []\<rparr>"
    by (simp add: strip_dashes_def starts_with_def find_char_def add_option_def)
  then show ?thesis
    using dash_value_lost [of "''gpu-layers''" "''-1''" "''m''" "[]"]
    by (simp add: is_option_token_def add_option_def del: parse_tokens.simps(2))
qed

end
