(* ===== verification/Resources.thy ===== *)
theory Resources
  imports Prelude
begin

text \<open>
  resources/limits.cpp, human_bytes() of resources/system.cpp and models/fit.cpp: the process
  limits, with the 32-bit products of the source, the rounding of byte counts to one decimal, and the
  estimate of whether a model fits, on 64-bit words. What the kernel answers is an argument.
\<close>

section \<open>Process limits\<close>

record limit_report =
  cpu_seconds_set :: bool
  cpu_seconds_value :: int
  nofile_set :: bool
  nofile_value :: int
  jetsam_attempted :: bool
  jetsam_applied :: bool
  jetsam_error :: string
  running_as_root :: bool

text \<open>The answers of the kernel: the soft and hard limits it accepts, and what Jetsam returns (None applied).\<close>

record limit_os =
  lo_root :: bool
  lo_cpu :: "int \<Rightarrow> int \<Rightarrow> bool"
  lo_nofile :: "int \<Rightarrow> int \<Rightarrow> bool"
  lo_jetsam :: "int \<Rightarrow> string option"

definition in_int32 :: "int \<Rightarrow> bool" where
  "in_int32 v \<longleftrightarrow> - (2 ^ 31) \<le> v \<and> v < 2 ^ 31"

text \<open>A product of two values of type int; a result that is no int is undefined.\<close>

definition int_mul :: "int \<Rightarrow> int \<Rightarrow> int or_ub" where
  "int_mul a b = (if in_int32 (a * b) then Inr (a * b) else Inl IntOverflow)"

definition limit_cpu :: "limit_os \<Rightarrow> int \<Rightarrow> limit_report \<Rightarrow> limit_report or_ub" where
  "limit_cpu os cpu_seconds r =
     (if 0 < cpu_seconds
      then and_then (int_mul cpu_seconds 2) (\<lambda>hard.
             Inr (if lo_cpu os cpu_seconds hard
                  then r\<lparr>cpu_seconds_set := True, cpu_seconds_value := cpu_seconds\<rparr> else r))
      else Inr r)"

definition limit_nofile :: "limit_os \<Rightarrow> int \<Rightarrow> limit_report \<Rightarrow> limit_report" where
  "limit_nofile os nofile r =
     (if 0 < nofile \<and> lo_nofile os nofile nofile then r\<lparr>nofile_set := True, nofile_value := nofile\<rparr> else r)"

definition jetsam_bytes :: "int \<Rightarrow> int or_ub" where
  "jetsam_bytes mem_gb =
     and_then (int_mul mem_gb 1024) (\<lambda>a. and_then (int_mul a 1024) (\<lambda>b. int_mul b 1024))"

definition limit_memory :: "limit_os \<Rightarrow> int \<Rightarrow> limit_report \<Rightarrow> limit_report or_ub" where
  "limit_memory os mem_gb r =
     (if 0 < mem_gb
      then and_then (jetsam_bytes mem_gb) (\<lambda>bytes.
             Inr (case lo_jetsam os bytes of
                    None \<Rightarrow> r\<lparr>jetsam_attempted := True, jetsam_applied := True\<rparr>
                  | Some e \<Rightarrow> r\<lparr>jetsam_attempted := True, jetsam_error := e\<rparr>))
      else Inr r)"

definition apply_process_limits :: "limit_os \<Rightarrow> int \<Rightarrow> int \<Rightarrow> int \<Rightarrow> limit_report or_ub" where
  "apply_process_limits os mem_gb cpu_seconds nofile =
     and_then (limit_cpu os cpu_seconds
       \<lparr>cpu_seconds_set = False, cpu_seconds_value = 0, nofile_set = False, nofile_value = 0,
        jetsam_attempted = False, jetsam_applied = False, jetsam_error = [], running_as_root = lo_root os\<rparr>) (\<lambda>r.
     limit_memory os mem_gb (limit_nofile os nofile r))"

section \<open>Byte counts as text\<close>

text \<open>Division rounded to the nearest integer, ties to the even one.\<close>

definition round_div :: "nat \<Rightarrow> nat \<Rightarrow> nat" where
  "round_div n d =
     (let q = n div d; r = n mod d
      in if 2 * r < d then q else if d < 2 * r then q + 1 else if even q then q else q + 1)"

fun bit_size :: "nat \<Rightarrow> nat" where
  "bit_size n = (if n = 0 then 0 else Suc (bit_size (n div 2)))"

declare bit_size.simps [simp del]

text \<open>The double a 64-bit count is converted to, an integer with a significand of 53 bits.\<close>

definition to_double :: "nat \<Rightarrow> nat" where
  "to_double n =
     (if n < 2 ^ 53 then n else round_div n (2 ^ (bit_size n - 53)) * 2 ^ (bit_size n - 53))"

text \<open>The loop that divides by 1024: the value is v / 1024 ^ u, exactly.\<close>

function unit_index :: "nat \<Rightarrow> nat \<Rightarrow> nat" where
  "unit_index v u = (if 1024 * 1024 ^ u \<le> v \<and> u < 4 then unit_index v (u + 1) else u)"
  by pat_completeness auto
termination by (relation "measure (\<lambda>(v, u). 4 - u)") auto

declare unit_index.simps [simp del]

definition units :: "string list" where
  "units = [''B'', ''KB'', ''MB'', ''GB'', ''TB'']"

text \<open>The conversion %.1f of v / d.\<close>

definition one_decimal :: "nat \<Rightarrow> nat \<Rightarrow> string" where
  "one_decimal v d = (let t = round_div (10 * v) d in digits_of (t div 10) @ ''.'' @ digits_of (t mod 10))"

definition human_bytes :: "u64 \<Rightarrow> string" where
  "human_bytes bytes =
     (let v = to_double (unat bytes); u = unit_index v 0
      in if u = 0 then digits_of (unat bytes) @ '' '' @ units ! 0
         else one_decimal v (1024 ^ u) @ '' '' @ units ! u)"

section \<open>Whether a model fits\<close>

datatype verdict = Fits | Tight | WontFit

record memory_stats =
  total_bytes :: u64
  free_bytes :: u64
  active_bytes :: u64
  wired_bytes :: u64
  inactive_bytes :: u64
  compressed_bytes :: u64
  mem_valid :: bool

record fit_estimate =
  tensor_bytes :: u64
  kv_state_bytes :: u64
  scratch_bytes :: u64
  peak_rss_bytes :: u64
  available_bytes :: u64
  delta_bytes :: int
  headroom_bytes :: u64
  total_memory :: u64
  fit_verdict :: verdict
  fit_message :: string

definition scratch_of :: "u64 \<Rightarrow> u64" where
  "scratch_of tensor = max (push_bit 20 256) (tensor div 10)"

definition available_of :: "memory_stats \<Rightarrow> u64 \<Rightarrow> u64" where
  "available_of mem headroom =
     (if mem_valid mem
      then let free_inactive = free_bytes mem + inactive_bytes mem
           in if headroom < free_inactive then free_inactive - headroom else 0
      else 0)"

text \<open>The signed difference of two counts read as 64-bit integers; out of range it is undefined.\<close>

definition delta_of :: "u64 \<Rightarrow> u64 \<Rightarrow> int or_ub" where
  "delta_of peak available =
     (let d = sint peak - sint available in if - (2 ^ 63) \<le> d \<and> d < 2 ^ 63 then Inr d else Inl IntOverflow)"

definition verdict_of :: "int \<Rightarrow> verdict" where
  "verdict_of delta =
     (if delta < 0 then Fits else if (word_of_int delta :: u64) < push_bit 30 1 then Tight else WontFit)"

definition message_of :: "verdict \<Rightarrow> int \<Rightarrow> string" where
  "message_of v delta =
     (case v of
        Fits \<Rightarrow> ''fits with '' @ human_bytes (word_of_int (- delta)) @ '' headroom''
      | Tight \<Rightarrow> ''tight: peak RSS exceeds available by '' @ human_bytes (word_of_int delta) @
          '' (within the 1 GiB tolerance)''
      | WontFit \<Rightarrow> ''won'' @ [squote] @ ''t fit: peak RSS exceeds available by '' @ human_bytes (word_of_int delta) @
          ''; reduce --ctx-size or pick a smaller quant'')"

definition fit_check :: "memory_stats \<Rightarrow> u64 \<Rightarrow> u64 \<Rightarrow> u64 \<Rightarrow> fit_estimate or_ub" where
  "fit_check mem tensor kv headroom =
     (let scratch = scratch_of tensor; peak = tensor + kv + scratch; available = available_of mem headroom
      in and_then (delta_of peak available) (\<lambda>delta.
           Inr \<lparr>tensor_bytes = tensor, kv_state_bytes = kv, scratch_bytes = scratch, peak_rss_bytes = peak,
                available_bytes = available, delta_bytes = delta, headroom_bytes = headroom,
                total_memory = total_bytes mem, fit_verdict = verdict_of delta,
                fit_message = message_of (verdict_of delta) delta\<rparr>))"

definition should_proceed :: "fit_estimate \<Rightarrow> bool \<Rightarrow> bool" where
  "should_proceed est no_fit_check \<longleftrightarrow> \<not> (fit_verdict est = WontFit \<and> \<not> no_fit_check)"

section \<open>Lemmas\<close>

lemma round_div_cases:
  obtains "round_div n d = n div d" "2 * (n mod d) \<le> d" | "round_div n d = n div d + 1" "d \<le> 2 * (n mod d)"
proof (cases "2 * (n mod d)" d rule: linorder_cases)
  case equal
  then have "round_div n d = n div d \<or> round_div n d = n div d + 1"
    by (auto simp: round_div_def Let_def split: if_splits)
  then show thesis using equal that by auto
qed (auto simp: round_div_def Let_def intro: that)

lemma round_div_near:
  assumes "0 < d"
  shows "2 * n \<le> 2 * (round_div n d * d) + d" and "2 * (round_div n d * d) \<le> 2 * n + d"
proof -
  have n: "n = n div d * d + n mod d" and r: "n mod d < d" using assms by simp_all
  have "2 * n \<le> 2 * (round_div n d * d) + d \<and> 2 * (round_div n d * d) \<le> 2 * n + d"
  proof (cases rule: round_div_cases [of n d])
    case 1
    then show ?thesis using n by (simp only: 1(1)) linarith
  next
    case 2
    then have "round_div n d * d = n div d * d + d" by simp
    then show ?thesis using n r 2(2) by linarith
  qed
  then show "2 * n \<le> 2 * (round_div n d * d) + d" "2 * (round_div n d * d) \<le> 2 * n + d" by simp_all
qed

lemma to_double_exact: "n < 2 ^ 53 \<Longrightarrow> to_double n = n"
  by (simp add: to_double_def)

lemma unit_index_le: "u \<le> 4 \<Longrightarrow> unit_index v u \<le> 4"
  by (induction v u rule: unit_index.induct) (simp add: unit_index.simps)

text \<open>What is printed is within half a tenth of the unit.\<close>

lemma human_bytes_close:
  assumes "unat bytes < 2 ^ 53" and "u = unit_index (unat bytes) 0" and "u \<noteq> 0"
  shows "\<exists>t. human_bytes bytes = digits_of (t div 10) @ ''.'' @ digits_of (t mod 10) @ '' '' @ units ! u \<and>
    2 * (10 * unat bytes) \<le> 2 * (t * 1024 ^ u) + 1024 ^ u \<and> 2 * (t * 1024 ^ u) \<le> 2 * (10 * unat bytes) + 1024 ^ u"
proof -
  have "human_bytes bytes = one_decimal (unat bytes) (1024 ^ u) @ '' '' @ units ! u"
    using assms by (simp add: human_bytes_def to_double_exact Let_def)
  then show ?thesis
    using round_div_near [of "1024 ^ u" "10 * unat bytes"] by (auto simp: one_decimal_def Let_def)
qed

lemma jetsam_bytes_value:
  assumes "0 < g" and "g < 2 ^ 31"
  shows "jetsam_bytes g = (if g = 1 then Inr (2 ^ 30) else Inl IntOverflow)"
  using assms by (auto simp: jetsam_bytes_def int_mul_def in_int32_def)

lemma and_then_defined: "and_then r f \<noteq> Inl u \<longleftrightarrow> r \<noteq> Inl u \<and> (\<forall>x. r = Inr x \<longrightarrow> f x \<noteq> Inl u)"
  by (cases r) auto

text \<open>Sums of sizes below 2 ^ 63 do not wrap and are not negative as signed numbers.\<close>

lemma sint_small64:
  assumes "unat (w :: u64) < 2 ^ 63"
  shows "sint w = int (unat w)"
proof -
  have "int (unat w) < int (2 ^ 63)" using assms by (simp only: of_nat_less_iff)
  then have "uint w < 2 ^ 63" by simp
  then have "signed_take_bit 63 (uint w) = uint w"
    by (intro signed_take_bit_int_eq_self) (auto intro: order_trans [of _ 0])
  then show ?thesis by (simp add: sint_uint)
qed

lemma unat_plus_small: "unat (a :: u64) + unat b < 2 ^ 64 \<Longrightarrow> unat (a + b) = unat a + unat b"
  by (simp add: unat_word_ariths)

lemma available_small:
  assumes "mem_valid mem" and "unat (free_bytes mem) + unat (inactive_bytes mem) < 2 ^ 63"
  shows "unat (available_of mem h) = unat (free_bytes mem) + unat (inactive_bytes mem) - unat h"
proof -
  have s: "unat (free_bytes mem + inactive_bytes mem) = unat (free_bytes mem) + unat (inactive_bytes mem)"
    using assms(2) by (intro unat_plus_small) simp
  then show ?thesis
    using assms(1) by (auto simp: available_of_def Let_def word_less_nat_alt unat_sub_if_size word_size not_less)
qed

lemma scratch_small: "unat (scratch_of t) = max (2 ^ 28) (unat t div 10)"
proof -
  have "unat (t div 10) = unat t div 10" by (simp add: unat_div)
  moreover have "unat (push_bit 20 256 :: u64) = 2 ^ 28" by simp
  ultimately show ?thesis by (simp add: scratch_of_def max_def word_le_nat_alt)
qed

section \<open>Properties\<close>

text \<open>
  The limits are defined exactly when no product of the source overflows: a memory limit of
  2 GB or more, or a CPU limit of 2 ^ 30 seconds or more, is undefined behaviour.
\<close>

theorem limits_defined_iff:
  assumes "in_int32 mem_gb" and "in_int32 cpu_seconds"
  shows "apply_process_limits os mem_gb cpu_seconds nofile \<noteq> Inl IntOverflow \<longleftrightarrow>
    mem_gb \<le> 1 \<and> cpu_seconds < 2 ^ 30"
proof -
  have cpu: "limit_cpu os cpu_seconds r \<noteq> Inl IntOverflow \<longleftrightarrow> cpu_seconds < 2 ^ 30" for r
    using assms(2) by (auto simp: limit_cpu_def int_mul_def in_int32_def)
  have mem: "limit_memory os mem_gb r \<noteq> Inl IntOverflow \<longleftrightarrow> mem_gb \<le> 1" for r
    using assms(1) jetsam_bytes_value [of mem_gb] by (auto simp: limit_memory_def in_int32_def)
  have "\<exists>r'. limit_cpu os cpu_seconds r = Inr r'" if "cpu_seconds < 2 ^ 30" for r
    using that by (simp add: limit_cpu_def int_mul_def in_int32_def)
  then show ?thesis
    unfolding apply_process_limits_def and_then_defined cpu mem by blast
qed

theorem limits_defined_iff_witness:
  "apply_process_limits \<lparr>lo_root = True, lo_cpu = \<lambda>_ _. True, lo_nofile = \<lambda>_ _. True, lo_jetsam = \<lambda>_. None\<rparr> 8 0 65536 =
     Inl IntOverflow"
  using limits_defined_iff [of 8 0 "\<lparr>lo_root = True, lo_cpu = \<lambda>_ _. True, lo_nofile = \<lambda>_ _. True, lo_jetsam = \<lambda>_. None\<rparr>" 65536]
  by (simp add: in_int32_def)

text \<open>
  C22. For sizes whose sums stay below 2 ^ 63 the check is defined and the verdict compares the
  estimated peak with free and inactive memory less the safety margin: below it fits, less than 1 GiB
  above it is tight (equality included), and otherwise it does not fit.
\<close>

theorem fit_verdict_exact:
  fixes tensor kv headroom :: u64 and mem :: memory_stats
  defines "peak \<equiv> unat tensor + unat kv + max (2 ^ 28) (unat tensor div 10)"
    and "avail \<equiv> unat (free_bytes mem) + unat (inactive_bytes mem) - unat headroom"
  assumes "mem_valid mem" and "unat (free_bytes mem) + unat (inactive_bytes mem) < 2 ^ 63"
    and "unat tensor + unat kv + max (2 ^ 28) (unat tensor div 10) < 2 ^ 63"
  shows "\<exists>est. fit_check mem tensor kv headroom = Inr est \<and> delta_bytes est = int peak - int avail \<and>
    fit_verdict est = (if peak < avail then Fits else if peak < avail + 2 ^ 30 then Tight else WontFit)"
proof -
  let ?peak = "tensor + kv + scratch_of tensor" and ?avail = "available_of mem headroom"
  have "unat (tensor + kv) = unat tensor + unat kv" using assms(5) by (intro unat_plus_small) simp
  then have p: "unat ?peak = peak"
    using assms(5) unat_plus_small [of "tensor + kv" "scratch_of tensor"] by (simp add: peak_def scratch_small)
  have a: "unat ?avail = avail" using available_small [OF assms(3,4)] by (simp add: avail_def)
  have pb: "peak < 2 ^ 63" using assms(5) by (simp add: peak_def)
  have ab: "avail < 2 ^ 63" using assms(4) by (simp add: avail_def)
  have d: "delta_of ?peak ?avail = Inr (int peak - int avail)"
    using pb ab p a by (simp add: delta_of_def Let_def sint_small64)
  have v: "verdict_of (int peak - int avail) =
      (if peak < avail then Fits else if peak < avail + 2 ^ 30 then Tight else WontFit)"
  proof (cases "peak < avail")
    case False
    then have "int peak - int avail = int (peak - avail)" by simp
    moreover have "(word_of_int (int (peak - avail)) :: u64) < push_bit 30 1 \<longleftrightarrow> peak - avail < 2 ^ 30"
      using pb by (simp add: word_less_nat_alt unat_of_nat)
    ultimately show ?thesis using False by (simp add: verdict_of_def) linarith
  qed (simp add: verdict_of_def)
  show ?thesis using d v by (simp add: fit_check_def Let_def)
qed

theorem fit_verdict_exact_witness:
  "\<exists>est. fit_check \<lparr>total_bytes = 2 ^ 34, free_bytes = 2 ^ 32, active_bytes = 0, wired_bytes = 0,
       inactive_bytes = 2 ^ 30, compressed_bytes = 0, mem_valid = True\<rparr> (2 ^ 33) (2 ^ 20) (2 ^ 31) = Inr est \<and>
     fit_verdict est = WontFit"
proof -
  let ?mem = "\<lparr>total_bytes = 2 ^ 34, free_bytes = 2 ^ 32, active_bytes = 0, wired_bytes = 0,
    inactive_bytes = 2 ^ 30, compressed_bytes = 0, mem_valid = True\<rparr>"
  show ?thesis using fit_verdict_exact [of ?mem "2 ^ 33" "2 ^ 20" "2 ^ 31"] by auto
qed

end
