(* ===== verification/Logger.thy ===== *)
theory Logger
  imports Prelude
begin

text \<open>
  log/logger.cpp: the level filter, the two sinks and the rotation of the log file, on a file system
  that maps paths to their contents. Which paths can be opened and the time stamps are arguments.
\<close>

section \<open>State\<close>

datatype level = Debug | Info | Warn | Error

fun level_num :: "level \<Rightarrow> nat" where
  "level_num Debug = 0" | "level_num Info = 1" | "level_num Warn = 2" | "level_num Error = 3"

fun level_tag :: "level \<Rightarrow> string" where
  "level_tag Debug = ''DEBUG''" | "level_tag Info = ''INFO''" | "level_tag Warn = ''WARN''"
| "level_tag Error = ''ERROR''"

type_synonym files = "string \<Rightarrow> string option"

text \<open>The static objects of the source; the stream is the path it has open and its failure bit.\<close>

record logger =
  lg_level :: level
  lg_stream :: "string option"
  lg_fail :: bool
  lg_path :: string
  lg_max :: nat
  lg_keep :: nat
  lg_written :: nat
  lg_file :: bool
  lg_stderr :: bool
  lg_files :: files
  lg_shown :: string

definition logger_init :: "files \<Rightarrow> logger" where
  "logger_init fs =
     \<lparr>lg_level = Info, lg_stream = None, lg_fail = False, lg_path = [], lg_max = 2 ^ 20, lg_keep = 3, lg_written = 0,
      lg_file = False, lg_stderr = True, lg_files = fs, lg_shown = []\<rparr>"

text \<open>std::filesystem::rename() and remove(), errors ignored.\<close>

definition move_file :: "string \<Rightarrow> string \<Rightarrow> files \<Rightarrow> files" where
  "move_file a b fs = (case fs a of None \<Rightarrow> fs | Some c \<Rightarrow> if a = b then fs else fs(a := None, b \<mapsto> c))"

definition rotated :: "string \<Rightarrow> nat \<Rightarrow> string" where
  "rotated base i = base @ ''.'' @ digits_of i"

section \<open>Operations\<close>

text \<open>The loop that shifts .N to .(N+1), from keep_files down to 2.\<close>

fun shift_files :: "string \<Rightarrow> nat \<Rightarrow> files \<Rightarrow> files" where
  "shift_files base i fs =
     (if 2 \<le> i then shift_files base (i - 1) (move_file (rotated base (i - 1)) (rotated base i) fs) else fs)"

declare shift_files.simps [simp del]

definition rotate_if_needed :: "(string \<Rightarrow> bool) \<Rightarrow> nat \<Rightarrow> logger \<Rightarrow> logger" where
  "rotate_if_needed can_open incoming l =
     (let total = lg_written l + incoming
      in if total < lg_max l \<or> lg_max l = 0 then l\<lparr>lg_written := total\<rparr>
         else if lg_path l = [] then l\<lparr>lg_stream := None\<rparr>
         else let base = lg_path l;
                  fs1 = (lg_files l)(rotated base (lg_keep l) := None);
                  fs2 = move_file base (rotated base 1) (shift_files base (lg_keep l) fs1)
              in if can_open base
                 then l\<lparr>lg_files := fs2(base \<mapsto> []), lg_stream := Some base, lg_fail := False, lg_written := 0\<rparr>
                 else l\<lparr>lg_files := fs2, lg_stream := None, lg_fail := True, lg_written := 0\<rparr>)"

definition write_file :: "string \<Rightarrow> logger \<Rightarrow> logger" where
  "write_file s l =
     (case lg_stream l of
        None \<Rightarrow> l
      | Some p \<Rightarrow> if lg_fail l then l
                else l\<lparr>lg_files := (lg_files l)(p \<mapsto> (case lg_files l p of None \<Rightarrow> s | Some c \<Rightarrow> c @ s))\<rparr>)"

definition log_line :: "string \<Rightarrow> level \<Rightarrow> string \<Rightarrow> string" where
  "log_line time lv msg = time @ '' ['' @ level_tag lv @ ''] '' @ msg @ [nl]"

definition emit :: "(string \<Rightarrow> bool) \<Rightarrow> string \<Rightarrow> level \<Rightarrow> string \<Rightarrow> logger \<Rightarrow> logger" where
  "emit can_open time lv msg l =
     (if level_num lv < level_num (lg_level l) then l
      else let line = log_line time lv msg;
               l1 = (if lg_stderr l then l\<lparr>lg_shown := lg_shown l @ line\<rparr> else l)
           in if lg_file l1 \<and> lg_stream l1 \<noteq> None
              then write_file line (rotate_if_needed can_open (length line) l1)
              else l1)"

text \<open>
  init(): the stream is opened for appending. Opening a stream that is open already fails and leaves it
  open on the old file, in the failed state.
\<close>

definition log_init :: "(string \<Rightarrow> bool) \<Rightarrow> level \<Rightarrow> string \<Rightarrow> nat \<Rightarrow> nat \<Rightarrow> logger \<Rightarrow> logger" where
  "log_init can_open lv path max_bytes keep l =
     (let l1 = l\<lparr>lg_level := lv, lg_max := max_bytes, lg_keep := keep, lg_written := 0, lg_file := False\<rparr>
      in if path = [] then l1
         else let l2 = (if lg_stream l1 = None \<and> can_open path
                        then l1\<lparr>lg_stream := Some path, lg_fail := False,
                               lg_files := (lg_files l1)(path \<mapsto> (case lg_files l1 path of None \<Rightarrow> [] | Some c \<Rightarrow> c))\<rparr>
                        else l1\<lparr>lg_fail := True\<rparr>)
              in if lg_stream l2 \<noteq> None
                 then l2\<lparr>lg_path := path, lg_file := True,
                        lg_written := (case lg_files l2 path of None \<Rightarrow> 0 | Some c \<Rightarrow> length c)\<rparr>
                 else l2)"

definition log_init_file_only :: "(string \<Rightarrow> bool) \<Rightarrow> level \<Rightarrow> string \<Rightarrow> nat \<Rightarrow> nat \<Rightarrow> logger \<Rightarrow> logger" where
  "log_init_file_only can_open lv path max_bytes keep l =
     (log_init can_open lv path max_bytes keep l)\<lparr>lg_stderr := False\<rparr>"

section \<open>The retained log\<close>

definition content :: "files \<Rightarrow> string \<Rightarrow> string" where
  "content fs p = (case fs p of None \<Rightarrow> [] | Some c \<Rightarrow> c)"

text \<open>What is kept of the log: the rotated files from the oldest on, then the current one.\<close>

definition old_log :: "string \<Rightarrow> nat \<Rightarrow> files \<Rightarrow> string" where
  "old_log base k fs = concat (map (\<lambda>i. content fs (rotated base i)) (rev [1..<Suc k]))"

definition kept_log :: "logger \<Rightarrow> string" where
  "kept_log l = old_log (lg_path l) (lg_keep l) (lg_files l) @ content (lg_files l) (lg_path l)"

lemma rotated_inject [simp]: "rotated base i = rotated base j \<longleftrightarrow> i = j"
proof -
  have "digits_of i = digits_of j \<Longrightarrow> i = j" by (metis digits_val_digits_of)
  then show ?thesis by (auto simp: rotated_def)
qed

lemma rotated_not_base [simp]: "rotated base i \<noteq> base" "base \<noteq> rotated base i"
  by (simp_all add: rotated_def)

lemma content_move:
  "a \<noteq> b \<Longrightarrow> content fs b = [] \<Longrightarrow>
     content (move_file a b fs) p = (if p = b then content fs a else if p = a then [] else content fs p)"
  by (auto simp: move_file_def content_def split: option.splits)

text \<open>After the shift the slot 1 is free and every slot holds what the one before it held.\<close>

lemma content_shift:
  assumes "content fs (rotated base k) = []" and "1 \<le> k"
  shows "content (shift_files base k fs) (rotated base 1) = [] \<and>
    (\<forall>i. 2 \<le> i \<and> i \<le> k \<longrightarrow> content (shift_files base k fs) (rotated base i) = content fs (rotated base (i - 1))) \<and>
    (\<forall>p. (\<forall>i. 1 \<le> i \<and> i \<le> k \<longrightarrow> p \<noteq> rotated base i) \<longrightarrow> content (shift_files base k fs) p = content fs p)"
  using assms
proof (induction k arbitrary: fs)
  case (Suc k)
  show ?case
  proof (cases "k = 0")
    case True
    then show ?thesis using Suc.prems by (auto simp: shift_files.simps [of base "Suc 0"])
  next
    case False
    let ?fs = "move_file (rotated base k) (rotated base (Suc k)) fs"
    have mv: "content ?fs p = (if p = rotated base (Suc k) then content fs (rotated base k)
        else if p = rotated base k then [] else content fs p)" for p
      using Suc.prems by (intro content_move) simp_all
    have s: "shift_files base (Suc k) fs = shift_files base k ?fs"
      using False by (simp add: shift_files.simps [of base "Suc k"])
    have "content ?fs (rotated base k) = []" using mv by simp
    note ih = Suc.IH [OF this]
    have keep: "content (shift_files base k ?fs) (rotated base (Suc k)) = content fs (rotated base k)"
      using ih False mv by auto
    show ?thesis
      unfolding s using ih False keep mv by (auto simp: le_Suc_eq)
  qed
qed simp

lemma old_log_Suc: "old_log base (Suc k) fs = content fs (rotated base (Suc k)) @ old_log base k fs"
  by (simp add: old_log_def)

lemma old_log_cong:
  "(\<And>i. 1 \<le> i \<Longrightarrow> i \<le> k \<Longrightarrow> content fs (rotated base i) = content fs' (rotated base (g i))) \<Longrightarrow>
     old_log base k fs = concat (map (\<lambda>i. content fs' (rotated base (g i))) (rev [1..<Suc k]))"
  unfolding old_log_def by (intro arg_cong [where f = concat] map_cong) auto

lemma old_log_shift:
  "(\<forall>i. 2 \<le> i \<and> i \<le> Suc k \<longrightarrow> content fs' (rotated base i) = content fs (rotated base (i - 1))) \<Longrightarrow>
     old_log base (Suc k) fs' = old_log base k fs @ content fs' (rotated base 1)"
proof (induction k)
  case 0
  then show ?case by (simp add: old_log_def)
next
  case (Suc k)
  then show ?case by (simp add: old_log_Suc)
qed

section \<open>One line\<close>

text \<open>A logger that writes to its file.\<close>

definition logging :: "(string \<Rightarrow> bool) \<Rightarrow> logger \<Rightarrow> bool" where
  "logging can_open l \<longleftrightarrow> lg_file l \<and> lg_stream l = Some (lg_path l) \<and> \<not> lg_fail l \<and> lg_path l \<noteq> [] \<and>
     1 \<le> lg_keep l \<and> can_open (lg_path l)"

lemma content_upd [simp]: "content (fs(p \<mapsto> c)) q = (if q = p then c else content fs q)"
  "content (fs(p := None)) q = (if q = p then [] else content fs q)"
  by (simp_all add: content_def)

lemma old_log_upd_base [simp]: "old_log base k (fs(base \<mapsto> c)) = old_log base k fs"
  by (simp add: old_log_def)

text \<open>A rotation drops the oldest file and nothing else, and leaves an empty current file.\<close>

lemma rotate_kept:
  assumes "logging can_open l" and "lg_max l \<noteq> 0" and "lg_max l \<le> lg_written l + n"
  shows "\<exists>d. kept_log l = d @ kept_log (rotate_if_needed can_open n l)"
    and "content (lg_files (rotate_if_needed can_open n l)) (lg_path l) = []"
    and "lg_written (rotate_if_needed can_open n l) = 0"
    and "logging can_open (rotate_if_needed can_open n l)"
proof -
  obtain k where k: "lg_keep l = Suc k" using assms(1) by (cases "lg_keep l") (auto simp: logging_def)
  let ?base = "lg_path l" and ?fs1 = "(lg_files l)(rotated (lg_path l) (lg_keep l) := None)"
  let ?fs = "shift_files ?base (Suc k) ?fs1"
  have r: "rotate_if_needed can_open n l =
      l\<lparr>lg_files := (move_file ?base (rotated ?base 1) ?fs)(?base \<mapsto> []), lg_stream := Some ?base,
        lg_fail := False, lg_written := 0\<rparr>"
    using assms by (simp add: rotate_if_needed_def Let_def logging_def k)
  have sh: "content ?fs (rotated ?base 1) = []"
    "\<forall>i. 2 \<le> i \<and> i \<le> Suc k \<longrightarrow> content ?fs (rotated ?base i) = content ?fs1 (rotated ?base (i - 1))"
    "content ?fs ?base = content (lg_files l) ?base"
    using content_shift [of ?fs1 ?base "Suc k"] by (auto simp: k)
  let ?fs2 = "move_file ?base (rotated ?base 1) ?fs"
  have m: "content ?fs2 p = (if p = rotated ?base 1 then content ?fs ?base else if p = ?base then [] else content ?fs p)" for p
    by (rule content_move [OF _ sh(1)]) simp
  have "content ?fs2 (rotated ?base i) = content (lg_files l) (rotated ?base (i - 1))" if "2 \<le> i" "i \<le> Suc k" for i
  proof -
    have "content ?fs2 (rotated ?base i) = content ?fs (rotated ?base i)" unfolding m using that(1) by simp
    also have "\<dots> = content ?fs1 (rotated ?base (i - 1))" using sh(2) that by blast
    also have "\<dots> = content (lg_files l) (rotated ?base (i - 1))" using that by (auto simp: k)
    finally show ?thesis .
  qed
  then have "\<forall>i. 2 \<le> i \<and> i \<le> Suc k \<longrightarrow> content ?fs2 (rotated ?base i) = content (lg_files l) (rotated ?base (i - 1))"
    by blast
  from old_log_shift [OF this] have "old_log ?base (Suc k) ?fs2 = old_log ?base k (lg_files l) @ content (lg_files l) ?base"
    using m sh(3) by simp
  then have "kept_log l = content (lg_files l) (rotated ?base (Suc k)) @ kept_log (rotate_if_needed can_open n l)"
    unfolding r by (simp add: kept_log_def k old_log_Suc)
  then show "\<exists>d. kept_log l = d @ kept_log (rotate_if_needed can_open n l)" by blast
  show "content (lg_files (rotate_if_needed can_open n l)) ?base = []"
    "lg_written (rotate_if_needed can_open n l) = 0" "logging can_open (rotate_if_needed can_open n l)"
    using assms(1) by (simp_all add: r logging_def)
qed

text \<open>The bytes in the current file, up to the one line after a rotation that is not counted.\<close>

definition counted :: "nat \<Rightarrow> logger \<Rightarrow> bool" where
  "counted n l \<longleftrightarrow> length (content (lg_files l) (lg_path l)) \<le> lg_written l + n"

lemma rotate_settings [simp]:
  "lg_path (rotate_if_needed can_open n l) = lg_path l"
  "lg_max (rotate_if_needed can_open n l) = lg_max l"
  "lg_keep (rotate_if_needed can_open n l) = lg_keep l"
  "lg_level (rotate_if_needed can_open n l) = lg_level l"
  by (simp_all add: rotate_if_needed_def Let_def)

lemma write_file_logging:
  assumes "logging can_open l"
  shows "logging can_open (write_file s l)" and "kept_log (write_file s l) = kept_log l @ s"
    and "content (lg_files (write_file s l)) (lg_path l) = content (lg_files l) (lg_path l) @ s"
    and "lg_written (write_file s l) = lg_written l" "lg_max (write_file s l) = lg_max l"
    and "lg_level (write_file s l) = lg_level l" "lg_path (write_file s l) = lg_path l"
  using assms by (auto simp: write_file_def logging_def kept_log_def content_def split: option.split)

lemma emit_line:
  assumes "logging can_open l" and "level_num (lg_level l) \<le> level_num lv" and "log_line time lv msg = line"
  shows "\<exists>d. d @ kept_log (emit can_open time lv msg l) = kept_log l @ line"
    and "logging can_open (emit can_open time lv msg l)"
    and "counted n l \<Longrightarrow> length line \<le> n \<Longrightarrow> lg_max l \<noteq> 0 \<Longrightarrow> counted n (emit can_open time lv msg l) \<and>
      length (content (lg_files (emit can_open time lv msg l)) (lg_path l)) < lg_max l + n"
    and "lg_max (emit can_open time lv msg l) = lg_max l" "lg_level (emit can_open time lv msg l) = lg_level l"
      "lg_path (emit can_open time lv msg l) = lg_path l"
proof -
  define l1 where "l1 = (if lg_stderr l then l\<lparr>lg_shown := lg_shown l @ line\<rparr> else l)"
  define l2 where "l2 = rotate_if_needed can_open (length line) l1"
  have e: "emit can_open time lv msg l = write_file line l2"
    using assms by (auto simp: emit_def l2_def l1_def logging_def)
  have l1: "logging can_open l1" "kept_log l1 = kept_log l" "lg_max l1 = lg_max l" "lg_path l1 = lg_path l"
    "lg_files l1 = lg_files l" "lg_written l1 = lg_written l" "lg_level l1 = lg_level l"
    using assms(1) by (auto simp: l1_def logging_def kept_log_def)
  have "(\<exists>d. kept_log l1 = d @ kept_log l2) \<and> logging can_open l2 \<and>
    (counted n l \<longrightarrow> length line \<le> n \<longrightarrow> lg_max l \<noteq> 0 \<longrightarrow>
       length (content (lg_files l2) (lg_path l)) + length line \<le> lg_written l2 + n \<and>
       length (content (lg_files l2) (lg_path l)) + length line < lg_max l + n)"
  proof (cases "lg_max l1 = 0 \<or> lg_written l1 + length line < lg_max l1")
    case True
    then have "l2 = l1\<lparr>lg_written := lg_written l1 + length line\<rparr>" by (auto simp: l2_def rotate_if_needed_def)
    then show ?thesis using l1 True by (auto simp: logging_def kept_log_def counted_def)
  next
    case False
    then have m: "lg_max l1 \<noteq> 0" "lg_max l1 \<le> lg_written l1 + length line" by auto
    note r = rotate_kept [OF l1(1) m, folded l2_def]
    show ?thesis using r l1 m by auto
  qed
  then have l2: "\<exists>d. kept_log l1 = d @ kept_log l2" "logging can_open l2"
    "counted n l \<Longrightarrow> length line \<le> n \<Longrightarrow> lg_max l \<noteq> 0 \<Longrightarrow>
       length (content (lg_files l2) (lg_path l)) + length line \<le> lg_written l2 + n \<and>
       length (content (lg_files l2) (lg_path l)) + length line < lg_max l + n"
    by blast+
  have p: "lg_path l2 = lg_path l" "lg_max l2 = lg_max l" "lg_level l2 = lg_level l" using l1 by (simp_all add: l2_def)
  note w = write_file_logging [OF l2(2), of line]
  show "\<exists>d. d @ kept_log (emit can_open time lv msg l) = kept_log l @ line"
    using l2(1) l1(2) by (auto simp: e w)
  show "logging can_open (emit can_open time lv msg l)" by (simp add: e w)
  show "counted n l \<Longrightarrow> length line \<le> n \<Longrightarrow> lg_max l \<noteq> 0 \<Longrightarrow> counted n (emit can_open time lv msg l) \<and>
      length (content (lg_files (emit can_open time lv msg l)) (lg_path l)) < lg_max l + n"
    using l2(3) w(3) p by (auto simp: e counted_def w(4,7))
  show "lg_max (emit can_open time lv msg l) = lg_max l" "lg_level (emit can_open time lv msg l) = lg_level l"
    "lg_path (emit can_open time lv msg l) = lg_path l"
    by (simp_all add: e w p)
qed

section \<open>Properties\<close>

definition emit_each :: "(string \<Rightarrow> bool) \<Rightarrow> (string \<times> level \<times> string) list \<Rightarrow> logger \<Rightarrow> logger" where
  "emit_each can_open es l = fold (\<lambda>(time, lv, msg). emit can_open time lv msg) es l"

definition logged :: "level \<Rightarrow> (string \<times> level \<times> string) list \<Rightarrow> string" where
  "logged threshold es = concat (map (\<lambda>(time, lv, msg). if level_num threshold \<le> level_num lv then log_line time lv msg else []) es)"

lemma emit_each_kept:
  "logging can_open l \<Longrightarrow>
     logging can_open (emit_each can_open es l) \<and>
     suffix (kept_log (emit_each can_open es l)) (kept_log l @ logged (lg_level l) es)"
proof (induction es arbitrary: l)
  case Nil
  then show ?case by (simp add: emit_each_def logged_def)
next
  case (Cons e es)
  obtain time lv msg where e: "e = (time, lv, msg)" by (cases e)
  let ?l = "emit can_open time lv msg l"
  have step: "emit_each can_open (e # es) l = emit_each can_open es ?l" by (simp add: emit_each_def e)
  show ?case
  proof (cases "level_num (lg_level l) \<le> level_num lv")
    case False
    then have "?l = l" by (simp add: emit_def)
    moreover have "logged (lg_level l) (e # es) = logged (lg_level l) es" using False by (simp add: logged_def e)
    ultimately show ?thesis using Cons.IH [OF Cons.prems] step by simp
  next
    case True
    let ?line = "log_line time lv msg"
    obtain d where d: "d @ kept_log ?l = kept_log l @ ?line" using emit_line(1) [OF Cons.prems True refl] by blast
    have ih: "logging can_open (emit_each can_open es ?l)"
      "suffix (kept_log (emit_each can_open es ?l)) (kept_log ?l @ logged (lg_level l) es)"
      using Cons.IH [OF emit_line(2) [OF Cons.prems True refl]] emit_line(5) [OF Cons.prems True refl] by simp_all
    have "suffix (kept_log ?l @ logged (lg_level l) es) ((d @ kept_log ?l) @ logged (lg_level l) es)"
      by (simp add: suffix_def)
    then have "suffix (kept_log ?l @ logged (lg_level l) es) (kept_log l @ logged (lg_level l) (e # es))"
      using True unfolding d by (simp add: logged_def e)
    then show ?thesis using ih step suffix_order.trans by metis
  qed
qed

lemma emit_each_bound:
  "logging can_open l \<Longrightarrow> counted n l \<Longrightarrow> lg_max l \<noteq> 0 \<Longrightarrow>
     list_all (\<lambda>(time, lv, msg). length (log_line time lv msg) \<le> n) es \<Longrightarrow>
     length (content (lg_files l) (lg_path l)) < lg_max l + n \<Longrightarrow>
     length (content (lg_files (emit_each can_open es l)) (lg_path l)) < lg_max l + n"
proof (induction es arbitrary: l)
  case Nil
  then show ?case by (simp add: emit_each_def)
next
  case (Cons e es)
  obtain time lv msg where e: "e = (time, lv, msg)" by (cases e)
  let ?l = "emit can_open time lv msg l"
  have step: "emit_each can_open (e # es) l = emit_each can_open es ?l" by (simp add: emit_each_def e)
  show ?case
  proof (cases "level_num (lg_level l) \<le> level_num lv")
    case False
    then have "?l = l" by (simp add: emit_def)
    then show ?thesis using Cons by (simp add: step)
  next
    case True
    note em = emit_line [OF Cons.prems(1) True refl]
    have "length (log_line time lv msg) \<le> n" using Cons.prems(4) by (simp add: e)
    then have c: "counted n ?l" "length (content (lg_files ?l) (lg_path l)) < lg_max l + n"
      using em(3) Cons.prems by blast+
    show ?thesis using Cons.IH [OF em(2) c(1)] Cons.prems(3,4) c(2) em(4,6) by (simp add: step)
  qed
qed

text \<open>
  C23. Rotation loses only the oldest lines, and keeps the files small: after any sequence of
  messages the rotated files from the oldest on, followed by the current file, are the end of all
  that was ever logged, and the current file is shorter than max_bytes and one line together.
\<close>

theorem log_rotation:
  assumes "logging can_open l" and "lg_max l \<noteq> 0"
    and "length (content (lg_files l) (lg_path l)) \<le> lg_written l"
    and "length (content (lg_files l) (lg_path l)) < lg_max l + n"
    and "list_all (\<lambda>(time, lv, msg). length (log_line time lv msg) \<le> n) es"
  shows "suffix (kept_log (emit_each can_open es l)) (kept_log l @ logged (lg_level l) es) \<and>
    length (content (lg_files (emit_each can_open es l)) (lg_path l)) < lg_max l + n"
  using emit_each_kept [OF assms(1)] emit_each_bound [OF assms(1) _ assms(2,5,4)] assms(3)
  by (simp add: counted_def)

definition demo_logger :: logger where
  "demo_logger = log_init (\<lambda>_. True) Info ''f'' 10 1 (logger_init Map.empty)"

theorem log_rotation_witness:
  "length (content (lg_files (emit_each (\<lambda>_. True) [(''t'', Warn, ''a''), (''t'', Error, ''b'')] demo_logger)) ''f'') < 10 + 12"
proof -
  have l: "logging (\<lambda>_. True) demo_logger" "lg_max demo_logger = 10" "lg_path demo_logger = ''f''"
    "length (content (lg_files demo_logger) ''f'') = 0"
    by (simp_all add: demo_logger_def log_init_def logger_init_def logging_def content_def)
  then show ?thesis
    using log_rotation [of "\<lambda>_. True" demo_logger 12 "[(''t'', Warn, ''a''), (''t'', Error, ''b'')]"]
    by (simp add: log_line_def)
qed

end
