(* ===== verification/Dns.thy ===== *)
theory Dns
  imports Json
begin

text \<open>
  exposure/dns.hpp and exposure/dns.cpp: the splitting of an https URL, the requests to the
  Cloudflare API with the record operations built from them, and the lookup of a TXT record.

  The network is an argument: a function from the state of the outside world and a request to
  the new state and the answer. The operations thread that state in the order of their requests.
\<close>

section \<open>Requests\<close>

record http_result =
  hr_status :: int
  hr_body :: string

definition http_ok :: "http_result \<Rightarrow> bool" where
  "http_ok r \<longleftrightarrow> 200 \<le> hr_status r \<and> hr_status r < 300"

record http_call =
  hc_method :: string
  hc_host :: string
  hc_port :: int
  hc_path :: string
  hc_headers :: "(string \<times> string) list"
  hc_body :: string

type_synonym 'w net = "'w \<Rightarrow> http_call \<Rightarrow> 'w \<times> http_result"

definition split_header :: "string \<Rightarrow> (string \<times> string) list" where
  "split_header h = (case find_char (CHR '':'') h of None \<Rightarrow> [] | Some i \<Rightarrow> [(take i h, drop (i + 1) h)])"

text \<open>The host, the port and the path of a URL behind its scheme.\<close>

definition split_url :: "string \<Rightarrow> string \<times> int \<times> string" where
  "split_url rest =
     (let slash = find_char (CHR ''/'') rest;
          hostport = (case slash of None \<Rightarrow> rest | Some i \<Rightarrow> take i rest);
          path = (case slash of None \<Rightarrow> ''/'' | Some i \<Rightarrow> drop i rest)
      in case rfind_char (CHR '':'') hostport of
           None \<Rightarrow> (hostport, 443, path)
         | Some c \<Rightarrow> (take c hostport, atoi (drop (c + 1) hostport), path))"

definition call_of :: "string \<Rightarrow> string \<Rightarrow> string list \<Rightarrow> string \<Rightarrow> http_call" where
  "call_of method url headers body =
     (let (host, port, path) = split_url (drop 8 url)
      in \<lparr>hc_method = method, hc_host = host, hc_port = port, hc_path = path,
          hc_headers = concat (map split_header headers),
          hc_body = (if method = ''GET'' then [] else body)\<rparr>)"

definition https_request ::
  "'w net \<Rightarrow> string \<Rightarrow> string \<Rightarrow> string list \<Rightarrow> string \<Rightarrow> 'w \<Rightarrow> 'w \<times> http_result" where
  "https_request net method url headers body w =
     (if \<not> starts_with ''https://'' url
      then (w, \<lparr>hr_status = -1, hr_body = ''only https URLs supported''\<rparr>)
      else if method \<notin> set [''GET'', ''POST'', ''PUT'', ''PATCH'', ''DELETE'']
           then (w, \<lparr>hr_status = -1, hr_body = ''unsupported method '' @ method\<rparr>)
           else net w (call_of method url headers body))"

section \<open>Looking up a TXT record\<close>

definition strip_quotes :: "string \<Rightarrow> string" where
  "strip_quotes v = (if 2 \<le> length v \<and> hd v = dquote \<and> last v = dquote then substr v 1 (length v - 2) else v)"

fun first_txt :: "('j, 'm) json_api_scheme \<Rightarrow> 'j list \<Rightarrow> string or_throw" where
  "first_txt J [] = Inr []"
| "first_txt J (a # as) =
     and_then (j_value_int J a ''type'' 0) (\<lambda>t.
       if t = 16 then and_then (j_value_str J a ''data'' []) (\<lambda>v. Inr (strip_quotes v))
       else first_txt J as)"

text \<open>A JSON access that throws is caught: the result is empty.\<close>

definition dns_query_txt ::
  "('j, 'm) json_api_scheme \<Rightarrow> 'w net \<Rightarrow> string \<Rightarrow> 'w \<Rightarrow> 'w \<times> string" where
  "dns_query_txt J net name w =
     (let (w', res) = https_request net ''GET''
            (''https://cloudflare-dns.com/dns-query?name='' @ name @ ''&type=TXT'')
            [''accept: application/dns-json''] [] w
      in (w', if \<not> http_ok res then []
              else case and_then (j_parse J (hr_body res)) (\<lambda>j.
                     case j_get J j ''Answer'' of
                       None \<Rightarrow> Inl ''key Answer not found''
                     | Some ans \<Rightarrow> first_txt J (j_items J ans)) of
                Inl _ \<Rightarrow> [] | Inr v \<Rightarrow> v))"

section \<open>The Cloudflare provider\<close>

definition api :: string where
  "api = ''https://api.cloudflare.com/client/v4/zones''"

definition hdrs :: "string \<Rightarrow> string list" where
  "hdrs token = [''Authorization: Bearer '' @ token, ''Content-Type: application/json'']"

definition zone_id ::
  "('j, 'm) json_api_scheme \<Rightarrow> 'w net \<Rightarrow> string \<Rightarrow> string \<Rightarrow> 'w \<Rightarrow> 'w \<times> string" where
  "zone_id J net token zone w =
     (let (w', res) = https_request net ''GET'' (api @ ''?name='' @ zone) (hdrs token) [] w
      in (w', if \<not> http_ok res then []
              else case and_then (j_parse J (hr_body res)) (\<lambda>j.
                     and_then (j_value_bool J j ''success'' False) (\<lambda>success.
                       if \<not> success then Inr []
                       else case j_get J j ''result'' of
                              None \<Rightarrow> Inl ''key result not found''
                            | Some r \<Rightarrow>
                                if \<not> j_is_array J r then Inl ''no array''
                                else (case j_items J r of [] \<Rightarrow> Inr [] | z # _ \<Rightarrow> j_value_str J z ''id'' []))) of
                Inl _ \<Rightarrow> [] | Inr i \<Rightarrow> i))"

definition records_url :: "string \<Rightarrow> string" where
  "records_url zid = api @ ''/'' @ zid @ ''/dns_records''"

definition list_url :: "string \<Rightarrow> string \<Rightarrow> string \<Rightarrow> string" where
  "list_url type zid name = records_url zid @ ''?type='' @ type @ ''&name='' @ name"

definition delete_record :: "'w net \<Rightarrow> string \<Rightarrow> string \<Rightarrow> string \<Rightarrow> 'w \<Rightarrow> 'w \<times> http_result" where
  "delete_record net token zid rid w =
     https_request net ''DELETE'' (records_url zid @ ''/'' @ rid) (hdrs token) [] w"

text \<open>The loops over listed records end where an access throws.\<close>

fun delete_each ::
  "('j, 'm) json_api_scheme \<Rightarrow> 'w net \<Rightarrow> string \<Rightarrow> string \<Rightarrow> 'j list \<Rightarrow> 'w \<Rightarrow> 'w" where
  "delete_each J net token zid [] w = w"
| "delete_each J net token zid (r # rs) w =
     (case j_value_str J r ''id'' [] of
        Inl _ \<Rightarrow> w
      | Inr rid \<Rightarrow>
          delete_each J net token zid rs (if rid = [] then w else fst (delete_record net token zid rid w)))"

definition listed :: "('j, 'm) json_api_scheme \<Rightarrow> string \<Rightarrow> 'j list" where
  "listed J body =
     (case and_then (j_parse J body) (\<lambda>j.
             case j_get J j ''result'' of None \<Rightarrow> Inl ''key result not found'' | Some r \<Rightarrow> Inr (j_items J r)) of
        Inl _ \<Rightarrow> [] | Inr rs \<Rightarrow> rs)"

definition list_and_delete ::
  "('j, 'm) json_api_scheme \<Rightarrow> 'w net \<Rightarrow> string \<Rightarrow> string \<Rightarrow> string \<Rightarrow> string \<Rightarrow> 'w \<Rightarrow> 'w" where
  "list_and_delete J net token type zid name w =
     (let (w', res) = https_request net ''GET'' (list_url type zid name) (hdrs token) [] w
      in if \<not> http_ok res then w' else delete_each J net token zid (listed J (hr_body res)) w')"

definition record_json :: "('j, 'm) json_build_scheme \<Rightarrow> string \<Rightarrow> string \<Rightarrow> string \<Rightarrow> 'j" where
  "record_json J type name content =
     j_of_obj J [(''type'', j_of_str J type), (''name'', j_of_str J name), (''content'', j_of_str J content),
                 (''ttl'', j_of_int J 120), (''proxied'', j_of_bool J False)]"

definition upsert ::
  "('j, 'm) json_build_scheme \<Rightarrow> 'w net \<Rightarrow> string \<Rightarrow> string \<Rightarrow> string \<Rightarrow> string \<Rightarrow> string \<Rightarrow> 'w
     \<Rightarrow> 'w \<times> bool" where
  "upsert J net token type zone name content w =
     (let (w1, zid) = zone_id J net token zone w
      in if zid = [] then (w1, False)
         else let w2 = list_and_delete J net token type zid name w1;
                  (w3, res) = https_request net ''POST'' (records_url zid) (hdrs token)
                                (j_dump J (record_json J type name content)) w2
              in (w3, http_ok res))"

fun remove_each ::
  "('j, 'm) json_api_scheme \<Rightarrow> 'w net \<Rightarrow> string \<Rightarrow> string \<Rightarrow> string \<Rightarrow> 'j list \<Rightarrow> bool \<Rightarrow> 'w
     \<Rightarrow> 'w \<times> bool" where
  "remove_each J net token zid value [] done w = (w, done)"
| "remove_each J net token zid value (r # rs) done w =
     (case j_value_str J r ''content'' [] of
        Inl _ \<Rightarrow> (w, done)
      | Inr content \<Rightarrow>
          if content \<noteq> value then remove_each J net token zid value rs done w
          else (case j_value_str J r ''id'' [] of
                  Inl _ \<Rightarrow> (w, done)
                | Inr rid \<Rightarrow>
                    if rid = [] then remove_each J net token zid value rs done w
                    else let (w', del) = delete_record net token zid rid w
                         in remove_each J net token zid value rs (http_ok del \<or> done) w'))"

definition remove_record ::
  "('j, 'm) json_api_scheme \<Rightarrow> 'w net \<Rightarrow> string \<Rightarrow> string \<Rightarrow> string \<Rightarrow> string \<Rightarrow> string \<Rightarrow> 'w
     \<Rightarrow> 'w \<times> bool" where
  "remove_record J net token type zone name value w =
     (let (w1, zid) = zone_id J net token zone w
      in if zid = [] then (w1, False)
         else let (w2, res) = https_request net ''GET'' (list_url type zid name) (hdrs token) [] w1
              in if \<not> http_ok res then (w2, False)
                 else remove_each J net token zid value (listed J (hr_body res)) False w2)"

definition set_txt where "set_txt J net token = upsert J net token ''TXT''"
definition set_cname where "set_cname J net token = upsert J net token ''CNAME''"
definition set_a where "set_a J net token = upsert J net token ''A''"
definition remove_txt where "remove_txt J net token = remove_record J net token ''TXT''"

text \<open>make_dns_provider(): the token of the environment, when there is one.\<close>

definition dns_token :: "(string \<Rightarrow> string option) \<Rightarrow> string option" where
  "dns_token env = (case env ''HOSTELY_CF_API_TOKEN'' of None \<Rightarrow> None | Some t \<Rightarrow> if t = [] then None else Some t)"

section \<open>The zone of a domain\<close>

text \<open>std::string::rfind(c, p): the last occurrence at p or before it.\<close>

definition rfind_char_upto :: "char \<Rightarrow> string \<Rightarrow> nat \<Rightarrow> nat option" where
  "rfind_char_upto c s p = rfind_char c (take (p + 1) s)"

text \<open>The last two labels, as three callers take them. A dot at the front has nothing before it: the
  search then starts from the end again.\<close>

definition two_labels :: "string \<Rightarrow> string" where
  "two_labels domain =
     (case rfind_char (CHR ''.'') domain of
        None \<Rightarrow> domain
      | Some l \<Rightarrow>
          (case (if l = 0 then rfind_char (CHR ''.'') domain else rfind_char_upto (CHR ''.'') domain (l - 1)) of
             None \<Rightarrow> domain
           | Some prev \<Rightarrow> drop (prev + 1) domain))"

section \<open>The requests of a provider\<close>

text \<open>Any network, with the requests it was asked, and the requests the provider builds.\<close>

definition logged :: "'w net \<Rightarrow> ('w \<times> http_call list) net" where
  "logged net = (\<lambda>(w, log) c. let (w', r) = net w c in ((w', log @ [c]), r))"

definition zone_call :: "string \<Rightarrow> string \<Rightarrow> http_call" where
  "zone_call token zone = call_of ''GET'' (api @ ''?name='' @ zone) (hdrs token) []"

definition list_call :: "string \<Rightarrow> string \<Rightarrow> string \<Rightarrow> string \<Rightarrow> http_call" where
  "list_call token type zid name = call_of ''GET'' (list_url type zid name) (hdrs token) []"

definition delete_call :: "string \<Rightarrow> string \<Rightarrow> string \<Rightarrow> http_call" where
  "delete_call token zid rid = call_of ''DELETE'' (records_url zid @ ''/'' @ rid) (hdrs token) []"

definition create_call :: "('j, 'm) json_build_scheme \<Rightarrow> string \<Rightarrow> string \<Rightarrow> string \<Rightarrow> string \<Rightarrow> string \<Rightarrow> http_call" where
  "create_call J token type zid name content =
     call_of ''POST'' (records_url zid) (hdrs token) (j_dump J (record_json J type name content))"

text \<open>The identifiers a listing gives, up to the first that cannot be read.\<close>

fun record_ids :: "('j, 'm) json_api_scheme \<Rightarrow> 'j list \<Rightarrow> string list" where
  "record_ids J [] = []"
| "record_ids J (r # rs) =
     (case j_value_str J r ''id'' [] of
        Inl _ \<Rightarrow> [] | Inr rid \<Rightarrow> if rid = [] then record_ids J rs else rid # record_ids J rs)"

lemma api_request:
  assumes "method = ''GET'' \<or> method = ''POST'' \<or> method = ''DELETE''"
  shows "https_request net method (api @ rest) hs body w = net w (call_of method (api @ rest) hs body)"
  using assms unfolding https_request_def api_def starts_with_def by auto

lemmas provider_requests =
  api_request [of "''GET''", simplified] api_request [of "''POST''", simplified]
  api_request [of "''DELETE''", simplified]

lemma api_host: "hc_host (call_of m (api @ rest) hs b) = ''api.cloudflare.com''"
    "hc_port (call_of m (api @ rest) hs b) = 443"
  unfolding call_of_def api_def split_url_def find_char_def rfind_char_def
  by (simp_all add: Let_def)

lemma logged_app [simp]:
  "logged net (w, log) c = ((fst (net w c), log @ [c]), snd (net w c))"
  unfolding logged_def by (simp add: case_prod_beta Let_def)

lemma zone_id_logged:
  "zone_id J (logged net) token zone (w, log) =
     ((fst (zone_id J net token zone w), log @ [zone_call token zone]), snd (zone_id J net token zone w))"
  unfolding zone_id_def zone_call_def by (simp add: provider_requests case_prod_beta Let_def)

lemma delete_each_logged:
  "snd (delete_each J (logged net) token zid rs (w, log)) =
     log @ map (delete_call token zid) (record_ids J rs)"
proof (induction rs arbitrary: w log)
  case (Cons r rs)
  then show ?case
    by (simp add: delete_record_def delete_call_def records_url_def provider_requests split: sum.splits)
qed simp

lemma delete_each_world:
  "fst (delete_each J (logged net) token zid rs (w, log)) = delete_each J net token zid rs w"
proof (induction rs arbitrary: w log)
  case (Cons r rs)
  then show ?case
    by (simp add: delete_record_def records_url_def provider_requests split: sum.splits)
qed simp

lemma delete_each_both:
  "delete_each J (logged net) token zid rs (w, log) =
     (delete_each J net token zid rs w, log @ map (delete_call token zid) (record_ids J rs))"
  by (simp add: prod_eq_iff delete_each_logged delete_each_world)

lemma list_request:
  "https_request net ''GET'' (list_url type zid name) (hdrs token) [] w = net w (list_call token type zid name)"
  unfolding list_url_def records_url_def list_call_def by (simp add: provider_requests)

lemma create_request:
  "https_request net ''POST'' (records_url zid) (hdrs token) (j_dump J (record_json J type name content)) w =
     net w (create_call J token type zid name content)"
  unfolding records_url_def create_call_def by (simp add: provider_requests)

lemma call_hosts:
  "hc_host (zone_call token zone) = ''api.cloudflare.com'' \<and> hc_port (zone_call token zone) = 443"
  "hc_host (list_call token type zid name) = ''api.cloudflare.com'' \<and> hc_port (list_call token type zid name) = 443"
  "hc_host (delete_call token zid rid) = ''api.cloudflare.com'' \<and> hc_port (delete_call token zid rid) = 443"
  "hc_host (create_call J token type zid name content) = ''api.cloudflare.com'' \<and>
     hc_port (create_call J token type zid name content) = 443"
  unfolding zone_call_def list_call_def delete_call_def create_call_def list_url_def records_url_def
    append_assoc
  by (intro conjI api_host)+

text \<open>set_txt(), set_cname() and set_a() replace a record by requests in this order: the zone, the
  listing, a DELETE of every listed record, and last the POST of the new one, each to the API's host.
  No answer to a DELETE changes what follows, and the result is the answer to the POST alone: when it
  is refused the old records have already been deleted.\<close>

lemma upsert_requests:
  assumes zone: "zone_id J net token zone w = (w1, zid)" "zid \<noteq> []"
    and list: "net w1 (list_call token type zid name) = (w2, res)" "http_ok res"
    and create: "net (delete_each J net token zid (listed J (hr_body res)) w2)
                   (create_call J token type zid name content) = (w3, answer)"
  shows "\<exists>log. upsert J (logged net) token type zone name content (w, []) = ((w3, log), http_ok answer) \<and>
     log = [zone_call token zone, list_call token type zid name] @
           map (delete_call token zid) (record_ids J (listed J (hr_body res))) @
           [create_call J token type zid name content] \<and>
     list_all (\<lambda>c. hc_host c = ''api.cloudflare.com'' \<and> hc_port c = 443) log"
proof -
  have "upsert J (logged net) token type zone name content (w, []) =
      ((w3, [zone_call token zone, list_call token type zid name] @
           map (delete_call token zid) (record_ids J (listed J (hr_body res))) @
           [create_call J token type zid name content]), http_ok answer)"
    using assms
    by (simp add: upsert_def zone_id_logged list_and_delete_def list_request create_request delete_each_both)
  then show ?thesis
    by (simp add: list_all_iff call_hosts)
qed

text \<open>A provider that lists one record with the identifier 7 and refuses to create another.\<close>

definition refusing_net :: "unit net" where
  "refusing_net w c =
     ((), if hc_method c = ''POST'' then \<lparr>hr_status = 403, hr_body = []\<rparr>
          else if starts_with ''/client/v4/zones?'' (hc_path c)
          then \<lparr>hr_status = 200, hr_body = j_dump tree_json
             (TObj [(''success'', TBool True), (''result'', TArr [TObj [(''id'', TStr ''z'')]])])\<rparr>
          else \<lparr>hr_status = 200, hr_body = j_dump tree_json
             (TObj [(''result'', TArr [TObj [(''id'', TStr ''7'')]])])\<rparr>)"

lemma upsert_requests_witness:
  "snd (upsert tree_json (logged refusing_net) ''t'' ''A'' ''a.b'' ''a.b'' ''1.2.3.4'' ((), [])) = False \<and>
   map hc_method (snd (fst (upsert tree_json (logged refusing_net) ''t'' ''A'' ''a.b'' ''a.b'' ''1.2.3.4'' ((), [])))) =
     [''GET'', ''GET'', ''DELETE'', ''POST'']"
proof -
  let ?res = "\<lparr>hr_status = 200, hr_body = j_dump tree_json
             (TObj [(''result'', TArr [TObj [(''id'', TStr ''7'')]])])\<rparr>"
  let ?no = "\<lparr>hr_status = 403, hr_body = []\<rparr>"
  have paths: "hc_path (zone_call ''t'' ''a.b'') = ''/client/v4/zones?name=a.b'' \<and>
      hc_path (list_call ''t'' ''A'' ''z'' ''a.b'') = ''/client/v4/zones/z/dns_records?type=A&name=a.b''"
    by code_simp
  have methods: "hc_method (zone_call ''t'' ''a.b'') = ''GET''" "hc_method (list_call ''t'' ''A'' ''z'' ''a.b'') = ''GET''"
    "hc_method (create_call tree_json ''t'' ''A'' ''z'' ''a.b'' ''1.2.3.4'') = ''POST''"
    by (simp_all add: zone_call_def list_call_def create_call_def call_of_def case_prod_beta)
  have z0: "refusing_net () (zone_call ''t'' ''a.b'') = ((), \<lparr>hr_status = 200, hr_body = j_dump tree_json
             (TObj [(''success'', TBool True), (''result'', TArr [TObj [(''id'', TStr ''z'')]])])\<rparr>)"
    by (simp add: refusing_net_def paths methods starts_with_def)
  have z: "zone_id tree_json refusing_net ''t'' ''a.b'' () = ((), ''z'')"
    unfolding zone_id_def provider_requests zone_call_def [symmetric] z0
    by (simp add: tree_parse_dump http_ok_def) (simp add: tree_json_def)
  have l: "refusing_net () (list_call ''t'' ''A'' ''z'' ''a.b'') = ((), ?res)" "http_ok ?res"
    by (simp_all add: refusing_net_def paths methods starts_with_def http_ok_def)
  have ids: "record_ids tree_json (listed tree_json (hr_body ?res)) = [''7'']"
    by (simp add: listed_def tree_parse_dump) (simp add: tree_json_def)
  have c: "refusing_net (delete_each tree_json refusing_net ''t'' ''z'' (listed tree_json (hr_body ?res)) ())
       (create_call tree_json ''t'' ''A'' ''z'' ''a.b'' ''1.2.3.4'') = ((), ?no)"
    by (simp add: refusing_net_def methods)
  show ?thesis
    using upsert_requests [OF z _ l c] unfolding ids
    by (simp add: http_ok_def)
      (simp add: zone_call_def list_call_def delete_call_def create_call_def call_of_def case_prod_beta)
qed

end
