(* ===== verification/Router.thy ===== *)
theory Router
  imports Dns
begin

text \<open>
  exposure/router.cpp: the port mappings asked of the default gateway over NAT-PMP, PCP and UPnP,
  and the watcher that keeps an A record at the public address.

  The gateway is an argument, as the functions that answer a datagram and a SOAP request; an IPv4
  address is its four bytes in network order. The operations thread the state of the world in
  the order of their exchanges. The loop of the watcher is a step per cycle.
\<close>

section \<open>The gateway\<close>

type_synonym ip4 = "byte list"

text \<open>inet_ntop(), and the test that an address is not all zeros.\<close>

definition ip_text :: "ip4 \<Rightarrow> string" where
  "ip_text a = concat (map (\<lambda>b. digits_of (unat b) @ ''.'') (take 3 a)) @ digits_of (unat (a ! 3))"

definition no_ip :: ip4 where
  "no_ip = [0, 0, 0, 0]"

text \<open>
  What the gateway is reached through: the output of route(8), inet_pton(), the answers to a
  datagram and to a SOAP request, and random bytes.
\<close>

record 'w gateway =
  gw_route :: "'w \<Rightarrow> string"
  gw_pton :: "string \<Rightarrow> ip4 option"
  gw_udp :: "'w \<Rightarrow> ip4 \<Rightarrow> byte list \<Rightarrow> 'w \<times> byte list option"
  gw_post :: "'w \<Rightarrow> string \<Rightarrow> string \<Rightarrow> string \<Rightarrow> 'w \<times> int option"
  gw_rand :: "nat \<Rightarrow> byte"

text \<open>What stands behind the first "gateway:" on its line; an address of zeros is no gateway.\<close>

definition cut_eol :: "string \<Rightarrow> string" where
  "cut_eol s = takeWhile (\<lambda>c. c \<noteq> nl \<and> c \<noteq> cr) s"

definition default_gateway_v4 :: "'w gateway \<Rightarrow> 'w \<Rightarrow> ip4" where
  "default_gateway_v4 G w =
     (let out = gw_route G w
      in case find_str ''gateway:'' out of
           None \<Rightarrow> no_ip
         | Some pos \<Rightarrow>
             let gw = dropWhile (\<lambda>c. c = CHR '' '' \<or> c = CHR 0x09) (drop (pos + 8) out)
             in (case gw_pton G (cut_eol gw) of None \<Rightarrow> no_ip | Some a \<Rightarrow> a))"

text \<open>One exchange: the answer, cut to the buffer; an empty one is no answer.\<close>

definition udp_exchange :: "'w gateway \<Rightarrow> ip4 \<Rightarrow> byte list \<Rightarrow> nat \<Rightarrow> 'w \<Rightarrow> 'w \<times> byte list option" where
  "udp_exchange G gw req cap w =
     (let (w', r) = gw_udp G w gw req
      in (w', case r of None \<Rightarrow> None | Some b \<Rightarrow> if take cap b = [] then None else Some (take cap b)))"

section \<open>NAT-PMP and PCP\<close>

definition natpmp_public_ip :: "'w gateway \<Rightarrow> ip4 \<Rightarrow> 'w \<Rightarrow> 'w \<times> ip4 option" where
  "natpmp_public_ip G gw w =
     (let (w', r) = udp_exchange G gw [0, 0] 16 w
      in (w', case r of
                None \<Rightarrow> None
              | Some resp \<Rightarrow>
                  if length resp < 12 \<or> resp ! 1 \<noteq> 128 \<or> resp ! 2 \<noteq> 0 then None
                  else Some (take 4 (drop 8 resp))))"

definition natpmp_op :: "string \<Rightarrow> byte" where
  "natpmp_op proto = (if proto = ''udp'' then 2 else 1)"

text \<open>The 12 bytes of a mapping request: a port is cut to 16 bits.\<close>

definition natpmp_request :: "int \<Rightarrow> int \<Rightarrow> string \<Rightarrow> byte list" where
  "natpmp_request ext internal proto =
     [0, natpmp_op proto, 0, 0] @ put_u16 (word_of_int internal) @ put_u16 (word_of_int ext) @ put_u32 7200"

definition natpmp_accepts :: "byte list \<Rightarrow> byte list \<Rightarrow> bool" where
  "natpmp_accepts req resp \<longleftrightarrow>
     16 \<le> length resp \<and> unat (resp ! 1) = unat (req ! 1) + 128 \<and> resp ! 2 = 0"

fun natpmp_attempts :: "'w gateway \<Rightarrow> ip4 \<Rightarrow> byte list \<Rightarrow> nat \<Rightarrow> 'w \<Rightarrow> 'w \<times> ip4 option" where
  "natpmp_attempts G gw req 0 w = (w, None)"
| "natpmp_attempts G gw req (Suc n) w =
     (let (w', r) = udp_exchange G gw req 16 w
      in case r of
           None \<Rightarrow> natpmp_attempts G gw req n w'
         | Some resp \<Rightarrow>
             if natpmp_accepts req resp then (w', Some (take 4 (drop 8 resp)))
             else natpmp_attempts G gw req n w')"

definition natpmp_map :: "'w gateway \<Rightarrow> ip4 \<Rightarrow> int \<Rightarrow> int \<Rightarrow> string \<Rightarrow> 'w \<Rightarrow> 'w \<times> ip4 option" where
  "natpmp_map G gw ext internal proto w = natpmp_attempts G gw (natpmp_request ext internal proto) 4 w"

text \<open>The 60 bytes of a PCP request as the code lays them out.\<close>

definition pcp_request :: "(nat \<Rightarrow> byte) \<Rightarrow> int \<Rightarrow> int \<Rightarrow> string \<Rightarrow> byte list" where
  "pcp_request rng ext internal proto =
     [2, 1, 0, 0] @ put_u32 7200 @ map rng [0..<12] @ replicate 4 0 @
     [if proto = ''udp'' then 17 else 6, 0, 0, 0] @
     put_u16 (word_of_int internal) @ put_u16 (word_of_int ext) @ replicate 28 0"

definition pcp_accepts :: "byte list \<Rightarrow> bool" where
  "pcp_accepts resp \<longleftrightarrow> 60 \<le> length resp \<and> resp ! 0 = 2 \<and> resp ! 1 = 129 \<and> resp ! 3 = 0"

definition pcp_map :: "'w gateway \<Rightarrow> ip4 \<Rightarrow> int \<Rightarrow> int \<Rightarrow> string \<Rightarrow> 'w \<Rightarrow> 'w \<times> bool" where
  "pcp_map G gw ext internal proto w =
     (let (w', r) = udp_exchange G gw (pcp_request (gw_rand G) ext internal proto) 110 w
      in (w', case r of None \<Rightarrow> False | Some resp \<Rightarrow> pcp_accepts resp))"

section \<open>UPnP\<close>

definition gateway_http_base :: "'w gateway \<Rightarrow> 'w \<Rightarrow> string" where
  "gateway_http_base G w =
     (let gw = default_gateway_v4 G w in if gw = no_ip then [] else ''http://'' @ ip_text gw @ '':5000'')"

definition quoted :: "string \<Rightarrow> string" where
  "quoted s = dquote # s @ [dquote]"

definition upnp_body :: "int \<Rightarrow> int \<Rightarrow> string \<Rightarrow> string" where
  "upnp_body ext internal proto =
     ''<?xml version='' @ quoted ''1.0'' @ ''?>'' @
     ''<s:Envelope xmlns:s='' @ quoted ''http://schemas.xmlsoap.org/soap/envelope/'' @
     '' s:encodingStyle='' @ quoted ''http://schemas.xmlsoap.org/soap/encoding/'' @ ''>'' @
     ''<s:Body><u:AddPortMapping xmlns:u='' @ quoted ''urn:schemas-upnp-org:service:WANIPConnection:1'' @ ''>'' @
     ''<NewRemoteHost></NewRemoteHost><NewExternalPort>'' @ string_of_int ext @
     ''</NewExternalPort><NewProtocol>'' @ (if proto = ''udp'' then ''UDP'' else ''TCP'') @
     ''</NewProtocol><NewInternalPort>'' @ string_of_int internal @
     ''</NewInternalPort><NewInternalClient>127.0.0.1</NewInternalClient><NewEnabled>1</NewEnabled>'' @
     ''<NewPortMappingDescription>hostely</NewPortMappingDescription><NewLeaseDuration>0</NewLeaseDuration>'' @
     ''</u:AddPortMapping></s:Body></s:Envelope>''"

definition upnp_map :: "'w gateway \<Rightarrow> int \<Rightarrow> int \<Rightarrow> string \<Rightarrow> 'w \<Rightarrow> 'w \<times> bool" where
  "upnp_map G ext internal proto w =
     (let base = gateway_http_base G w
      in if base = [] then (w, False)
         else let (w', res) = gw_post G w base ''/control?WANIPConn1'' (upnp_body ext internal proto)
              in (w', res = Some 200))"

section \<open>Mapping a port\<close>

record map_result =
  mr_ok :: bool
  mr_method :: string
  mr_public_ip :: string
  mr_error :: string

definition public_text :: "ip4 \<Rightarrow> string" where
  "public_text ip = (if ip = no_ip then [] else ip_text ip)"

definition router_map_port :: "'w gateway \<Rightarrow> int \<Rightarrow> int \<Rightarrow> string \<Rightarrow> 'w \<Rightarrow> 'w \<times> map_result" where
  "router_map_port G ext_port int_port proto w =
     (let gw = default_gateway_v4 G w in
      if gw = no_ip
      then (w, \<lparr>mr_ok = False, mr_method = [], mr_public_ip = [], mr_error = ''no default IPv4 gateway found''\<rparr>)
      else let (w1, pcp) = pcp_map G gw ext_port int_port proto w
           in if pcp then (w1, \<lparr>mr_ok = True, mr_method = ''pcp'', mr_public_ip = [], mr_error = []\<rparr>)
              else let (w2, pmp) = natpmp_map G gw ext_port int_port proto w1
                   in case pmp of
                        Some ip \<Rightarrow> (w2, \<lparr>mr_ok = True, mr_method = ''natpmp'', mr_public_ip = public_text ip, mr_error = []\<rparr>)
                      | None \<Rightarrow>
                          let (w3, upnp) = upnp_map G ext_port int_port proto w2
                          in if upnp then (w3, \<lparr>mr_ok = True, mr_method = ''upnp'', mr_public_ip = [], mr_error = []\<rparr>)
                             else (w3, \<lparr>mr_ok = False, mr_method = [], mr_public_ip = [],
                                     mr_error = ''router refused mapping (PCP, NAT-PMP and UPnP all failed)''\<rparr>))"

definition unmap_request :: "int \<Rightarrow> string \<Rightarrow> byte list" where
  "unmap_request ext_port proto =
     [0, natpmp_op proto, 0, 0, 0, 0] @ put_u16 (word_of_int ext_port) @ replicate 4 0"

definition router_unmap_port :: "'w gateway \<Rightarrow> int \<Rightarrow> string \<Rightarrow> 'w \<Rightarrow> 'w \<times> bool" where
  "router_unmap_port G ext_port proto w =
     (let gw = default_gateway_v4 G w in
      if gw = no_ip then (w, False)
      else let (w', r) = udp_exchange G gw (unmap_request ext_port proto) 16 w in (w', r \<noteq> None))"

definition router_public_ip :: "'w gateway \<Rightarrow> 'w \<Rightarrow> 'w \<times> string" where
  "router_public_ip G w =
     (let gw = default_gateway_v4 G w in
      if gw = no_ip then (w, [])
      else let (w', r) = natpmp_public_ip G gw w in (w', case r of None \<Rightarrow> [] | Some ip \<Rightarrow> ip_text ip))"

section \<open>The watcher\<close>

definition zone_of :: "string \<Rightarrow> string \<Rightarrow> string" where
  "zone_of domain zone = (if zone \<noteq> [] then zone else two_labels domain)"

record 'w watch =
  w_world :: 'w
  w_last_ip :: string

text \<open>The loop: a cycle reads the address and sets the record when it has changed; a failed update
  is reported and remembered like one that succeeded.\<close>

fun watch_cycles ::
  "('w \<Rightarrow> 'w \<times> string) \<Rightarrow> ('w \<Rightarrow> string \<Rightarrow> 'w \<times> bool) \<Rightarrow> nat \<Rightarrow> 'w watch \<Rightarrow> 'w watch" where
  "watch_cycles read_ip set_record 0 s = s"
| "watch_cycles read_ip set_record (Suc n) s =
     (let (w1, ip) = read_ip (w_world s)
      in watch_cycles read_ip set_record n
           (if ip \<noteq> [] \<and> ip \<noteq> w_last_ip s
            then let (w2, ok) = set_record w1 ip in \<lparr>w_world = w2, w_last_ip = ip\<rparr>
            else s\<lparr>w_world := w1\<rparr>))"

definition router_watch ::
  "('j, 'm) json_build_scheme \<Rightarrow> 'w net \<Rightarrow> 'w gateway \<Rightarrow> (string \<Rightarrow> string option) \<Rightarrow> string \<Rightarrow> string \<Rightarrow> nat
     \<Rightarrow> 'w \<Rightarrow> int + 'w watch" where
  "router_watch J net G env domain zone cycles w =
     (case dns_token env of
        None \<Rightarrow> Inl 1
      | Some token \<Rightarrow>
          Inr (watch_cycles (router_public_ip G)
                 (\<lambda>w ip. set_a J net token (zone_of domain zone) domain ip w) cycles
                 \<lparr>w_world = w, w_last_ip = []\<rparr>))"

section \<open>Properties\<close>

text \<open>A reading and an update that note what they saw and sent.\<close>

definition noted_read where
  "noted_read rd = (\<lambda>(u, seen, sent). let (u', ip) = rd u in ((u', seen @ [ip], sent), ip))"

definition noted_set where
  "noted_set st = (\<lambda>(u, seen, sent) ip. let (u', ok) = st u ip in ((u', seen, sent @ [ip]), ok))"

lemma remdups_adj_snoc:
  "remdups_adj (xs @ [x]) = (if xs \<noteq> [] \<and> last xs = x then remdups_adj xs else remdups_adj xs @ [x])"
  by (induction xs rule: remdups_adj.induct) auto

definition watch_ok :: "('u \<times> string list \<times> string list) watch \<Rightarrow> bool" where
  "watch_ok s \<longleftrightarrow>
     (let (u, seen, sent) = w_world s; known = filter (\<lambda>ip. ip \<noteq> []) seen
      in sent = remdups_adj known \<and> w_last_ip s = (if known = [] then [] else last known))"

lemma watch_cycles_ok: "watch_ok s \<Longrightarrow> watch_ok (watch_cycles (noted_read rd) (noted_set st) n s)"
proof (induction n arbitrary: s)
  case (Suc n)
  obtain u seen sent where s: "w_world s = (u, seen, sent)" by (cases "w_world s")
  obtain v ip where rd: "rd u = (v, ip)" by fastforce
  obtain v' ok where st: "st v ip = (v', ok)" by fastforce
  let ?t = "if ip \<noteq> [] \<and> ip \<noteq> w_last_ip s
      then \<lparr>w_world = (v', seen @ [ip], sent @ [ip]), w_last_ip = ip\<rparr>
      else s\<lparr>w_world := (v, seen @ [ip], sent)\<rparr>"
  have "watch_cycles (noted_read rd) (noted_set st) (Suc n) s = watch_cycles (noted_read rd) (noted_set st) n ?t"
    by (simp add: s noted_read_def noted_set_def rd st)
  moreover have "watch_ok ?t"
    using Suc.prems by (auto simp: s watch_ok_def remdups_adj_snoc Let_def split: if_splits)
  ultimately show ?case using Suc.IH [of ?t] by simp
qed simp

text \<open>C26. router_watch(), over any number of cycles and whatever the gateway and the provider answer, sends
  exactly the addresses it has read with the unreadable ones left out and each run of equal ones
  sent once: no update is lost while readings fail, none is repeated. In particular an update the
  provider refused is not sent again while the address stays the same.\<close>

lemma watch_sends_changes:
  "w_world (watch_cycles (noted_read rd) (noted_set st) n \<lparr>w_world = (u, [], []), w_last_ip = []\<rparr>) =
     (u', seen, sent) \<Longrightarrow> sent = remdups_adj (filter (\<lambda>ip. ip \<noteq> []) seen)"
  using watch_cycles_ok [of "\<lparr>w_world = (u, [], []), w_last_ip = []\<rparr>" rd st n]
  by (simp add: watch_ok_def Let_def)

text \<open>Four cycles: an address, no address, the same address, another; the provider refuses all.\<close>

definition reading :: "nat \<Rightarrow> nat \<times> string" where
  "reading k = (Suc k, [''1.2.3.4'', [], ''1.2.3.4'', ''5.6.7.8''] ! k)"

lemma watch_sends_changes_witness:
  "w_world (watch_cycles (noted_read reading) (noted_set (\<lambda>k ip. (k, False))) 4
      \<lparr>w_world = (0, [], []), w_last_ip = []\<rparr>) =
     (4, [''1.2.3.4'', [], ''1.2.3.4'', ''5.6.7.8''], [''1.2.3.4'', ''5.6.7.8'']) \<and>
   [''1.2.3.4'', ''5.6.7.8''] = remdups_adj (filter (\<lambda>ip. ip \<noteq> []) [''1.2.3.4'', [], ''1.2.3.4'', ''5.6.7.8''])"
proof -
  have run: "w_world (watch_cycles (noted_read reading) (noted_set (\<lambda>k ip. (k, False))) 4
      \<lparr>w_world = (0, [], []), w_last_ip = []\<rparr>) =
     (4, [''1.2.3.4'', [], ''1.2.3.4'', ''5.6.7.8''], [''1.2.3.4'', ''5.6.7.8''])"
    by code_simp
  show ?thesis using run watch_sends_changes [OF run] by simp
qed

text \<open>A reply of RFC 6886 to a mapping request: version, opcode, result code, seconds, the two ports
  and the lifetime.\<close>

definition natpmp_reply :: "byte \<Rightarrow> u16 \<Rightarrow> u32 \<Rightarrow> u16 \<Rightarrow> u16 \<Rightarrow> u32 \<Rightarrow> byte list" where
  "natpmp_reply opc code secs internal mapped life =
     [0, opc] @ put_u16 code @ put_u32 secs @ put_u16 internal @ put_u16 mapped @ put_u32 life"

lemma natpmp_reply_at:
  "natpmp_reply opc code secs i m l ! 1 = opc"
  "natpmp_reply opc code secs i m l ! 2 = ucast (drop_bit 8 code)"
  "take 4 (drop 8 (natpmp_reply opc code secs i m l)) = put_u16 i @ put_u16 m"
  "length (natpmp_reply opc code secs i m l) = 16"
  by (simp_all add: natpmp_reply_def put_u16_def put_u32_def)

lemma high_byte_zero: "(ucast (drop_bit 8 (code :: u16)) :: byte) = 0 \<longleftrightarrow> unat code < 256"
proof -
  have "unat code < 65536"
    using unsigned_less [of code, where ?'a = nat] by simp
  then have "unat (ucast (drop_bit 8 code) :: byte) = unat code div 256"
    by (simp add: unsigned_ucast_eq unat_drop_bit_eq take_bit_eq_mod unat_div) (simp add: less_mult_imp_div_less drop_bit_eq_div unat_div)
  then show ?thesis
    by (metis div_eq_0_iff unat_0 unat_eq_zero zero_neq_numeral)
qed

text \<open>natpmp_map() tests the high byte of the 16-bit result code only: whatever mapping is asked for,
  it accepts exactly the replies whose code is below 256, so every refusal RFC 6886 defines (codes 1
  to 5) is taken for a mapping, and what is then reported as the public address is the
  internal and the mapped port.\<close>

lemma natpmp_refusal_accepted:
  assumes "gw_udp G w gw (natpmp_request ext internal proto) =
     (w', Some (natpmp_reply (natpmp_op proto + 128) code secs i m life))"
  shows "(unat code < 256 \<longleftrightarrow> natpmp_accepts (natpmp_request ext internal proto)
            (natpmp_reply (natpmp_op proto + 128) code secs i m life)) \<and>
     (unat code < 256 \<longrightarrow> natpmp_map G gw ext internal proto w = (w', Some (put_u16 i @ put_u16 m)))"
proof -
  have op: "unat (natpmp_op proto + 128) = unat (natpmp_request ext internal proto ! 1) + 128"
    by (simp add: natpmp_request_def natpmp_op_def)
  have acc: "unat code < 256 \<longleftrightarrow> natpmp_accepts (natpmp_request ext internal proto)
      (natpmp_reply (natpmp_op proto + 128) code secs i m life)"
    unfolding natpmp_accepts_def natpmp_reply_at high_byte_zero op by simp
  have four: "natpmp_attempts G gw req 4 w = natpmp_attempts G gw req (Suc 3) w" for req
    by simp
  have len: "take 16 (natpmp_reply (natpmp_op proto + 128) code secs i m life) =
      natpmp_reply (natpmp_op proto + 128) code secs i m life"
    by (simp add: natpmp_reply_at)
  have ne: "natpmp_reply (natpmp_op proto + 128) code secs i m life \<noteq> []"
    by (simp add: natpmp_reply_def)
  have "udp_exchange G gw (natpmp_request ext internal proto) 16 w =
      (w', Some (natpmp_reply (natpmp_op proto + 128) code secs i m life))"
    unfolding udp_exchange_def assms by (simp add: len ne)
  then show ?thesis
    using acc unfolding natpmp_map_def four natpmp_attempts.simps(2)
    by (simp add: natpmp_reply_at(3))
qed

text \<open>A gateway that refuses every mapping (code 2, not authorized) of port 8080 to 8080.\<close>

definition refusing_gateway :: "unit gateway" where
  "refusing_gateway =
     \<lparr>gw_route = (\<lambda>_. ''gateway: 10.0.0.1''), gw_pton = (\<lambda>_. Some [10, 0, 0, 1]),
      gw_udp = (\<lambda>w a req. (w, Some (natpmp_reply (req ! 1 + 128) 2 0 8080 8080 0))),
      gw_post = (\<lambda>w a b c. (w, None)), gw_rand = (\<lambda>_. 0)\<rparr>"

lemma natpmp_refusal_accepted_witness:
  "natpmp_map refusing_gateway [10, 0, 0, 1] 8080 8080 ''tcp'' () =
     ((), Some (put_u16 8080 @ put_u16 8080)) \<and>
   ip_text (put_u16 8080 @ put_u16 8080) = ''31.144.31.144''"
proof
  show "natpmp_map refusing_gateway [10, 0, 0, 1] 8080 8080 ''tcp'' () =
     ((), Some (put_u16 8080 @ put_u16 8080))"
    using natpmp_refusal_accepted [of refusing_gateway "()" "[10, 0, 0, 1]" 8080 8080 "''tcp''" "()" 2 0 8080 8080 0]
    by (simp add: refusing_gateway_def natpmp_request_def natpmp_op_def)
  show "ip_text (put_u16 8080 @ put_u16 8080) = ''31.144.31.144''" by code_simp
qed

end
