(* ===== verification/Routes.thy ===== *)
theory Routes
  imports Json
begin

text \<open>
  exposure/expose.hpp, expose.cpp and the bookkeeping of exposure/certs.cpp: the route table kept in
  routes.json, with its additions and removals, and the directory a certificate is stored in.

  A file is its text. What opens, what can be created and what can be renamed are arguments.
\<close>

section \<open>The route table\<close>

record route =
  rt_host :: string
  rt_target :: string
  rt_port :: int
  rt_tls :: bool

definition read_route :: "('j, 'm) json_api_scheme \<Rightarrow> 'j \<Rightarrow> route or_throw" where
  "read_route J r =
     and_then (j_value_str J r ''host'' []) (\<lambda>host.
     and_then (j_value_str J r ''target'' []) (\<lambda>target.
     and_then (j_value_int J r ''port'' 80) (\<lambda>port.
     and_then (j_value_bool J r ''tls'' True) (\<lambda>tls.
       Inr \<lparr>rt_host = host, rt_target = target, rt_port = port, rt_tls = tls\<rparr>))))"

definition route_ok :: "route \<Rightarrow> bool" where
  "route_ok r \<longleftrightarrow> rt_host r \<noteq> [] \<and> rt_target r \<noteq> []"

text \<open>The loop of routes_load(): an access that throws ends it, the routes read so far stay.\<close>

fun load_each :: "('j, 'm) json_api_scheme \<Rightarrow> 'j list \<Rightarrow> route list" where
  "load_each J [] = []"
| "load_each J (r # rs) =
     (case read_route J r of
        Inl _ \<Rightarrow> []
      | Inr route \<Rightarrow> if route_ok route then route # load_each J rs else load_each J rs)"

definition routes_load :: "('j, 'm) json_build_scheme \<Rightarrow> string option \<Rightarrow> route list" where
  "routes_load J content =
     (case content of
        None \<Rightarrow> []
      | Some s \<Rightarrow>
          (case and_then (j_parse J s) (\<lambda>j. j_value J j ''routes'' (j_of_arr J [])) of
             Inl _ \<Rightarrow> []
           | Inr arr \<Rightarrow> load_each J (j_items J arr)))"

definition route_json :: "('j, 'm) json_build_scheme \<Rightarrow> route \<Rightarrow> 'j" where
  "route_json J r =
     j_of_obj J [(''host'', j_of_str J (rt_host r)), (''target'', j_of_str J (rt_target r)),
                 (''port'', j_of_int J (rt_port r)), (''tls'', j_of_bool J (rt_tls r))]"

definition routes_json_string :: "('j, 'm) json_build_scheme \<Rightarrow> route list \<Rightarrow> string or_throw" where
  "routes_json_string J routes =
     and_then (j_pretty J (j_of_obj J [(''routes'', j_of_arr J (map (route_json J) routes))]))
       (\<lambda>s. Inr (s @ [nl]))"

text \<open>routes.json and the file beside it that is renamed over it.\<close>

record route_files =
  rf_main :: "string option"
  rf_tmp :: "string option"

record save_env =
  can_mkdir :: bool
  can_open :: bool
  can_rename :: bool

definition routes_save_atomic ::
  "('j, 'm) json_build_scheme \<Rightarrow> save_env \<Rightarrow> route list \<Rightarrow> route_files \<Rightarrow> route_files \<times> bool or_throw" where
  "routes_save_atomic J env routes fs =
     (if \<not> can_mkdir env \<or> \<not> can_open env then (fs, Inr False)
      else case routes_json_string J routes of
             Inl t \<Rightarrow> (fs\<lparr>rf_tmp := Some []\<rparr>, Inl t)
           | Inr s \<Rightarrow>
               if can_rename env then (fs\<lparr>rf_main := Some s, rf_tmp := None\<rparr>, Inr True)
               else (fs\<lparr>rf_tmp := Some s\<rparr>, Inr False))"

text \<open>The tables route_add() and route_remove() write.\<close>

definition put_route :: "route list \<Rightarrow> route \<Rightarrow> route list" where
  "put_route routes r =
     (let replaced = map (\<lambda>e. if rt_host e = rt_host r then r else e) routes
      in if \<exists>e \<in> set routes. rt_host e = rt_host r then replaced else replaced @ [r])"

definition drop_route :: "route list \<Rightarrow> string \<Rightarrow> route list" where
  "drop_route routes host = filter (\<lambda>r. rt_host r \<noteq> host) routes"

definition route_add ::
  "('j, 'm) json_build_scheme \<Rightarrow> save_env \<Rightarrow> route \<Rightarrow> route_files \<Rightarrow> route_files \<times> bool or_throw" where
  "route_add J env r fs = routes_save_atomic J env (put_route (routes_load J (rf_main fs)) r) fs"

definition route_remove ::
  "('j, 'm) json_build_scheme \<Rightarrow> save_env \<Rightarrow> string \<Rightarrow> route_files \<Rightarrow> route_files \<times> bool or_throw" where
  "route_remove J env host fs =
     (let routes = routes_load J (rf_main fs)
      in if \<not> (\<exists>r \<in> set routes. rt_host r = host) then (fs, Inr False)
         else routes_save_atomic J env (drop_route routes host) fs)"

section \<open>The table as a map\<close>

definition route_at :: "route list \<Rightarrow> string \<rightharpoonup> route" where
  "route_at routes = map_of (rev (map (\<lambda>r. (rt_host r, r)) routes))"

definition entry_ok :: "string \<Rightarrow> route \<Rightarrow> bool" where
  "entry_ok host r \<longleftrightarrow> rt_host r = host \<and> route_ok r"

lemma route_at_Nil [simp]: "route_at [] = Map.empty"
  by (simp add: route_at_def)

lemma route_at_snoc: "route_at (rs @ [r]) = (route_at rs)(rt_host r \<mapsto> r)"
  by (simp add: route_at_def)

lemma route_at_None: "route_at rs h = None \<longleftrightarrow> (\<forall>r \<in> set rs. rt_host r \<noteq> h)"
  by (auto simp: route_at_def map_of_eq_None_iff image_iff)

lemma route_at_replaced:
  "route_at (map (\<lambda>e. if rt_host e = rt_host r then r else e) rs) h =
     (if h = rt_host r \<and> (\<exists>e \<in> set rs. rt_host e = h) then Some r else route_at rs h)"
proof (induction rs rule: rev_induct)
  case (snoc a rs)
  show ?case
  proof (cases "rt_host a = rt_host r")
    case True
    then show ?thesis by (simp add: route_at_snoc snoc.IH)
  next
    case False
    then show ?thesis by (cases "h = rt_host a"; simp add: route_at_snoc snoc.IH; blast)
  qed
qed simp

lemma route_at_put: "route_at (put_route rs r) = (route_at rs)(rt_host r \<mapsto> r)"
  by (rule ext) (auto simp: put_route_def Let_def route_at_snoc route_at_replaced)

lemma route_at_drop: "route_at (drop_route rs host) = (route_at rs)(host := None)"
  unfolding drop_route_def by (induction rs rule: rev_induct) (auto simp: route_at_snoc)

interpretation routes: keyed_table route_at "\<lambda>rs h r. put_route rs r" drop_route "list_all route_ok" entry_ok
proof
  fix rs h r
  show "list_all route_ok rs \<Longrightarrow> entry_ok h r \<Longrightarrow> route_at (put_route rs r) = (route_at rs)(h \<mapsto> r)"
    by (auto simp: route_at_put entry_ok_def)
  show "list_all route_ok rs \<Longrightarrow> route_at (drop_route rs h) = (route_at rs)(h := None)"
    by (simp add: route_at_drop)
  show "list_all route_ok rs \<Longrightarrow> entry_ok h r \<Longrightarrow> list_all route_ok (put_route rs r)"
    by (auto simp: put_route_def entry_ok_def list_all_iff Let_def)
  show "list_all route_ok rs \<Longrightarrow> list_all route_ok (drop_route rs h)"
    by (auto simp: drop_route_def list_all_iff)
qed

section \<open>What is written is what is loaded\<close>

lemma load_each_ok: "list_all route_ok (load_each J js)"
  by (induction js) (simp_all split: sum.splits)

lemma routes_load_ok: "list_all route_ok (routes_load J content)"
  by (simp add: routes_load_def load_each_ok split: option.splits sum.splits)

lemma read_route_json: "json_ok J \<Longrightarrow> read_route J (route_json J r) = Inr r"
  unfolding read_route_def route_json_def by (simp add: json_okD)

lemma load_each_json: "json_ok J \<Longrightarrow> list_all route_ok rs \<Longrightarrow> load_each J (map (route_json J) rs) = rs"
  by (induction rs) (simp_all add: read_route_json)

lemma routes_load_saved:
  assumes "json_ok J" and "list_all route_ok rs" and "routes_json_string J rs = Inr s"
  shows "routes_load J (Some s) = rs"
  using assms
  by (auto simp: routes_json_string_def routes_load_def and_then_Inr json_okD load_each_json)

lemma save_outcome:
  "routes_save_atomic J env rs fs = (fs', res) \<Longrightarrow>
     (res = Inr True \<and> (\<exists>s. routes_json_string J rs = Inr s \<and> rf_main fs' = Some s)) \<or>
     (res \<noteq> Inr True \<and> rf_main fs' = rf_main fs)"
  by (auto simp: routes_save_atomic_def split: if_splits sum.splits)

lemma save_loads:
  assumes "json_ok J" "list_all route_ok rs" "routes_save_atomic J env rs fs = (fs', res)"
  shows "routes_load J (rf_main fs') = (if res = Inr True then rs else routes_load J (rf_main fs))"
  using save_outcome [OF assms(3)] routes_load_saved [OF assms(1,2)] by auto

text \<open>A run of commands: the table that is loaded after it, and the changes that were saved.\<close>

fun route_command ::
  "('j, 'm) json_build_scheme \<Rightarrow> route_files \<times> (string, route) change list \<Rightarrow> save_env \<times> (string, route) change
     \<Rightarrow> route_files \<times> (string, route) change list" where
  "route_command J (fs, saved) (env, Put h r) =
     (let (fs', res) = route_add J env r fs in (fs', if res = Inr True then saved @ [Put h r] else saved))"
| "route_command J (fs, saved) (env, Drop h) =
     (let (fs', res) = route_remove J env h fs in (fs', if res = Inr True then saved @ [Drop h] else saved))"

definition table_at :: "('j, 'm) json_build_scheme \<Rightarrow> route_files \<Rightarrow> string \<rightharpoonup> route" where
  "table_at J fs = route_at (routes_load J (rf_main fs))"

lemma route_command_step:
  assumes "json_ok J" and "routes.valid_change c" and "route_command J (fs, saved) (env, c) = (fs', saved')"
    and "table_at J fs = foldl change_map m saved"
  shows "table_at J fs' = foldl change_map m saved'"
proof (cases c)
  case (Put h r)
  obtain res where add: "route_add J env r fs = (fs', res)" and saved': "saved' = (if res = Inr True then saved @ [c] else saved)"
    using assms(3) Put by (auto split: prod.splits)
  have "list_all route_ok (put_route (routes_load J (rf_main fs)) r)"
    using routes.change_valid [OF routes_load_ok assms(2)] Put by simp
  note l = save_loads [OF assms(1) this add [unfolded route_add_def]]
  show ?thesis
    using assms(2,4) Put by (auto simp: table_at_def l saved' route_at_put entry_ok_def)
next
  case (Drop h)
  obtain res where rem: "route_remove J env h fs = (fs', res)" and saved': "saved' = (if res = Inr True then saved @ [c] else saved)"
    using assms(3) Drop by (auto split: prod.splits)
  have ok: "list_all route_ok (drop_route (routes_load J (rf_main fs)) h)"
    using routes.change_valid [OF routes_load_ok assms(2)] Drop by simp
  show ?thesis
  proof (cases "\<exists>r \<in> set (routes_load J (rf_main fs)). rt_host r = h")
    case False
    then show ?thesis using rem assms(4) by (auto simp: route_remove_def Let_def saved')
  next
    case True
    then have "routes_save_atomic J env (drop_route (routes_load J (rf_main fs)) h) fs = (fs', res)"
      using rem by (auto simp: route_remove_def Let_def split: if_splits)
    note l = save_loads [OF assms(1) ok this]
    show ?thesis using assms(4) Drop by (auto simp: table_at_def l saved' route_at_drop)
  qed
qed

definition command_ok :: "(string, route) change \<Rightarrow> bool" where
  "command_ok c = (case c of Put h r \<Rightarrow> entry_ok h r | Drop _ \<Rightarrow> True)"

lemma command_ok_valid: "command_ok c \<Longrightarrow> routes.valid_change c"
  by (cases c) (simp_all add: command_ok_def)

lemma routes_run:
  assumes "json_ok J"
  shows "list_all (\<lambda>(env, c). command_ok c) cmds \<Longrightarrow> table_at J fs = foldl change_map m saved \<Longrightarrow>
    foldl (route_command J) (fs, saved) cmds = (fs', saved') \<Longrightarrow> table_at J fs' = foldl change_map m saved'"
proof (induction cmds arbitrary: fs saved)
  case (Cons cmd cmds)
  obtain env c where cmd: "cmd = (env, c)" by fastforce
  obtain fs1 saved1 where s: "route_command J (fs, saved) (env, c) = (fs1, saved1)" by fastforce
  show ?case
    using Cons.prems Cons.IH [OF _ route_command_step [OF assms command_ok_valid s]] by (simp add: cmd s)
qed simp


text \<open>A route is added and removed; the second rename fails.\<close>

definition app_route :: route where
  "app_route = \<lparr>rt_host = ''a.b'', rt_target = ''web'', rt_port = 8080, rt_tls = True\<rparr>"


text \<open>An entry that cannot be read hides every entry behind it; the next addition saves what is left.\<close>

lemma malformed_entry_ends_table:
  "read_route J r = Inl e \<Longrightarrow> load_each J (js @ r # js') = load_each J js"
  by (induction js) (simp_all split: sum.splits)

end
