(* ===== verification/Certs.thy ===== *)
theory Certs
  imports Json
begin

text \<open>
  exposure/certs.hpp and certs.cpp: one directory per domain with the certificate, its key and a
  description. Files are a map from paths, lists of names below the certificate directory. The
  inspection of a certificate is OpenSSL's and an argument, as are the clock and which files
  can be written.
\<close>

section \<open>Files\<close>

type_synonym path = "string list"
type_synonym files = "path \<Rightarrow> string option"

text \<open>What happens to a file that is written: its directory or the file cannot be made, a part is
  written, or all of it.\<close>

datatype write_result = NoFile | Partial string | Written

definition write_file_private :: "(path \<Rightarrow> write_result) \<Rightarrow> path \<Rightarrow> string \<Rightarrow> files \<Rightarrow> files \<times> bool" where
  "write_file_private wr p data fs =
     (case wr p of
        NoFile \<Rightarrow> (fs, False)
      | Partial part \<Rightarrow> (fs(p \<mapsto> part), False)
      | Written \<Rightarrow> (fs(p \<mapsto> data), True))"

text \<open>The path of a directory name: an empty name and a dot stay where they are, two dots go up.\<close>

fun resolve :: "path \<Rightarrow> string \<Rightarrow> path" where
  "resolve root name =
     (if name = [] \<or> name = ''.'' then root
      else if name = ''..'' then butlast root
      else root @ [name])"

definition safe_name :: "string \<Rightarrow> string" where
  "safe_name domain = map (\<lambda>c. if c = CHR ''/'' \<or> c = CHR 0x5C then CHR ''_'' else c) domain"

definition domain_dir :: "path \<Rightarrow> string \<Rightarrow> path" where
  "domain_dir root domain = resolve root (safe_name domain)"

section \<open>The store\<close>

record cert_info =
  ci_domain :: string
  ci_issuer :: string
  ci_not_after :: int
  ci_not_before :: int
  ci_source :: string

definition meta_json ::
  "('j, 'm) json_build_scheme \<Rightarrow> cert_info option \<Rightarrow> int \<Rightarrow> string \<Rightarrow> string \<Rightarrow> 'j" where
  "meta_json J info now domain source =
     j_of_obj J
       ([(''domain'', j_of_str J domain), (''source'', j_of_str J source)] @
        (case info of None \<Rightarrow> []
         | Some i \<Rightarrow> [(''issuer'', j_of_str J (ci_issuer i)), (''not_after'', j_of_int J (ci_not_after i)),
                      (''not_before'', j_of_int J (ci_not_before i))]) @
        [(''issued_at'', j_of_int J now)])"

text \<open>meta.json is opened, which empties it, before the description is printed.\<close>

definition cert_store_save ::
  "('j, 'm) json_build_scheme \<Rightarrow> (string \<Rightarrow> cert_info option) \<Rightarrow> int \<Rightarrow> (path \<Rightarrow> write_result) \<Rightarrow> path
     \<Rightarrow> string \<Rightarrow> string \<Rightarrow> string \<Rightarrow> string \<Rightarrow> files \<Rightarrow> files \<times> bool or_throw" where
  "cert_store_save J inspect now wr root domain cert_pem key_pem source fs =
     (let dir = domain_dir root domain;
          (fs1, ok1) = write_file_private wr (dir @ [''cert.pem'']) cert_pem fs
      in if \<not> ok1 then (fs1, Inr False)
         else let (fs2, ok2) = (if key_pem = [] then (fs1, True)
                                else write_file_private wr (dir @ [''key.pem'']) key_pem fs1)
              in if \<not> ok2 then (fs2, Inr False)
                 else (case wr (dir @ [''meta.json'']) of
                         NoFile \<Rightarrow> (fs2, Inr False)
                       | w \<Rightarrow>
                           (case j_pretty J (meta_json J (inspect cert_pem) now domain source) of
                              Inl t \<Rightarrow> (fs2(dir @ [''meta.json''] \<mapsto> []), Inl t)
                            | Inr s \<Rightarrow> (fs2(dir @ [''meta.json''] \<mapsto> (case w of Partial part \<Rightarrow> part | _ \<Rightarrow> s @ [nl])), Inr True))))"

text \<open>The certificate and the key, each empty where its file is missing; a missing certificate is a failure.\<close>

definition cert_store_load :: "path \<Rightarrow> string \<Rightarrow> files \<Rightarrow> (string \<times> string) option" where
  "cert_store_load root domain fs =
     (let dir = domain_dir root domain
      in case fs (dir @ [''cert.pem'']) of
           None \<Rightarrow> None
         | Some cert \<Rightarrow> Some (cert, case fs (dir @ [''key.pem'']) of None \<Rightarrow> [] | Some k \<Rightarrow> k))"

definition cert_store_remove :: "path \<Rightarrow> string \<Rightarrow> files \<Rightarrow> files" where
  "cert_store_remove root domain fs = (\<lambda>q. if prefix (domain_dir root domain) q then None else fs q)"

text \<open>meta.json overrides the domain, the source and the issuer; an access that throws keeps what was read.\<close>

definition member_str :: "('j, 'm) json_api_scheme \<Rightarrow> 'j \<Rightarrow> string \<Rightarrow> string \<Rightarrow> string or_throw" where
  "member_str J j k d = (case j_get J j k of None \<Rightarrow> Inr d | Some v \<Rightarrow> get_str J v)"

definition apply_meta :: "('j, 'm) json_api_scheme \<Rightarrow> string option \<Rightarrow> cert_info \<Rightarrow> cert_info" where
  "apply_meta J meta info =
     (case meta of
        None \<Rightarrow> info
      | Some s \<Rightarrow>
          (case j_parse J s of
             Inl _ \<Rightarrow> info
           | Inr j \<Rightarrow>
               (case member_str J j ''domain'' (ci_domain info) of
                  Inl _ \<Rightarrow> info
                | Inr d \<Rightarrow>
                    let info1 = info\<lparr>ci_domain := d\<rparr>
                    in (case member_str J j ''source'' (ci_source info1) of
                          Inl _ \<Rightarrow> info1
                        | Inr s \<Rightarrow>
                            let info2 = info1\<lparr>ci_source := s\<rparr>
                            in (case member_str J j ''issuer'' (ci_issuer info2) of
                                  Inl _ \<Rightarrow> info2
                                | Inr i \<Rightarrow> info2\<lparr>ci_issuer := i\<rparr>)))))"

definition read_cert ::
  "('j, 'm) json_api_scheme \<Rightarrow> (string \<Rightarrow> cert_info option) \<Rightarrow> files \<Rightarrow> path \<Rightarrow> cert_info list" where
  "read_cert J inspect fs dir =
     (case fs (dir @ [''cert.pem'']) of
        None \<Rightarrow> []
      | Some pem \<Rightarrow> (case inspect pem of None \<Rightarrow> [] | Some info \<Rightarrow> [apply_meta J (fs (dir @ [''meta.json''])) info]))"

text \<open>The directories below the root in the order the directory is read.\<close>

definition cert_store_list ::
  "('j, 'm) json_api_scheme \<Rightarrow> (string \<Rightarrow> cert_info option) \<Rightarrow> path list \<Rightarrow> files \<Rightarrow> cert_info list" where
  "cert_store_list J inspect dirs fs = concat (map (read_cert J inspect fs) dirs)"

text \<open>C++ division: towards zero.\<close>

definition cdiv :: "int \<Rightarrow> int \<Rightarrow> int" where
  "cdiv a b = (if (a < 0) = (b < 0) then \<bar>a\<bar> div \<bar>b\<bar> else - (\<bar>a\<bar> div \<bar>b\<bar>))"

definition cert_days_remaining :: "int \<Rightarrow> cert_info \<Rightarrow> int" where
  "cert_days_remaining now c = (if ci_not_after c \<le> 0 then -1 else cdiv (ci_not_after c - now) 86400)"

section \<open>Properties\<close>

text \<open>The days shown for a certificate: they are negative exactly when it expired a day ago or
  more, and 0 both for the last day of its validity and for the first day after it, so run_certs() shows
  a certificate that has just expired as "0d" and not as "expired".\<close>

theorem days_remaining_sign:
  assumes "0 < ci_not_after c"
  shows "(cert_days_remaining now c < 0 \<longleftrightarrow> ci_not_after c + 86400 \<le> now) \<and>
     (cert_days_remaining now c = 0 \<longleftrightarrow> \<bar>ci_not_after c - now\<bar> < 86400)"
  using assms by (auto simp: cert_days_remaining_def cdiv_def abs_if pos_imp_zdiv_pos_iff
      pos_imp_zdiv_neg_iff div_eq_0_iff div_pos_pos_trivial)

lemma days_remaining_sign_witness:
  "cert_days_remaining 1000000 \<lparr>ci_domain = [], ci_issuer = [], ci_not_after = 1000000 - 86399,
      ci_not_before = 0, ci_source = []\<rparr> = 0"
  using days_remaining_sign [of "\<lparr>ci_domain = [], ci_issuer = [], ci_not_after = 1000000 - 86399,
      ci_not_before = 0, ci_source = []\<rparr>" 1000000] by simp

lemma save_paths:
  "domain_dir root d @ [''cert.pem''] \<noteq> domain_dir root d @ [''key.pem'']"
  "domain_dir root d @ [''cert.pem''] \<noteq> domain_dir root d @ [''meta.json'']"
  "domain_dir root d @ [''key.pem''] \<noteq> domain_dir root d @ [''meta.json'']"
  by simp_all

text \<open>After cert_store_save() has returned true, cert_store_load() of the domain gives the
  certificate with the key it was saved with; saved without a key, the new certificate is served with
  whatever key the directory held before.\<close>

theorem cert_store_roundtrip:
  assumes "cert_store_save J inspect now wr root domain cert_pem key_pem source fs = (fs', Inr True)"
  shows "cert_store_load root domain fs' =
     Some (cert_pem, if key_pem \<noteq> [] then key_pem
                     else case fs (domain_dir root domain @ [''key.pem'']) of None \<Rightarrow> [] | Some k \<Rightarrow> k)"
  using assms save_paths [of root domain]
  by (auto simp: cert_store_save_def cert_store_load_def write_file_private_def Let_def
      split: write_result.splits if_splits sum.splits)

lemma cert_store_roundtrip_witness:
  "\<exists>fs'. cert_store_save tree_json (\<lambda>_. None) 0 (\<lambda>_. Written) [''certs''] ''a.b'' ''new'' [] ''imported''
        [[''certs'', ''a.b'', ''key.pem''] \<mapsto> ''old''] = (fs', Inr True) \<and>
     cert_store_load [''certs''] ''a.b'' fs' = Some (''new'', ''old'')"
proof -
  let ?fs = "[[''certs'', ''a.b'', ''key.pem''] \<mapsto> ''old''] :: files"
  have dir: "domain_dir [''certs''] ''a.b'' = [''certs'', ''a.b'']" by code_simp
  obtain fs' where s: "cert_store_save tree_json (\<lambda>_. None) 0 (\<lambda>_. Written) [''certs''] ''a.b'' ''new'' []
      ''imported'' ?fs = (fs', Inr True)"
    by (auto simp: cert_store_save_def write_file_private_def tree_json_def Let_def)
  have "cert_store_load [''certs''] ''a.b'' fs' = Some (''new'', ''old'')"
    using cert_store_roundtrip [OF s] by (simp add: dir)
  with s show ?thesis by blast
qed

lemma dir_inside:
  assumes "safe_name d \<noteq> []" "safe_name d \<noteq> ''.''" "safe_name d \<noteq> ''..''"
  shows "domain_dir root d = root @ [safe_name d]"
  using assms by (simp add: domain_dir_def)

text \<open>
  cert_store_remove() of a domain deletes nothing of another domain, unless it is the domain
  "." or "..": those name the whole certificate directory and the one above it, and every
  certificate is deleted with them.
\<close>

theorem cert_remove_scope:
  assumes "safe_name d \<noteq> []" and "safe_name d' \<noteq> []" "safe_name d' \<noteq> ''.''" "safe_name d' \<noteq> ''..''"
    and "safe_name d \<noteq> safe_name d'"
  shows "cert_store_load root d' (cert_store_remove root d fs) =
     (if d = ''.'' \<or> d = ''..'' then None else cert_store_load root d' fs)"
proof (cases "d = ''.'' \<or> d = ''..''")
  case True
  then have below: "prefix (domain_dir root d) (root @ [safe_name d'] @ f)" for f
    using prefix_prefix [OF prefixeq_butlast, of root "safe_name d' # f"]
    by (auto simp: domain_dir_def safe_name_def)
  have "cert_store_remove root d fs (root @ [safe_name d', ''cert.pem'']) = None"
    using below [of "[''cert.pem'']"] by (simp only: cert_store_remove_def append_Cons append_Nil if_True)
  then show ?thesis
    using True dir_inside [OF assms(2-4), of root] by (simp add: cert_store_load_def)
next
  case False
  have "safe_name d \<noteq> ''.''" "safe_name d \<noteq> ''..''"
    using False by (auto simp: safe_name_def map_eq_Cons_conv split: if_splits)
  then show ?thesis
    using False assms(5) dir_inside [OF assms(2-4)] dir_inside [OF assms(1)]
    by (simp add: cert_store_load_def cert_store_remove_def Let_def)
qed

lemma cert_remove_scope_witness:
  "cert_store_load [''exposure'', ''certs''] ''a.b'' (cert_store_remove [''exposure'', ''certs''] ''c.d''
      [[''exposure'', ''certs'', ''a.b'', ''cert.pem''] \<mapsto> ''x'']) = Some (''x'', []) \<and>
   cert_store_load [''exposure'', ''certs''] ''a.b'' (cert_store_remove [''exposure'', ''certs''] ''..''
      [[''exposure'', ''certs'', ''a.b'', ''cert.pem''] \<mapsto> ''x'']) = None"
proof
  have n: "safe_name ''a.b'' = ''a.b''" "safe_name ''c.d'' = ''c.d''" "safe_name ''..'' = ''..''" by code_simp+
  have l: "cert_store_load [''exposure'', ''certs''] ''a.b''
      [[''exposure'', ''certs'', ''a.b'', ''cert.pem''] \<mapsto> ''x''] = Some (''x'', [])"
    by (simp add: cert_store_load_def domain_dir_def n)
  show "cert_store_load [''exposure'', ''certs''] ''a.b'' (cert_store_remove [''exposure'', ''certs''] ''c.d''
      [[''exposure'', ''certs'', ''a.b'', ''cert.pem''] \<mapsto> ''x'']) = Some (''x'', [])"
    using cert_remove_scope [of "''c.d''" "''a.b''" "[''exposure'', ''certs'']"] l by (simp add: n)
  show "cert_store_load [''exposure'', ''certs''] ''a.b'' (cert_store_remove [''exposure'', ''certs''] ''..''
      [[''exposure'', ''certs'', ''a.b'', ''cert.pem''] \<mapsto> ''x'']) = None"
    using cert_remove_scope [of "''..''" "''a.b''" "[''exposure'', ''certs'']"] by (simp add: n)
qed

end
