(* ===== verification/Proxy.thy ===== *)
theory Proxy
  imports Routes Certs
begin

text \<open>
  proxy/proxy.cpp: the tables the proxy reloads, the request it reads from a plain or a TLS
  connection, the request it sends upstream and the response it writes.

  A plain connection is the text the client sends, a TLS connection the pieces SSL_read() gives.
  The upstream server, the reason phrases and the files are arguments. An exception that leaves a
  connection's detached thread ends the process.
\<close>

section \<open>The tables\<close>

type_synonym route_table = "string \<rightharpoonup> string \<times> int"

record container_net =
  cn_name :: string
  cn_ip :: string
  cn_published :: "int \<rightharpoonup> int"

type_synonym net_table = "string \<rightharpoonup> container_net"

definition rebuild_routes :: "route list \<Rightarrow> route_table" where
  "rebuild_routes rs = foldl (\<lambda>m r. m(lc (rt_host r) \<mapsto> (rt_target r, rt_port r))) Map.empty rs"

definition lookup_route :: "route_table \<Rightarrow> string \<Rightarrow> (string \<times> int) option" where
  "lookup_route m host = m host"

text \<open>operator[] on a constant value: it throws on what is no object; a missing key, which is
  undefined there, counts as throwing too.\<close>

definition const_at :: "('j, 'm) json_api_scheme \<Rightarrow> 'j \<Rightarrow> string \<Rightarrow> 'j or_throw" where
  "const_at J j k = (case j_get J j k of None \<Rightarrow> Inl ''no such key'' | Some v \<Rightarrow> Inr v)"

text \<open>The first address of a running container. The status is taken as text and then as an object.\<close>

definition first_address :: "('j, 'm) json_build_scheme \<Rightarrow> 'j \<Rightarrow> string or_throw" where
  "first_address J c =
     and_then (const_at J c ''status'') (\<lambda>st.
     and_then (j_value J st ''networks'' (j_of_arr J [])) (\<lambda>networks.
       case j_items J networks of
         [] \<Rightarrow> Inr []
       | n # _ \<Rightarrow> if j_is_array J networks then j_value_str J n ''ipv4Address'' [] else Inl ''no array''))"

text \<open>The ports with a number on either side; the others are left out. The parameter is items().\<close>

fun published_ports ::
  "('j, 'm) json_api_scheme \<Rightarrow> (string \<times> 'j) list \<Rightarrow> (int \<rightharpoonup> int) \<Rightarrow> (int \<rightharpoonup> int)" where
  "published_ports J [] m = m"
| "published_ports J ((k, v) # kvs) m =
     published_ports J kvs
       (case (stoi k, stoi (if j_is_string J v then j_text J v else j_dump J v)) of
          (Some p, Some h) \<Rightarrow> m(p \<mapsto> h) | _ \<Rightarrow> m)"

definition container_entry ::
  "('j, 'm) json_build_scheme \<Rightarrow> ('j \<Rightarrow> (string \<times> 'j) list) \<Rightarrow> 'j \<Rightarrow> container_net option or_throw" where
  "container_entry J entries c =
     and_then (const_at J c ''configuration'') (\<lambda>cfg.
     and_then (j_value_str J cfg ''id'' []) (\<lambda>name.
     and_then (j_value_str J c ''status'' []) (\<lambda>status.
       if status \<noteq> ''running'' then Inr None
       else and_then (first_address J c) (\<lambda>ip.
            and_then (j_value J cfg ''ports'' (j_of_obj J [])) (\<lambda>ports.
              Inr (if name = [] then None
                   else Some \<lparr>cn_name = name, cn_ip = ip,
                     cn_published = published_ports J (entries ports) Map.empty\<rparr>))))))"

fun container_nets ::
  "('j, 'm) json_build_scheme \<Rightarrow> ('j \<Rightarrow> (string \<times> 'j) list) \<Rightarrow> 'j list \<Rightarrow> net_table \<Rightarrow> net_table or_throw" where
  "container_nets J entries [] m = Inr m"
| "container_nets J entries (c # cs) m =
     and_then (container_entry J entries c) (\<lambda>e.
       container_nets J entries cs (case e of None \<Rightarrow> m | Some n \<Rightarrow> m(cn_name n \<mapsto> n)))"

text \<open>An access that throws leaves the table as it was.\<close>

definition refresh_container_nets ::
  "('j, 'm) json_build_scheme \<Rightarrow> ('j \<Rightarrow> (string \<times> 'j) list) \<Rightarrow> string option \<Rightarrow> net_table \<Rightarrow> net_table" where
  "refresh_container_nets J entries out m =
     (case out of
        None \<Rightarrow> m
      | Some buf \<Rightarrow>
          (case and_then (j_parse J buf) (\<lambda>j. container_nets J entries (j_items J j) Map.empty) of
             Inl _ \<Rightarrow> m | Inr next \<Rightarrow> next))"

definition container_target :: "net_table \<Rightarrow> string \<Rightarrow> string option" where
  "container_target m name =
     (case m name of None \<Rightarrow> None | Some n \<Rightarrow> if cn_ip n \<noteq> [] then Some (cn_ip n) else None)"

record proxy_tables =
  px_routes :: route_table
  px_nets :: net_table

text \<open>One reload: routes.json and the output of "container ls" as they are then.\<close>

definition reload ::
  "('j, 'm) json_build_scheme \<Rightarrow> ('j \<Rightarrow> (string \<times> 'j) list) \<Rightarrow> proxy_tables \<Rightarrow> string option \<times> string option
     \<Rightarrow> proxy_tables" where
  "reload J entries t e =
     \<lparr>px_routes = rebuild_routes (routes_load J (fst e)),
      px_nets = refresh_container_nets J entries (snd e) (px_nets t)\<rparr>"

definition no_tables :: proxy_tables where
  "no_tables = \<lparr>px_routes = Map.empty, px_nets = Map.empty\<rparr>"

section \<open>Requests\<close>

type_synonym headers = "(string \<times> string) list"

record proxy_request =
  rq_method :: string
  rq_path :: string
  rq_headers :: headers
  rq_body :: string

record proxy_response =
  rs_status :: int
  rs_headers :: headers
  rs_body :: string

text \<open>Header names are compared without case; the first value counts.\<close>

fun header_value :: "headers \<Rightarrow> string \<Rightarrow> string" where
  "header_value [] name = []"
| "header_value ((k, v) # hs) name = (if lc k = lc name then v else header_value hs name)"

text \<open>std::stoull(): a sign is taken modulo 2^64; it throws without digits or out of range.\<close>

definition stoull :: "string \<Rightarrow> nat option" where
  "stoull s =
     (case int_prefix s of
        None \<Rightarrow> None
      | Some v \<Rightarrow> if \<bar>v\<bar> < 2 ^ 64 then Some (nat (v mod 2 ^ 64)) else None)"

definition split_line :: "string \<Rightarrow> (string \<times> string) option" where
  "split_line line =
     (case find_char (CHR '':'') line of
        None \<Rightarrow> None
      | Some i \<Rightarrow> Some (take i line, dropWhile (\<lambda>c. c = CHR '' '') (drop (i + 1) line)))"

definition host_of :: "string \<Rightarrow> string" where
  "host_of v = (case rfind_char (CHR '':'') v of None \<Rightarrow> v | Some p \<Rightarrow> take p v)"

text \<open>What a header line adds: the name of the host header is compared as it is written.\<close>

definition take_line :: "string \<Rightarrow> headers \<times> string \<Rightarrow> headers \<times> string" where
  "take_line line acc =
     (case split_line line of
        None \<Rightarrow> acc
      | Some (k, v) \<Rightarrow> (fst acc @ [(k, v)], if k = ''Host'' then host_of v else snd acc))"

definition two_words :: "string \<Rightarrow> string \<times> string" where
  "two_words line =
     (case words_of line of [] \<Rightarrow> ([], []) | [m] \<Rightarrow> (m, []) | m # p # _ \<Rightarrow> (m, p))"

definition read_line :: "string \<Rightarrow> string \<times> string \<times> bool" where
  "read_line s =
     (let l = takeWhile (\<lambda>c. c \<noteq> nl) s; rest = dropWhile (\<lambda>c. c \<noteq> nl) s; line = filter (\<lambda>c. c \<noteq> cr) l
      in (line, tl rest, line \<noteq> [] \<or> rest \<noteq> []))"

lemma read_line_shorter:
  assumes "read_line s = (line, rest, ok)" "line \<noteq> []"
  shows "length rest < length s"
proof -
  have "takeWhile (\<lambda>c. c \<noteq> nl) s \<noteq> []"
    using assms by (auto simp: read_line_def Let_def)
  then have "length (dropWhile (\<lambda>c. c \<noteq> nl) s) < length s"
    by (metis length_append length_greater_0_conv less_add_same_cancel2 takeWhile_dropWhile_id)
  moreover have "rest = tl (dropWhile (\<lambda>c. c \<noteq> nl) s)"
    using assms(1) by (simp add: read_line_def Let_def)
  ultimately show ?thesis by simp
qed

function read_headers :: "string \<Rightarrow> headers \<times> string \<Rightarrow> (headers \<times> string) \<times> string" where
  "read_headers s acc =
     (case read_line s of
        (line, rest, ok) \<Rightarrow> if \<not> ok \<or> line = [] then (acc, rest) else read_headers rest (take_line line acc))"
  by pat_completeness auto
termination
  by (relation "measure (\<lambda>(s, acc). length s)") (auto dest: read_line_shorter [OF sym])

definition max_body :: nat where
  "max_body = 64 * 1024 * 1024"

text \<open>
  The body of a plain request: what stands behind the head, cut to the length announced and filled
  with zeros up to it; nothing from 64 MiB on.
\<close>

definition plain_body :: "nat \<Rightarrow> string \<Rightarrow> string" where
  "plain_body clen rest =
     (if 0 < clen \<and> clen < max_body
      then take clen rest @ replicate (clen - length rest) (char_of (0 :: nat))
      else [])"

text \<open>A request with its host in lower case. No first line: the connection is closed.\<close>

definition parse_plain :: "string \<Rightarrow> ub + (proxy_request \<times> string) option" where
  "parse_plain input =
     (case read_line input of
        (line, rest, ok) \<Rightarrow>
          if \<not> ok then Inr None
          else (case read_headers rest ([], []) of
                  ((hs, host), rest') \<Rightarrow>
                    let (m, p) = two_words line; v = header_value hs ''Content-Length''
                    in case (if v = [] then Some 0 else stoull v) of
                         None \<Rightarrow> Inl Terminates
                       | Some clen \<Rightarrow>
                           Inr (Some (\<lparr>rq_method = m, rq_path = p, rq_headers = hs,
                             rq_body = plain_body clen rest'\<rparr>, lc host))))"

section \<open>Upstream\<close>

text \<open>What is asked of the upstream server: the address, and the request with its headers. The answer
  is a response, or none.\<close>

type_synonym upstream = "string \<Rightarrow> int \<Rightarrow> proxy_request \<Rightarrow> proxy_response option"

definition forwarded :: "headers \<Rightarrow> headers" where
  "forwarded hs =
     filter (\<lambda>(k, v). lc k \<notin> set [''host'', ''connection'', ''upgrade'', ''transfer-encoding'', ''content-length'']) hs @
     [(''X-Forwarded-For'', ''0.0.0.0''), (''X-Forwarded-Proto'', ''https''),
      (''X-Forwarded-Host'', header_value hs ''Host'')]"

definition text_response :: "int \<Rightarrow> string \<Rightarrow> proxy_response" where
  "text_response status body =
     \<lparr>rs_status = status, rs_headers = [(''Content-Type'', ''text/plain'')], rs_body = body\<rparr>"

definition has_body :: "string \<Rightarrow> bool" where
  "has_body m \<longleftrightarrow> m \<in> set [''POST'', ''PUT'', ''PATCH'', ''DELETE'']"

definition upstream_request :: "proxy_request \<Rightarrow> proxy_request" where
  "upstream_request req =
     \<lparr>rq_method = rq_method req, rq_path = rq_path req, rq_headers = forwarded (rq_headers req),
      rq_body = (if has_body (rq_method req) then rq_body req else [])\<rparr>"

definition proxy_upstream :: "upstream \<Rightarrow> string \<Rightarrow> int \<Rightarrow> proxy_request \<Rightarrow> proxy_response" where
  "proxy_upstream U target_host target_port req =
     (if \<not> has_body (rq_method req) \<and> rq_method req \<notin> set [''GET'', ''HEAD'', ''OPTIONS'']
      then \<lparr>rs_status = 405, rs_headers = [], rs_body = []\<rparr>
      else case U target_host target_port (upstream_request req) of
             None \<Rightarrow> text_response 502 ''hostely proxy: upstream unreachable''
           | Some r \<Rightarrow>
               \<lparr>rs_status = rs_status r,
                rs_headers = filter (\<lambda>(k, v). lc k \<notin> set [''transfer-encoding'', ''connection'']) (rs_headers r),
                rs_body = rs_body r\<rparr>)"

section \<open>Connections\<close>

definition route_request :: "upstream \<Rightarrow> proxy_tables \<Rightarrow> proxy_request \<Rightarrow> string \<Rightarrow> proxy_response" where
  "route_request U t req host =
     (case (if host = [] then None else lookup_route (px_routes t) host) of
        None \<Rightarrow> text_response 404 (''hostely proxy: no route for host '' @ [squote] @ host @ [squote])
      | Some (target, port) \<Rightarrow>
          (case container_target (px_nets t) target of
             Some thost \<Rightarrow> proxy_upstream U thost port req
           | None \<Rightarrow> text_response 502 (''hostely proxy: container '' @ [squote] @ target @ [squote] @ '' not running'')))"

text \<open>The headers that are written: those of the response and two of the proxy's own.\<close>

definition written_headers :: "proxy_response \<Rightarrow> headers" where
  "written_headers r =
     rs_headers r @ [(''Content-Length'', digits_of (length (rs_body r))), (''Connection'', ''close'')]"

definition crlf :: string where
  "crlf = [cr, nl]"

definition response_text :: "(int \<Rightarrow> string) \<Rightarrow> proxy_response \<Rightarrow> string" where
  "response_text reason r =
     ''HTTP/1.1 '' @ string_of_int (rs_status r) @ '' '' @ reason (rs_status r) @ crlf @
     concat (map (\<lambda>(k, v). k @ '': '' @ v @ crlf) (written_headers r)) @ crlf @ rs_body r"

definition serve_plain :: "upstream \<Rightarrow> (int \<Rightarrow> string) \<Rightarrow> proxy_tables \<Rightarrow> string \<Rightarrow> ub + string option" where
  "serve_plain U reason t input =
     (case parse_plain input of
        Inl u \<Rightarrow> Inl u
      | Inr None \<Rightarrow> Inr None
      | Inr (Some (req, host)) \<Rightarrow> Inr (Some (response_text reason (route_request U t req host))))"

definition head_end :: string where
  "head_end = crlf @ crlf"

text \<open>Reading until the head is complete or more than 128 KiB have come; the pieces left over.\<close>

fun read_tls_head :: "string \<Rightarrow> string list \<Rightarrow> (string \<times> string list) option" where
  "read_tls_head buf chunks =
     (if contains_str head_end buf then Some (buf, chunks)
      else case chunks of
             [] \<Rightarrow> None
           | c # cs \<Rightarrow> if 128 * 1024 < length (buf @ c) then Some (buf @ c, cs) else read_tls_head (buf @ c) cs)"

text \<open>Head and body. Without an end of the head, the position wraps around and the body begins at the
  fourth character.\<close>

definition split_head :: "string \<Rightarrow> string \<times> string" where
  "split_head buf =
     (case find_str head_end buf of None \<Rightarrow> (buf, drop 3 buf) | Some i \<Rightarrow> (take i buf, drop (i + 4) buf))"

text \<open>What the stream holds behind two words, when there are two.\<close>

definition behind_word :: "string \<Rightarrow> string option" where
  "behind_word s =
     (let t = dropWhile is_space s in if t = [] then None else Some (dropWhile (\<lambda>c. \<not> is_space c) t))"

definition behind_two_words :: "string \<Rightarrow> string option" where
  "behind_two_words s = (case behind_word s of None \<Rightarrow> None | Some t \<Rightarrow> behind_word t)"

definition strip_cr :: "string \<Rightarrow> string" where
  "strip_cr l = (if l \<noteq> [] \<and> last l = cr then butlast l else l)"

definition head_lines :: "string \<Rightarrow> string list" where
  "head_lines head =
     (case behind_two_words head of
        None \<Rightarrow> [] | Some s \<Rightarrow> filter (\<lambda>l. l \<noteq> []) (map strip_cr (lines_of s)))"

fun read_rest :: "nat \<Rightarrow> string \<Rightarrow> string list \<Rightarrow> string" where
  "read_rest clen body [] = body"
| "read_rest clen body (c # cs) =
     (if length body < clen \<and> length body < max_body then read_rest clen (body @ c) cs else body)"

definition parse_tls :: "string list \<Rightarrow> ub + (proxy_request \<times> string) option" where
  "parse_tls chunks =
     (case read_tls_head [] chunks of
        None \<Rightarrow> Inr None
      | Some (buf, cs) \<Rightarrow>
          let (head, body) = split_head buf;
              (m, p) = two_words head;
              (hs, host) = foldl (\<lambda>acc l. take_line l acc) ([], []) (head_lines head);
              v = header_value hs ''Content-Length''
          in if v = []
             then Inr (Some (\<lparr>rq_method = m, rq_path = p, rq_headers = hs, rq_body = []\<rparr>, lc host))
             else (case stoull v of
                     None \<Rightarrow> Inl Terminates
                   | Some clen \<Rightarrow>
                       Inr (Some (\<lparr>rq_method = m, rq_path = p, rq_headers = hs,
                         rq_body = take clen (read_rest clen body cs)\<rparr>, lc host))))"

definition serve_tls :: "upstream \<Rightarrow> (int \<Rightarrow> string) \<Rightarrow> proxy_tables \<Rightarrow> string list \<Rightarrow> ub + string option" where
  "serve_tls U reason t chunks =
     (case parse_tls chunks of
        Inl u \<Rightarrow> Inl u
      | Inr None \<Rightarrow> Inr None
      | Inr (Some (req, host)) \<Rightarrow> Inr (Some (response_text reason (route_request U t req host))))"

section \<open>Certificates by name\<close>

text \<open>sni_callback(): a context is the certificate and the key it was made of.\<close>

datatype sni_result = NoAck | Alert | Ok "string \<times> string"

definition sni_callback ::
  "path \<Rightarrow> files \<Rightarrow> string option \<Rightarrow> (string \<rightharpoonup> string \<times> string) \<Rightarrow> (string \<rightharpoonup> string \<times> string) \<times> sni_result" where
  "sni_callback root fs name cache =
     (case name of
        None \<Rightarrow> (cache, NoAck)
      | Some n \<Rightarrow>
          let host = lc n
          in case cert_store_load root host fs of
               None \<Rightarrow> (cache, Alert)
             | Some (cert, key) \<Rightarrow>
                 if key = [] then (cache, Alert)
                 else (case cache host of
                         Some ctx \<Rightarrow> (cache, Ok ctx)
                       | None \<Rightarrow> (cache(host \<mapsto> (cert, key)), Ok (cert, key))))"

section \<open>What the proxy can reach\<close>

text \<open>
  The documented behaviour of nlohmann::json the reload meets: value() gives a text that is not the
  default only for a member that is a text, and throws on a value that is a text.
\<close>

definition value_laws :: "('j, 'm) json_api_scheme \<Rightarrow> bool" where
  "value_laws J \<longleftrightarrow>
     (\<forall>j k s d. j_value_str J j k d = Inr s \<longrightarrow> s \<noteq> d \<longrightarrow> (\<exists>v. j_get J j k = Some v \<and> j_is_string J v)) \<and>
     (\<forall>v k d. j_is_string J v \<longrightarrow> (\<exists>e. j_value J v k d = Inl e))"

lemma tree_value_laws: "value_laws tree_json"
  unfolding value_laws_def tree_json_def
  by (auto split: tree.splits option.splits elim: tree_str.elims)

lemma no_running_container:
  assumes "value_laws J" and "container_entry J entries c = Inr e"
  shows "e = None"
proof (rule ccontr)
  assume "e \<noteq> None"
  then obtain ip where run: "j_value_str J c ''status'' [] = Inr ''running''" and ip: "first_address J c = Inr ip"
    using assms(2) by (auto simp: container_entry_def and_then_Inr split: if_splits)
  obtain v where v: "j_get J c ''status'' = Some v" "j_is_string J v"
    using assms(1) run unfolding value_laws_def by fastforce
  obtain e where "j_value J v ''networks'' (j_of_arr J []) = Inl e"
    using assms(1) v(2) unfolding value_laws_def by blast
  with ip v show False by (simp add: first_address_def const_at_def)
qed

lemma container_nets_empty:
  "value_laws J \<Longrightarrow> container_nets J entries cs m = Inr m' \<Longrightarrow> m' = m"
  by (induction cs) (auto simp: and_then_Inr dest: no_running_container)

lemma refresh_empty: "value_laws J \<Longrightarrow> refresh_container_nets J entries out Map.empty = Map.empty"
  by (auto simp: refresh_container_nets_def and_then_Inr dest: container_nets_empty split: option.splits sum.splits)

interpretation proxy_reload: machine "reload J entries" "\<lambda>t. value_laws J \<longrightarrow> px_nets t = Map.empty"
  for J :: "('j, 'm) json_build_scheme" and entries
  by unfold_locales (auto simp: reload_def refresh_empty)

lemma nets_stay_empty: "value_laws J \<Longrightarrow> px_nets (foldl (reload J entries) no_tables es) = Map.empty"
  using proxy_reload.run_inv [of J no_tables entries es] by (simp add: no_tables_def)

lemma route_request_unreached:
  assumes "px_nets t = Map.empty"
  shows "rs_status (route_request U t req host) = (if host = [] \<or> px_routes t host = None then 404 else 502)"
  using assms by (simp add: route_request_def lookup_route_def container_target_def text_response_def split: option.splits)

definition answers :: "(int \<Rightarrow> string) \<Rightarrow> proxy_tables \<Rightarrow> (ub + (proxy_request \<times> string) option) \<Rightarrow> ub + string option \<Rightarrow> bool" where
  "answers reason t parsed result \<longleftrightarrow>
     (case parsed of
        Inl u \<Rightarrow> result = Inl u
      | Inr None \<Rightarrow> result = Inr None
      | Inr (Some (req, host)) \<Rightarrow>
          \<exists>r. result = Inr (Some (response_text reason r)) \<and>
              rs_status r = (if host = [] \<or> px_routes t host = None then 404 else 502))"

text \<open>
  The proxy never reaches a container: refresh_container_nets() reads the status of a container
  first as a text and then, when the text is "running", as an object, which throws, so no reload
  ever records an address. Whatever the reloads have read and whatever the upstream servers would
  answer, every request that is answered, plain or TLS, is answered 404 or, where its host has a route, 502.
\<close>

theorem proxy_reaches_no_container:
  assumes "value_laws J" and "t = foldl (reload J entries) no_tables es"
  shows "answers reason t (parse_plain input) (serve_plain U reason t input) \<and>
     answers reason t (parse_tls chunks) (serve_tls U reason t chunks)"
proof -
  have "px_nets t = Map.empty" unfolding assms(2) by (rule nets_stay_empty [OF assms(1)])
  note unreached = route_request_unreached [OF this]
  show ?thesis
    by (auto simp: answers_def serve_plain_def serve_tls_def unreached split: sum.splits option.splits)
qed

text \<open>One container that runs and has an address, a route to it, and a request for its host.\<close>

definition web_container :: tree where
  "web_container = TObj [(''configuration'', TObj [(''id'', TStr ''web'')]), (''status'', TStr ''running''),
     (''networks'', TArr [TObj [(''ipv4Address'', TStr ''10.0.0.2'')]])]"

definition web_route :: tree where
  "web_route = TObj [(''routes'', TArr [TObj [(''host'', TStr ''a.b''), (''target'', TStr ''web'')]])]"

definition web_reload :: "string option \<times> string option" where
  "web_reload = (Some (j_dump tree_json web_route), Some (j_dump tree_json (TArr [web_container])))"

definition web_request :: string where
  "web_request = ''GET / HTTP/1.1'' @ crlf @ ''Host: A.b:80'' @ crlf @ crlf"

lemma proxy_reaches_no_container_witness:
  "\<exists>r. serve_plain (\<lambda>_ _ _. Some (text_response 200 ''hello'')) (\<lambda>_. [])
         (foldl (reload tree_json (\<lambda>_. [])) no_tables [web_reload]) web_request =
       Inr (Some (response_text (\<lambda>_. []) r)) \<and> rs_status r = 502"
proof -
  let ?t = "foldl (reload tree_json (\<lambda>_. [])) no_tables [web_reload]"
  have p: "parse_plain web_request = Inr (Some (\<lparr>rq_method = ''GET'', rq_path = ''/'',
      rq_headers = [(''Host'', ''A.b:80'')], rq_body = []\<rparr>, ''a.b''))"
    by code_simp
  have "routes_load tree_json (fst web_reload) =
      [\<lparr>rt_host = ''a.b'', rt_target = ''web'', rt_port = 80, rt_tls = True\<rparr>]"
    by (simp add: web_reload_def routes_load_def tree_parse_dump web_route_def)
      (simp add: tree_json_def read_route_def route_ok_def)
  moreover have "lc ''a.b'' = ''a.b''" by code_simp
  ultimately have routed: "px_routes ?t ''a.b'' \<noteq> None"
    by (simp add: reload_def rebuild_routes_def)
  have "answers (\<lambda>_. []) ?t (parse_plain web_request)
      (serve_plain (\<lambda>_ _ _. Some (text_response 200 ''hello'')) (\<lambda>_. []) ?t web_request)"
    using proxy_reaches_no_container [OF tree_value_laws refl] by blast
  then show ?thesis
    unfolding answers_def p using routed by auto
qed

text \<open>
  A request whose Content-Length is no number, or one that does not fit 64 bits, ends the proxy: stoull()
  throws in a detached thread, over plain connections and over TLS.
\<close>

theorem bad_length_ends_proxy:
  assumes "header_value hs ''Content-Length'' \<noteq> []" and "stoull (header_value hs ''Content-Length'') = None"
  shows "(read_line input = (line, rest, True) \<and> read_headers rest ([], []) = ((hs, host), rest') \<longrightarrow>
       serve_plain U reason t input = Inl Terminates) \<and>
     (read_tls_head [] chunks = Some (buf, cs) \<and>
       fst (foldl (\<lambda>acc l. take_line l acc) ([], []) (head_lines (fst (split_head buf)))) = hs \<longrightarrow>
       serve_tls U reason t chunks = Inl Terminates)"
proof (intro conjI impI; (elim conjE)?)
  assume r: "read_line input = (line, rest, True)" "read_headers rest ([], []) = ((hs, host), rest')"
  show "serve_plain U reason t input = Inl Terminates"
    unfolding serve_plain_def parse_plain_def r prod.case using assms by (simp add: case_prod_beta Let_def r del: read_headers.simps)
next
  assume h: "read_tls_head [] chunks = Some (buf, cs)"
    "fst (foldl (\<lambda>acc l. take_line l acc) ([], []) (head_lines (fst (split_head buf)))) = hs"
  show "serve_tls U reason t chunks = Inl Terminates"
    using assms h(2) unfolding serve_tls_def parse_tls_def h(1) by (simp add: case_prod_beta Let_def)
qed

lemma bad_length_ends_proxy_witness:
  "serve_plain (\<lambda>_ _ _. None) (\<lambda>_. []) no_tables
     (''GET / HTTP/1.1'' @ crlf @ ''content-length: x'' @ crlf @ crlf) = Inl Terminates"
proof -
  have l: "read_line (''GET / HTTP/1.1'' @ crlf @ ''content-length: x'' @ crlf @ crlf) =
      (''GET / HTTP/1.1'', ''content-length: x'' @ crlf @ crlf, True)"
    "read_headers (''content-length: x'' @ crlf @ crlf) ([], []) = (([(''content-length'', ''x'')], []), [])"
    by code_simp+
  have v: "header_value [(''content-length'', ''x'')] ''Content-Length'' \<noteq> []"
    "stoull (header_value [(''content-length'', ''x'')] ''Content-Length'') = None"
    by code_simp+
  show ?thesis using bad_length_ends_proxy [OF v] l by blast
qed

text \<open>A response the proxy passes on carries the Content-Length of the upstream server and one of its own,
  which differ when the body it holds is not as long as announced, as for every HEAD request.\<close>

theorem two_content_lengths:
  assumes "has_body (rq_method req) \<or> rq_method req \<in> {''GET'', ''HEAD'', ''OPTIONS''}"
    and "U thost port (upstream_request req) = Some r" and "(''Content-Length'', n) \<in> set (rs_headers r)"
  shows "\<exists>hs. written_headers (proxy_upstream U thost port req) =
      hs @ [(''Content-Length'', digits_of (length (rs_body r))), (''Connection'', ''close'')] \<and>
     (''Content-Length'', n) \<in> set hs"
proof -
  have "lc ''Content-Length'' = ''content-length''" by code_simp
  then show ?thesis
    using assms by (auto simp: written_headers_def proxy_upstream_def)
qed

lemma two_content_lengths_witness:
  "map snd (filter (\<lambda>h. fst h = ''Content-Length'') (written_headers (proxy_upstream
       (\<lambda>_ _ _. Some \<lparr>rs_status = 200, rs_headers = [(''Content-Length'', ''5'')], rs_body = []\<rparr>) ''h'' 80
       \<lparr>rq_method = ''HEAD'', rq_path = ''/'', rq_headers = [], rq_body = []\<rparr>))) = [''5'', ''0''] \<and>
   (\<exists>hs. written_headers (proxy_upstream
       (\<lambda>_ _ _. Some \<lparr>rs_status = 200, rs_headers = [(''Content-Length'', ''5'')], rs_body = []\<rparr>) ''h'' 80
       \<lparr>rq_method = ''HEAD'', rq_path = ''/'', rq_headers = [], rq_body = []\<rparr>) =
      hs @ [(''Content-Length'', digits_of 0), (''Connection'', ''close'')] \<and>
     (''Content-Length'', ''5'') \<in> set hs)"
proof
  show "map snd (filter (\<lambda>h. fst h = ''Content-Length'') (written_headers (proxy_upstream
       (\<lambda>_ _ _. Some \<lparr>rs_status = 200, rs_headers = [(''Content-Length'', ''5'')], rs_body = []\<rparr>) ''h'' 80
       \<lparr>rq_method = ''HEAD'', rq_path = ''/'', rq_headers = [], rq_body = []\<rparr>))) = [''5'', ''0'']"
    by code_simp
qed (use two_content_lengths [of "\<lparr>rq_method = ''HEAD'', rq_path = ''/'', rq_headers = [], rq_body = []\<rparr>"
      "\<lambda>_ _ _. Some \<lparr>rs_status = 200, rs_headers = [(''Content-Length'', ''5'')], rs_body = []\<rparr>" "''h''" 80
      "\<lparr>rs_status = 200, rs_headers = [(''Content-Length'', ''5'')], rs_body = []\<rparr>" "''5''"] in simp)

text \<open>The results of a run of handshakes, each with the files and the name it meets.\<close>

fun handshakes :: "path \<Rightarrow> (files \<times> string) list \<Rightarrow> (string \<rightharpoonup> string \<times> string) \<Rightarrow> sni_result list" where
  "handshakes root [] cache = []"
| "handshakes root ((fs, n) # es) cache =
     (let (cache', r) = sni_callback root fs (Some n) cache in r # handshakes root es cache')"

lemma sni_cached:
  assumes "sni_callback root fs (Some n) cache = (cache', r)"
  shows "cache h = Some ctx \<Longrightarrow> cache' h = Some ctx"
    and "r = Ok b \<Longrightarrow> cache' (lc n) = Some b"
    and "cache (lc n) = Some ctx \<Longrightarrow> r = Ok b \<Longrightarrow> b = ctx"
  using assms by (auto simp: sni_callback_def Let_def split: option.splits if_splits prod.splits)

lemma handshakes_cached:
  "cache (lc n) = Some ctx \<Longrightarrow> j < length es \<Longrightarrow> lc (snd (es ! j)) = lc n \<Longrightarrow>
     handshakes root es cache ! j = Ok b \<Longrightarrow> b = ctx"
proof (induction es arbitrary: cache j)
  case (Cons e es)
  obtain fs m where e: "e = (fs, m)" by fastforce
  obtain c' r where s: "sni_callback root fs (Some m) cache = (c', r)" by fastforce
  show ?case
  proof (cases j)
    case 0
    then show ?thesis using Cons.prems sni_cached(3) [OF s, of ctx b] by (simp add: e s)
  next
    case (Suc k)
    then show ?thesis
      using Cons.prems Cons.IH [of c' k] sni_cached(1) [OF s Cons.prems(1)] by (simp add: e s)
  qed
qed simp

text \<open>
  The proxy serves a name with the certificate of the first handshake for it as long as it runs:
  over any sequence of handshakes with the certificate store changing in between, two that succeed
  for one name, written in any case, present the same certificate and key, so a renewed one is not used.
\<close>

theorem first_certificate_stays:
  assumes "i < j" and "j < length es" and "lc (snd (es ! i)) = lc (snd (es ! j))"
    and "handshakes root es cache ! i = Ok a" and "handshakes root es cache ! j = Ok b"
  shows "a = b"
  using assms
proof (induction es arbitrary: cache i j)
  case (Cons e es)
  obtain fs m where e: "e = (fs, m)" by fastforce
  obtain c' r where s: "sni_callback root fs (Some m) cache = (c', r)" by fastforce
  obtain k where j: "j = Suc k" using Cons.prems(1) by (cases j) auto
  show ?case
  proof (cases i)
    case 0
    then have "c' (lc m) = Some a" using Cons.prems(4) sni_cached(2) [OF s] by (simp add: e s)
    then show ?thesis
      using handshakes_cached [of c' m a k es root b] Cons.prems(2,3,5) 0 by (simp add: e s j)
  next
    case (Suc l)
    then show ?thesis using Cons.IH [of l k c'] Cons.prems by (simp add: e s j)
  qed
qed simp

lemma first_certificate_stays_witness:
  "handshakes [''certs'']
     [([[''certs'', ''a'', ''cert.pem''] \<mapsto> ''old'', [''certs'', ''a'', ''key.pem''] \<mapsto> ''k''], ''a''),
      ([[''certs'', ''a'', ''cert.pem''] \<mapsto> ''new'', [''certs'', ''a'', ''key.pem''] \<mapsto> ''l''], ''A'')] Map.empty ! 1 =
   Ok (''old'', ''k'')"
proof -
  let ?es = "[([[''certs'', ''a'', ''cert.pem''] \<mapsto> ''old'', [''certs'', ''a'', ''key.pem''] \<mapsto> ''k''], ''a''),
      ([[''certs'', ''a'', ''cert.pem''] \<mapsto> ''new'', [''certs'', ''a'', ''key.pem''] \<mapsto> ''l''], ''A'')] :: (files \<times> string) list"
  have d: "domain_dir [''certs''] ''a'' = [''certs'', ''a'']" "to_lower (CHR ''a'') = CHR ''a''"
    "to_lower (CHR ''A'') = CHR ''a''" by code_simp+
  have 0: "handshakes [''certs''] ?es Map.empty ! 0 = Ok (''old'', ''k'')"
    by (simp add: sni_callback_def cert_store_load_def d Let_def)
  obtain b where 1: "handshakes [''certs''] ?es Map.empty ! 1 = Ok b"
    by (simp add: sni_callback_def cert_store_load_def d Let_def)
  have "(''old'', ''k'') = b"
    by (rule first_certificate_stays [OF _ _ _ 0 1]) (simp_all add: d)
  with 1 show ?thesis by simp
qed

end
