(* ===== verification/Acme.thy ===== *)
theory Acme
  imports Dns
begin

text \<open>
  exposure/acme.cpp: the base64url encoder, the signed requests of RFC 8555 and the order of a
  certificate with its DNS-01 challenges.

  OpenSSL's part (digests, the account key, signatures, the signing request and its key), the
  ACME server and the DNS provider are arguments. Bytes are characters. An exception that leaves
  the order is a value, and so is a failure with its message.
\<close>

section \<open>base64url\<close>

definition b64_table :: string where
  "b64_table = ''ABCDEFGHIJKLMNOPQRSTUVWXYZabcdefghijklmnopqrstuvwxyz0123456789-_''"

definition b64_at :: "nat \<Rightarrow> nat \<Rightarrow> char" where
  "b64_at n shift = b64_table ! (n div 2 ^ shift mod 64)"

fun b64url :: "string \<Rightarrow> string" where
  "b64url [] = []"
| "b64url [a] =
     (let n = char_nat a * 65536 in [b64_at n 18, b64_at n 12, CHR ''-'', CHR ''-''])"
| "b64url [a, b] =
     (let n = char_nat a * 65536 + char_nat b * 256 in [b64_at n 18, b64_at n 12, b64_at n 6, CHR ''-''])"
| "b64url (a # b # c # r) =
     (let n = char_nat a * 65536 + char_nat b * 256 + char_nat c
      in [b64_at n 18, b64_at n 12, b64_at n 6, b64_at n 0] @ b64url r)"

text \<open>Base64url of RFC 4648 without padding, as RFC 7515 asks for it: six bits a character, the last
  ones filled with zeros.\<close>

definition byte_bits :: "char \<Rightarrow> bool list" where
  "byte_bits c = map (bit (char_nat c)) [7, 6, 5, 4, 3, 2, 1, 0]"

fun sextets :: "bool list \<Rightarrow> bool list list" where
  "sextets (a # b # c # d # e # f # r) = [a, b, c, d, e, f] # sextets r"
| "sextets [] = []"
| "sextets r = [r @ replicate (6 - length r) False]"

definition bits_val :: "bool list \<Rightarrow> nat" where
  "bits_val g = horner_sum of_bool 2 (rev g)"

definition base64url :: "string \<Rightarrow> string" where
  "base64url s = map (\<lambda>g. b64_table ! bits_val g) (sextets (concat (map byte_bits s)))"

lemma bit_byte_below:
  fixes m c :: nat
  assumes "c < 256" "i < 8"
  shows "bit (m * 256 + c) i = bit c i"
proof -
  have "bit (take_bit 8 (m * 256 + c)) i = bit (take_bit 8 c) i"
    by (simp add: take_bit_eq_mod)
  then show ?thesis using assms(2) by (simp add: bit_take_bit_iff)
qed

lemma bit_byte_above:
  fixes m c :: nat
  assumes "c < 256"
  shows "bit (m * 256 + c) (i + 8) = bit m i"
proof -
  have "drop_bit 8 (m * 256 + c) = m" using assms by (simp add: drop_bit_eq_div)
  then show ?thesis by (metis bit_drop_bit_eq comp_apply add.commute)
qed

lemma bits_of_three:
  fixes a b c :: nat
  assumes "a < 256" "b < 256" "c < 256"
  shows "map (bit a) [7, 6, 5, 4, 3, 2, 1, 0] @ map (bit b) [7, 6, 5, 4, 3, 2, 1, 0] @
     map (bit c) [7, 6, 5, 4, 3, 2, 1, 0] =
     map (bit (a * 65536 + b * 256 + c))
       [23, 22, 21, 20, 19, 18, 17, 16, 15, 14, 13, 12, 11, 10, 9, 8, 7, 6, 5, 4, 3, 2, 1, 0]"
proof -
  define n where "n = (a * 256 + b) * 256 + c"
  have eq: "a * 65536 + b * 256 + c = n" by (simp add: n_def)
  have top: "bit n (i + 16) = bit a i" for i
    using bit_byte_above [OF assms(3), of "a * 256 + b" "i + 8"] bit_byte_above [OF assms(2), of a i]
    by (simp add: n_def add.assoc)
  have mid: "bit n (i + 8) = bit b i" if "i < 8" for i
    using bit_byte_above [OF assms(3), of "a * 256 + b" i] bit_byte_below [OF assms(2) that, of a] by (simp add: n_def)
  have low: "bit n i = bit c i" if "i < 8" for i
    unfolding n_def by (rule bit_byte_below [OF assms(3) that])
  show ?thesis
    unfolding eq
    using top [of 7] top [of 6] top [of 5] top [of 4] top [of 3] top [of 2] top [of 1] top [of 0]
      mid [of 7] mid [of 6] mid [of 5] mid [of 4] mid [of 3] mid [of 2] mid [of 1] mid [of 0]
      low [of 7] low [of 6] low [of 5] low [of 4] low [of 3] low [of 2] low [of 1] low [of 0]
    by simp
qed

lemma group_val:
  fixes n :: nat
  shows "bits_val (map (bit n) [s + 5, s + 4, s + 3, s + 2, s + 1, s]) = n div 2 ^ s mod 64"
proof -
  have "rev (map (bit n) [s + 5, s + 4, s + 3, s + 2, s + 1, s]) = map (bit (drop_bit s n)) [0..<6]"
    by (simp add: bit_drop_bit_eq numeral_eq_Suc)
  then show ?thesis
    by (simp add: bits_val_def horner_sum_bit_eq_take_bit take_bit_eq_mod drop_bit_eq_div)
qed

lemma char_nat_less: "char_nat c < 256"
  by simp

lemma byte_bits_zero: "byte_bits (char_of (0 :: nat)) = replicate 8 False"
  by code_simp

definition groups :: "nat \<Rightarrow> bool list list" where
  "groups n = map (\<lambda>s. map (bit n) [s + 5, s + 4, s + 3, s + 2, s + 1, s]) [18, 12, 6, 0]"

lemma sextets_three:
  "sextets (byte_bits a @ byte_bits b @ byte_bits c @ r) =
     groups (char_nat a * 65536 + char_nat b * 256 + char_nat c) @ sextets r"
proof -
  have bits: "byte_bits a @ byte_bits b @ byte_bits c @ r = map (bit (char_nat a * 65536 + char_nat b * 256 + char_nat c))
       [23, 22, 21, 20, 19, 18, 17, 16, 15, 14, 13, 12, 11, 10, 9, 8, 7, 6, 5, 4, 3, 2, 1, 0] @ r"
    unfolding bits_of_three [OF char_nat_less char_nat_less char_nat_less, symmetric]
    by (simp only: byte_bits_def append_assoc)
  show ?thesis unfolding bits by (simp add: groups_def numeral_2_eq_2)
qed

lemma groups_symbols:
  "map (\<lambda>g. b64_table ! bits_val g) (groups n) = [b64_at n 18, b64_at n 12, b64_at n 6, b64_at n 0]"
proof -
  have all: "map (\<lambda>g. b64_table ! bits_val g) (map (\<lambda>s. map (bit n) [s + 5, s + 4, s + 3, s + 2, s + 1, s]) ss) =
      map (b64_at n) ss" for ss
    unfolding map_map by (rule map_cong [OF refl]) (simp only: comp_apply group_val b64_at_def)
  show ?thesis unfolding groups_def all by (simp only: list.map)
qed

lemma base64url_three:
  "base64url (a # b # c # r) =
     (let n = char_nat a * 65536 + char_nat b * 256 + char_nat c
      in [b64_at n 18, b64_at n 12, b64_at n 6, b64_at n 0] @ base64url r)"
  unfolding base64url_def list.map(2) concat.simps(2) sextets_three Let_def map_append groups_symbols ..

lemma base64url_short:
  "base64url [a] = take 2 (base64url [a, char_of (0 :: nat), char_of (0 :: nat)])"
  "base64url [a, b] = take 3 (base64url [a, b, char_of (0 :: nat)])"
  unfolding base64url_def
  by (simp_all add: byte_bits_zero) (simp_all add: byte_bits_def numeral_eq_Suc)

text \<open>
  b64url() writes the base64url of RFC 7515 with '-' for the padding the format leaves out: what it
  writes is the right encoding exactly for a number of bytes divisible by three, and '-' is itself a
  digit, so the 32-byte digests and coordinates it encodes come out as 44 characters of another value.
\<close>

theorem b64url_pads:
  "b64url s = base64url s @ replicate ((3 - length s mod 3) mod 3) (CHR ''-'')"
proof (induction s rule: b64url.induct)
  case (4 a b c r)
  then show ?case unfolding base64url_three b64url.simps Let_def by (simp add: mod_Suc)
qed (simp_all add: base64url_short base64url_three Let_def, simp_all add: base64url_def numeral_2_eq_2)

section \<open>Signed requests\<close>

type_synonym 'a acme = "(string + 'a) or_throw"

definition go :: "'w \<times> 'a acme \<Rightarrow> ('w \<Rightarrow> 'a \<Rightarrow> 'w \<times> 'b acme) \<Rightarrow> 'w \<times> 'b acme" where
  "go r f =
     (case r of
        (w, Inl t) \<Rightarrow> (w, Inl t)
      | (w, Inr (Inl e)) \<Rightarrow> (w, Inr (Inl e))
      | (w, Inr (Inr a)) \<Rightarrow> f w a)"

text \<open>
  The cryptography: SHA-256, the coordinates of the account key, ECDSA over the SHA-256 of its argument
  with the result as r and s of 32 bytes each, the signing request for a list of domains, and its key.
\<close>

record crypto =
  cr_sha256 :: "string \<Rightarrow> string"
  cr_point :: "string \<times> string"
  cr_sign :: "string \<Rightarrow> string option"
  cr_csr :: "string list \<Rightarrow> string option"
  cr_key_pem :: string

record acme_ctx =
  cx_new_nonce :: string
  cx_new_account :: string
  cx_new_order :: string
  cx_kid :: string

record acme_answer =
  an_status :: int
  an_body :: string
  an_location :: "string option"

text \<open>The server: a GET for a nonce (status and Replay-Nonce) and a POST of a body.\<close>

record 'w acme_server =
  as_nonce :: "'w \<Rightarrow> string \<Rightarrow> string \<Rightarrow> 'w \<times> (int \<times> string option) option"
  as_post :: "'w \<Rightarrow> string \<Rightarrow> string \<Rightarrow> string \<Rightarrow> 'w \<times> (string + acme_answer)"

record 'j acme_response =
  ar_status :: int
  ar_body :: 'j
  ar_raw :: string
  ar_location :: string

definition sha256_b64url :: "crypto \<Rightarrow> string \<Rightarrow> string" where
  "sha256_b64url C s = b64url (cr_sha256 C s)"

definition jwk_json :: "('j, 'm) json_build_scheme \<Rightarrow> crypto \<Rightarrow> 'j" where
  "jwk_json J C =
     j_of_obj J [(''crv'', j_of_str J ''P-256''), (''kty'', j_of_str J ''EC''),
       (''x'', j_of_str J (b64url (fst (cr_point C)))), (''y'', j_of_str J (b64url (snd (cr_point C))))]"

definition thumbprint_b64url :: "('j, 'm) json_build_scheme \<Rightarrow> crypto \<Rightarrow> string" where
  "thumbprint_b64url J C = sha256_b64url C (j_dump J (jwk_json J C))"

text \<open>The host and the path behind eight characters: both cuts throw when there is nothing to cut.\<close>

definition split_https :: "string \<Rightarrow> (string \<times> string) or_throw" where
  "split_https url =
     (if length url < 8 then Inl ''substr''
      else let rest = drop 8 url
           in (case find_char (CHR ''/'') rest of None \<Rightarrow> Inl ''substr'' | Some i \<Rightarrow> Inr (take i rest, drop i rest)))"

definition header_json :: "('j, 'm) json_build_scheme \<Rightarrow> crypto \<Rightarrow> acme_ctx \<Rightarrow> string \<Rightarrow> string \<Rightarrow> 'j" where
  "header_json J C ctx nonce url =
     j_of_obj J ([(''alg'', j_of_str J ''ES256''), (''nonce'', j_of_str J nonce), (''url'', j_of_str J url)] @
       (if cx_kid ctx \<noteq> [] then [(''kid'', j_of_str J (cx_kid ctx))] else [(''jwk'', jwk_json J C)]))"

text \<open>The flattened JWS. What is signed is the digest of the signing input, by a signature that
  digests once more.\<close>

definition jws_body ::
  "('j, 'm) json_build_scheme \<Rightarrow> crypto \<Rightarrow> acme_ctx \<Rightarrow> string \<Rightarrow> string \<Rightarrow> 'j option \<Rightarrow> string option" where
  "jws_body J C ctx nonce url payload =
     (let protected = b64url (j_dump J (header_json J C ctx nonce url));
          body = b64url (case payload of None \<Rightarrow> [] | Some p \<Rightarrow> j_dump J p)
      in case cr_sign C (cr_sha256 C (protected @ ''.'' @ body)) of
           None \<Rightarrow> None
         | Some sig \<Rightarrow> Some (j_dump J (j_of_obj J
             [(''protected'', j_of_str J protected), (''payload'', j_of_str J body),
              (''signature'', j_of_str J (b64url sig))])))"

definition failed_response :: "('j, 'm) json_api_scheme \<Rightarrow> string \<Rightarrow> 'j acme_response" where
  "failed_response J why = \<lparr>ar_status = -1, ar_body = j_null J, ar_raw = why, ar_location = []\<rparr>"

definition received :: "('j, 'm) json_api_scheme \<Rightarrow> acme_answer \<Rightarrow> 'j acme_response" where
  "received J a =
     \<lparr>ar_status = an_status a,
      ar_body = (case j_parse J (an_body a) of Inl _ \<Rightarrow> j_null J | Inr j \<Rightarrow> j),
      ar_raw = an_body a,
      ar_location = (case an_location a of None \<Rightarrow> [] | Some l \<Rightarrow> l)\<rparr>"

definition fetch_nonce :: "'w acme_server \<Rightarrow> string \<Rightarrow> string \<Rightarrow> 'w \<Rightarrow> 'w \<times> string" where
  "fetch_nonce S host path w =
     (let (w', r) = as_nonce S w host path
      in (w', case r of Some (status, Some n) \<Rightarrow> if status = 200 then n else [] | _ \<Rightarrow> []))"

definition jws_post ::
  "('j, 'm) json_build_scheme \<Rightarrow> crypto \<Rightarrow> 'w acme_server \<Rightarrow> acme_ctx \<Rightarrow> string \<Rightarrow> 'j option \<Rightarrow> 'w
     \<Rightarrow> 'w \<times> 'j acme_response acme" where
  "jws_post J C S ctx url payload w =
     (case split_https (cx_new_nonce ctx) of
        Inl t \<Rightarrow> (w, Inl t)
      | Inr (nonce_host, nonce_path) \<Rightarrow>
          let (w1, nonce) = fetch_nonce S nonce_host nonce_path w
          in if nonce = [] then (w1, Inr (Inr (failed_response J ''cannot obtain ACME nonce'')))
             else (case jws_body J C ctx nonce url payload of
                     None \<Rightarrow> (w1, Inr (Inr (failed_response J ''signing failed'')))
                   | Some body \<Rightarrow>
                       (case split_https url of
                          Inl t \<Rightarrow> (w1, Inl t)
                        | Inr (host, path) \<Rightarrow>
                            let (w2, r) = as_post S w1 host path body
                            in (w2, Inr (Inr (case r of Inl why \<Rightarrow> failed_response J why | Inr a \<Rightarrow> received J a))))))"

definition is_bad_nonce :: "('j, 'm) json_api_scheme \<Rightarrow> 'j acme_response \<Rightarrow> bool" where
  "is_bad_nonce J res \<longleftrightarrow>
     (ar_status res = 400 \<or> ar_status res = 403) \<and>
     (case j_value_str J (ar_body res) ''type'' [] of Inl _ \<Rightarrow> False | Inr t \<Rightarrow> contains_str ''badNonce'' t)"

definition acme_post ::
  "('j, 'm) json_build_scheme \<Rightarrow> crypto \<Rightarrow> 'w acme_server \<Rightarrow> acme_ctx \<Rightarrow> string \<Rightarrow> 'j option \<Rightarrow> 'w
     \<Rightarrow> 'w \<times> 'j acme_response acme" where
  "acme_post J C S ctx url payload w =
     go (jws_post J C S ctx url payload w) (\<lambda>w1 res.
       if is_bad_nonce J res then jws_post J C S ctx url payload w1 else (w1, Inr (Inr res)))"

definition get_directory ::
  "('j, 'm) json_build_scheme \<Rightarrow> 'w net \<Rightarrow> string \<Rightarrow> 'w \<Rightarrow> 'w \<times> acme_ctx option" where
  "get_directory J net url w =
     (let (w', res) = https_request net ''GET'' url [] [] w;
          at = (\<lambda>j k. case j_get J j k of None \<Rightarrow> Inl ''key not found'' | Some v \<Rightarrow> get_str J v)
      in (w', if \<not> http_ok res then None
              else case and_then (j_parse J (hr_body res)) (\<lambda>j.
                     and_then (at j ''newNonce'') (\<lambda>nonce.
                     and_then (at j ''newAccount'') (\<lambda>account.
                     and_then (at j ''newOrder'') (\<lambda>order.
                       Inr \<lparr>cx_new_nonce = nonce, cx_new_account = account, cx_new_order = order, cx_kid = []\<rparr>)))) of
                     Inl _ \<Rightarrow> None | Inr ctx \<Rightarrow> Some ctx))"

section \<open>One authorization\<close>

record 'w txt_ops =
  tx_set :: "string \<Rightarrow> string \<Rightarrow> string \<Rightarrow> 'w \<Rightarrow> 'w \<times> bool"
  tx_remove :: "string \<Rightarrow> string \<Rightarrow> string \<Rightarrow> 'w \<Rightarrow> 'w \<times> bool"
  tx_query :: "string \<Rightarrow> 'w \<Rightarrow> 'w \<times> string"

definition provider_ops :: "('j, 'm) json_build_scheme \<Rightarrow> 'w net \<Rightarrow> string \<Rightarrow> 'w txt_ops" where
  "provider_ops J net token =
     \<lparr>tx_set = set_txt J net token, tx_remove = remove_txt J net token, tx_query = dns_query_txt J net\<rparr>"

definition authz_domain :: "('j, 'm) json_api_scheme \<Rightarrow> 'j \<Rightarrow> string" where
  "authz_domain J body =
     (case j_get J body ''identifier'' of
        None \<Rightarrow> []
      | Some i \<Rightarrow> (case j_get J i ''value'' of None \<Rightarrow> []
                   | Some v \<Rightarrow> (case get_str J v of Inl _ \<Rightarrow> [] | Inr d \<Rightarrow> d)))"

text \<open>The token and the URL of the last dns-01 challenge.\<close>

fun pick_challenge :: "('j, 'm) json_api_scheme \<Rightarrow> 'j list \<Rightarrow> string \<times> string \<Rightarrow> (string \<times> string) or_throw" where
  "pick_challenge J [] found = Inr found"
| "pick_challenge J (ch # chs) found =
     and_then (j_value_str J ch ''type'' []) (\<lambda>t.
       if t = ''dns-01''
       then and_then (j_value_str J ch ''token'' []) (\<lambda>token.
            and_then (j_value_str J ch ''url'' []) (\<lambda>url. pick_challenge J chs (token, url)))
       else pick_challenge J chs found)"

definition challenge_name :: "string \<Rightarrow> string" where
  "challenge_name domain =
     (let name = ''_acme-challenge.'' @ domain
      in if name = ''_acme-challenge.'' @ two_labels domain then ''_acme-challenge'' else name)"

fun await_txt :: "'w txt_ops \<Rightarrow> string \<Rightarrow> string \<Rightarrow> nat \<Rightarrow> 'w \<Rightarrow> 'w \<times> bool" where
  "await_txt T name txt 0 w = (w, False)"
| "await_txt T name txt (Suc n) w =
     (let (w', v) = tx_query T name w in if v = txt then (w', True) else await_txt T name txt n w')"

fun poll_authz ::
  "('j, 'm) json_build_scheme \<Rightarrow> crypto \<Rightarrow> 'w acme_server \<Rightarrow> acme_ctx \<Rightarrow> string \<Rightarrow> string \<Rightarrow> nat \<Rightarrow> 'w
     \<Rightarrow> 'w \<times> bool acme" where
  "poll_authz J C S ctx url domain 0 w = (w, Inr (Inr False))"
| "poll_authz J C S ctx url domain (Suc n) w =
     go (acme_post J C S ctx url None w) (\<lambda>w1 poll.
       case j_value_str J (ar_body poll) ''status'' [] of
         Inl t \<Rightarrow> (w1, Inl t)
       | Inr st \<Rightarrow>
           if st = ''valid'' then (w1, Inr (Inr True))
           else if st = ''invalid''
                then (w1, Inr (Inl (''authorization invalid for '' @ domain @ '': '' @ take 500 (ar_raw poll))))
                else poll_authz J C S ctx url domain n w1)"

definition status_text :: "'j acme_response \<Rightarrow> string" where
  "status_text res = string_of_int (ar_status res) @ '' '' @ take 400 (ar_raw res)"

text \<open>From the record that was set to the record that is removed.\<close>

definition answer_challenge ::
  "('j, 'm) json_build_scheme \<Rightarrow> crypto \<Rightarrow> 'w acme_server \<Rightarrow> 'w txt_ops \<Rightarrow> acme_ctx \<Rightarrow> string \<Rightarrow> string \<Rightarrow> string
     \<Rightarrow> string \<Rightarrow> 'w \<Rightarrow> 'w \<times> unit acme" where
  "answer_challenge J C S T ctx authz_url challenge_url domain txt w =
     (let zone = two_labels domain; name = challenge_name domain;
          (w1, was_set) = tx_set T zone name txt w
      in if \<not> was_set then (w1, Inr (Inl (''DNS set failed for '' @ name)))
         else let (w2, propagated) = await_txt T name txt 30 w1
              in go (acme_post J C S ctx challenge_url None w2) (\<lambda>w3 resp.
                   if ar_status resp < 200 \<or> 300 \<le> ar_status resp
                   then (w3, Inr (Inl (''challenge trigger failed: HTTP '' @ status_text resp)))
                   else go (poll_authz J C S ctx authz_url domain 30 w3) (\<lambda>w4 valid.
                     if \<not> valid then (w4, Inr (Inl (''authorization timeout for '' @ domain)))
                     else (fst (tx_remove T zone name txt w4), Inr (Inr ())))))"

definition authorize ::
  "('j, 'm) json_build_scheme \<Rightarrow> crypto \<Rightarrow> 'w acme_server \<Rightarrow> 'w txt_ops \<Rightarrow> acme_ctx \<Rightarrow> string \<Rightarrow> 'w
     \<Rightarrow> 'w \<times> unit acme" where
  "authorize J C S T ctx authz_url w =
     go (acme_post J C S ctx authz_url None w) (\<lambda>w1 authz.
       if ar_status authz \<noteq> 200
       then (w1, Inr (Inl (''authorization fetch failed: HTTP '' @ string_of_int (ar_status authz))))
       else let domain = authz_domain J (ar_body authz)
            in case j_value_str J (ar_body authz) ''status'' [] of
                 Inl t \<Rightarrow> (w1, Inl t)
               | Inr st \<Rightarrow>
                   if st = ''valid'' then (w1, Inr (Inr ()))
                   else (case and_then (j_value J (ar_body authz) ''challenges'' (j_of_arr J []))
                                (\<lambda>chs. pick_challenge J (j_items J chs) ([], [])) of
                           Inl t \<Rightarrow> (w1, Inl t)
                         | Inr (token, challenge_url) \<Rightarrow>
                             if token = [] then (w1, Inr (Inl (''no dns-01 challenge offered for '' @ domain)))
                             else answer_challenge J C S T ctx authz_url challenge_url domain
                                    (sha256_b64url C (token @ ''.'' @ thumbprint_b64url J C)) w1))"

fun authorize_all ::
  "('j, 'm) json_build_scheme \<Rightarrow> crypto \<Rightarrow> 'w acme_server \<Rightarrow> 'w txt_ops \<Rightarrow> acme_ctx \<Rightarrow> string list \<Rightarrow> 'w
     \<Rightarrow> 'w \<times> unit acme" where
  "authorize_all J C S T ctx [] w = (w, Inr (Inr ()))"
| "authorize_all J C S T ctx (u # us) w =
     go (authorize J C S T ctx u w) (\<lambda>w1 _. authorize_all J C S T ctx us w1)"

section \<open>The order\<close>

text \<open>The URL of the certificate, empty when the order did not become valid.\<close>

fun poll_order ::
  "('j, 'm) json_build_scheme \<Rightarrow> crypto \<Rightarrow> 'w acme_server \<Rightarrow> acme_ctx \<Rightarrow> string \<Rightarrow> nat \<Rightarrow> 'w
     \<Rightarrow> 'w \<times> string acme" where
  "poll_order J C S ctx url 0 w = (w, Inr (Inr []))"
| "poll_order J C S ctx url (Suc n) w =
     go (acme_post J C S ctx url None w) (\<lambda>w1 poll.
       case j_value_str J (ar_body poll) ''status'' [] of
         Inl t \<Rightarrow> (w1, Inl t)
       | Inr st \<Rightarrow>
           if st = ''valid''
           then (case j_value_str J (ar_body poll) ''certificate'' [] of Inl t \<Rightarrow> (w1, Inl t) | Inr u \<Rightarrow> (w1, Inr (Inr u)))
           else if st = ''invalid'' then (w1, Inr (Inl (''order invalid: '' @ take 500 (ar_raw poll))))
           else poll_order J C S ctx url n w1)"

definition order_json :: "('j, 'm) json_build_scheme \<Rightarrow> string list \<Rightarrow> 'j" where
  "order_json J domains =
     j_of_obj J [(''identifiers'', j_of_arr J
       (map (\<lambda>d. j_of_obj J [(''type'', j_of_str J ''dns''), (''value'', j_of_str J d)]) domains))]"

definition authorization_urls :: "('j, 'm) json_build_scheme \<Rightarrow> 'j \<Rightarrow> string list or_throw" where
  "authorization_urls J body =
     and_then (j_value J body ''authorizations'' (j_of_arr J [])) (\<lambda>a.
       if j_is_array J a then each_then (get_str J) (j_items J a) else Inl ''type must be array'')"

text \<open>The certificate with its key, as the result has them when \<open>ok\<close> is set.\<close>

definition finish_order ::
  "('j, 'm) json_build_scheme \<Rightarrow> crypto \<Rightarrow> 'w acme_server \<Rightarrow> acme_ctx \<Rightarrow> string list \<Rightarrow> string \<Rightarrow> string \<Rightarrow> 'w
     \<Rightarrow> 'w \<times> (bool \<times> string \<times> string) acme" where
  "finish_order J C S ctx domains order_url finalize_url w =
     (case cr_csr C domains of
        None \<Rightarrow> (w, Inr (Inl ''cannot generate cert key''))
      | Some der \<Rightarrow>
          go (acme_post J C S ctx finalize_url (Some (j_of_obj J [(''csr'', j_of_str J (b64url der))])) w) (\<lambda>w1 fin.
            if ar_status fin < 200 \<or> 300 \<le> ar_status fin
            then (w1, Inr (Inl (''finalize failed: HTTP '' @ status_text fin)))
            else go (poll_order J C S ctx order_url 60 w1) (\<lambda>w2 cert_url.
              if cert_url = [] then (w2, Inr (Inl ''order never became valid''))
              else go (acme_post J C S ctx cert_url None w2) (\<lambda>w3 cert.
                if ar_status cert \<noteq> 200
                then (w3, Inr (Inl (''certificate download failed: HTTP '' @ string_of_int (ar_status cert))))
                else (w3, Inr (Inr (ar_raw cert \<noteq> [] \<and> cr_key_pem C \<noteq> [], ar_raw cert, cr_key_pem C)))))))"

definition directory_url :: "(string \<Rightarrow> string option) \<Rightarrow> bool \<Rightarrow> string" where
  "directory_url env staging =
     (case env ''HOSTELY_ACME_DIR_URL'' of
        Some u \<Rightarrow> if u \<noteq> [] then u
                  else if staging then ''https://acme-staging-v02.api.letsencrypt.org/directory''
                  else ''https://acme-v02.api.letsencrypt.org/directory''
      | None \<Rightarrow> if staging then ''https://acme-staging-v02.api.letsencrypt.org/directory''
                else ''https://acme-v02.api.letsencrypt.org/directory'')"

definition register_account ::
  "('j, 'm) json_build_scheme \<Rightarrow> crypto \<Rightarrow> 'w acme_server \<Rightarrow> acme_ctx \<Rightarrow> 'w \<Rightarrow> 'w \<times> acme_ctx acme" where
  "register_account J C S ctx w =
     go (jws_post J C S ctx (cx_new_account ctx)
           (Some (j_of_obj J [(''termsOfServiceAgreed'', j_of_bool J True)])) w) (\<lambda>w1 acc.
       if ar_status acc \<noteq> 200 \<and> ar_status acc \<noteq> 201
       then (w1, Inr (Inl (''account registration failed: HTTP '' @ status_text acc)))
       else if ar_location acc = [] then (w1, Inr (Inl ''account created but no Location/KID returned''))
       else (w1, Inr (Inr (ctx\<lparr>cx_kid := ar_location acc\<rparr>))))"

definition acme_issue_cert ::
  "('j, 'm) json_build_scheme \<Rightarrow> crypto option \<Rightarrow> 'w net \<Rightarrow> 'w acme_server \<Rightarrow> (string \<Rightarrow> string option) \<Rightarrow> string list
     \<Rightarrow> bool \<Rightarrow> 'w \<Rightarrow> 'w \<times> (bool \<times> string \<times> string) acme" where
  "acme_issue_cert J account net S env domains staging w =
     (case account of
        None \<Rightarrow> (w, Inr (Inl ''cannot load/create ACME account key''))
      | Some C \<Rightarrow>
          (case get_directory J net (directory_url env staging) w of
             (w1, None) \<Rightarrow> (w1, Inr (Inl ''cannot fetch ACME directory''))
           | (w1, Some ctx0) \<Rightarrow>
               go (register_account J C S ctx0 w1) (\<lambda>w2 ctx.
               go (acme_post J C S ctx (cx_new_order ctx) (Some (order_json J domains)) w2) (\<lambda>w3 order.
                 if ar_status order \<noteq> 201 \<or> ar_location order = []
                 then (w3, Inr (Inl (''newOrder failed: HTTP '' @ status_text order)))
                 else (case (case j_get J (ar_body order) ''finalize'' of None \<Rightarrow> Inl [] | Some v \<Rightarrow> get_str J v) of
                         Inl _ \<Rightarrow> (w3, Inr (Inl ''newOrder response missing finalize URL''))
                       | Inr finalize_url \<Rightarrow>
                           (case dns_token env of
                              None \<Rightarrow> (w3, Inr (Inl ''no DNS provider configured (set HOSTELY_CF_API_TOKEN)''))
                            | Some token \<Rightarrow>
                                (case authorization_urls J (ar_body order) of
                                   Inl t \<Rightarrow> (w3, Inl t)
                                 | Inr urls \<Rightarrow>
                                     go (authorize_all J C S (provider_ops J net token) ctx urls w3) (\<lambda>w4 _.
                                       finish_order J C S ctx domains (ar_location order) finalize_url w4))))))))"

section \<open>What an authorization leaves behind\<close>

datatype txt_call = Set string string string | Remove string string string

text \<open>The provider and the server with the changes asked of the provider noted beside the world.\<close>

definition noted_ops :: "'w txt_ops \<Rightarrow> ('w \<times> txt_call list) txt_ops" where
  "noted_ops T =
     \<lparr>tx_set = (\<lambda>z n t (w, log). let (w', ok) = tx_set T z n t w in ((w', log @ [Set z n t]), ok)),
      tx_remove = (\<lambda>z n t (w, log). let (w', ok) = tx_remove T z n t w in ((w', log @ [Remove z n t]), ok)),
      tx_query = (\<lambda>n (w, log). let (w', v) = tx_query T n w in ((w', log), v))\<rparr>"

definition noted_server :: "'w acme_server \<Rightarrow> ('w \<times> txt_call list) acme_server" where
  "noted_server S =
     \<lparr>as_nonce = (\<lambda>(w, log) h p. let (w', r) = as_nonce S w h p in ((w', log), r)),
      as_post = (\<lambda>(w, log) h p b. let (w', r) = as_post S w h p b in ((w', log), r))\<rparr>"

text \<open>Changes noted in order, and what a step adds to them.\<close>

lemma go_result:
  "go x f = (w', r') \<Longrightarrow>
     (\<exists>t. x = (w', Inl t) \<and> r' = Inl t) \<or> (\<exists>e. x = (w', Inr (Inl e)) \<and> r' = Inr (Inl e)) \<or>
     (\<exists>w a. x = (w, Inr (Inr a)) \<and> f w a = (w', r'))"
  by (auto simp: go_def split: prod.splits sum.splits)

lemma go_keeps:
  assumes "go x f = (s', r)" and "snd (fst x) = l"
    and "\<And>s1 a s2 r2. f s1 a = (s2, r2) \<Longrightarrow> snd s1 = l \<Longrightarrow> snd s2 = l"
  shows "snd s' = l"
  using go_result [OF assms(1)]
proof (elim disjE exE conjE)
  fix w a
  assume "x = (w, Inr (Inr a))" "f w a = (s', r)"
  then show ?thesis using assms(2) assms(3) [of w a s' r] by simp
qed (use assms(2) in simp_all)

lemma nonce_noted: "fetch_nonce (noted_server S) h p s = (s', n) \<Longrightarrow> snd s' = snd s"
  by (auto simp: fetch_nonce_def noted_server_def Let_def split: prod.splits)

lemma post_noted: "as_post (noted_server S) s h p b = (s', r) \<Longrightarrow> snd s' = snd s"
  by (auto simp: noted_server_def Let_def split: prod.splits)

lemma jws_post_noted: "jws_post J C (noted_server S) ctx url payload s = (s', r) \<Longrightarrow> snd s' = snd s"
  by (auto simp: jws_post_def Let_def dest!: nonce_noted post_noted
      split: sum.splits prod.splits option.splits if_splits)

lemma acme_post_noted: "acme_post J C (noted_server S) ctx url payload s = (s', r) \<Longrightarrow> snd s' = snd s"
  unfolding acme_post_def
  by (drule go_result) (auto dest!: jws_post_noted split: if_splits)

lemma await_txt_noted: "await_txt (noted_ops T) name txt n s = (s', b) \<Longrightarrow> snd s' = snd s"
proof (induction n arbitrary: s s' b)
  case (Suc n)
  obtain s1 v where q: "tx_query (noted_ops T) name s = (s1, v)" by fastforce
  then have "snd s1 = snd s" by (auto simp: noted_ops_def Let_def split: prod.splits)
  with Suc q show ?case by (auto split: if_splits)
qed simp

lemma poll_authz_noted: "poll_authz J C (noted_server S) ctx url d n s = (s', r) \<Longrightarrow> snd s' = snd s"
proof (induction n arbitrary: s s' r)
  case (Suc n)
  show ?case
  proof (rule go_keeps [OF Suc.prems [unfolded poll_authz.simps]])
    show "snd (fst (acme_post J C (noted_server S) ctx url None s)) = snd s"
      by (metis acme_post_noted prod.collapse)
  next
    fix s1 a s2 r2
    assume f: "(case j_value_str J (ar_body a) ''status'' [] of Inl t \<Rightarrow> (s1, Inl t)
        | Inr st \<Rightarrow> if st = ''valid'' then (s1, Inr (Inr True))
            else if st = ''invalid''
              then (s1, Inr (Inl (''authorization invalid for '' @ d @ '': '' @ take 500 (ar_raw a))))
              else poll_authz J C (noted_server S) ctx url d n s1) = (s2, r2)" and "snd s1 = snd s"
    from f show "snd s2 = snd s"
      using Suc.IH [of s1] \<open>snd s1 = snd s\<close> by (auto split: sum.splits if_splits)
  qed
qed simp

lemma tx_noted:
  "tx_set (noted_ops T) z n t s = (s', ok) \<Longrightarrow> snd s' = snd s @ [Set z n t]"
  "snd (fst (tx_remove (noted_ops T) z n t s)) = snd s @ [Remove z n t]"
  by (auto simp: noted_ops_def Let_def split: prod.splits)

fun pairs_of :: "(string \<times> string \<times> string) list \<Rightarrow> txt_call list" where
  "pairs_of [] = []"
| "pairs_of ((z, n, t) # xs) = Set z n t # Remove z n t # pairs_of xs"

lemma pairs_of_append: "pairs_of (xs @ ys) = pairs_of xs @ pairs_of ys"
  by (induction xs rule: pairs_of.induct) simp_all

definition left_behind :: "unit acme \<Rightarrow> txt_call list \<Rightarrow> bool" where
  "left_behind r rest \<longleftrightarrow> rest = [] \<or> r \<noteq> Inr (Inr ()) \<and> (\<exists>z n t. rest = [Set z n t])"

lemma answer_challenge_noted:
  assumes "answer_challenge J C (noted_server S) (noted_ops T) ctx a u d txt s = (s', r)"
  shows "snd s' = snd s @ [Set (two_labels d) (challenge_name d) txt] @
    (if r = Inr (Inr ()) then [Remove (two_labels d) (challenge_name d) txt] else [])"
proof -
  obtain s1 was_set where s1: "tx_set (noted_ops T) (two_labels d) (challenge_name d) txt s = (s1, was_set)" by fastforce
  note log = tx_noted(1) [OF s1]
  show ?thesis
  proof (cases was_set)
    case False
    then show ?thesis using assms log by (auto simp: answer_challenge_def s1)
  next
    case True
    obtain s2 p where s2: "await_txt (noted_ops T) (challenge_name d) txt 30 s1 = (s2, p)" by fastforce
    note rest = assms [unfolded answer_challenge_def Let_def s1 prod.case s2]
    show ?thesis
      using True log await_txt_noted [OF s2] rest
      by (auto dest!: go_result acme_post_noted poll_authz_noted simp: tx_noted(2) split: if_splits)
  qed
qed

definition adds :: "'w \<times> txt_call list \<Rightarrow> unit acme \<Rightarrow> 'w \<times> txt_call list \<Rightarrow> bool" where
  "adds s r s' \<longleftrightarrow> (\<exists>ok rest. snd s' = snd s @ pairs_of ok @ rest \<and> left_behind r rest)"

lemma adds_none: "snd s' = snd s \<Longrightarrow> adds s r s'"
  unfolding adds_def by (intro exI [of _ "[]"]) (simp add: left_behind_def)

lemma adds_challenge:
  assumes "answer_challenge J C (noted_server S) (noted_ops T) ctx a u d txt s1 = (s', r)" "snd s1 = snd s"
  shows "adds s r s'"
proof (cases "r = Inr (Inr ())")
  case True
  then show ?thesis
    unfolding adds_def using answer_challenge_noted [OF assms(1)] assms(2)
    by (intro exI [of _ "[(two_labels d, challenge_name d, txt)]"] exI [of _ "[]"]) (simp add: left_behind_def)
next
  case False
  then show ?thesis
    unfolding adds_def using answer_challenge_noted [OF assms(1)] assms(2)
    by (intro exI [of _ "[]"] exI [of _ "[Set (two_labels d) (challenge_name d) txt]"]) (simp add: left_behind_def)
qed

lemma authorize_noted:
  assumes "authorize J C (noted_server S) (noted_ops T) ctx url s = (s', r)"
  shows "adds s r s'"
  using go_result [OF assms [unfolded authorize_def]]
  by (auto simp: Let_def dest!: acme_post_noted intro: adds_none adds_challenge
      split: sum.splits if_splits prod.splits)


text \<open>A server whose authorization is pending with one challenge, and that answers the challenge with 500.\<close>

definition demo_crypto :: crypto where
  "demo_crypto = \<lparr>cr_sha256 = (\<lambda>_. []), cr_point = ([], []), cr_sign = (\<lambda>_. Some []),
     cr_csr = (\<lambda>_. None), cr_key_pem = []\<rparr>"

definition pending_authz :: tree where
  "pending_authz = TObj [(''status'', TStr ''pending''), (''challenges'', TArr
     [TObj [(''type'', TStr ''dns-01''), (''token'', TStr ''t''), (''url'', TStr ''https://h/c'')]])]"

definition failing_server :: "unit acme_server" where
  "failing_server =
     \<lparr>as_nonce = (\<lambda>w h p. (w, Some (200, Some ''n''))),
      as_post = (\<lambda>w h p b. (w, Inr (if p = ''/a''
         then \<lparr>an_status = 200, an_body = j_dump tree_json pending_authz, an_location = None\<rparr>
         else \<lparr>an_status = 500, an_body = [], an_location = None\<rparr>)))\<rparr>"

definition demo_ops :: "unit txt_ops" where
  "demo_ops = \<lparr>tx_set = (\<lambda>z n t w. (w, True)), tx_remove = (\<lambda>z n t w. (w, True)), tx_query = (\<lambda>n w. (w, []))\<rparr>"

definition demo_ctx :: acme_ctx where
  "demo_ctx = \<lparr>cx_new_nonce = ''https://h/n'', cx_new_account = [], cx_new_order = [], cx_kid = ''k''\<rparr>"

lemma demo_jws:
  assumes "split_https url = Inr (''h'', p)"
  shows "jws_post tree_json demo_crypto (noted_server failing_server) demo_ctx url None ((), log) =
     (((), log), Inr (Inr (received tree_json (if p = ''/a''
         then \<lparr>an_status = 200, an_body = j_dump tree_json pending_authz, an_location = None\<rparr>
         else \<lparr>an_status = 500, an_body = [], an_location = None\<rparr>))))"
proof -
  have n: "split_https (cx_new_nonce demo_ctx) = Inr (''h'', ''/n'')" by code_simp
  show ?thesis
    by (simp add: jws_post_def n assms fetch_nonce_def noted_server_def failing_server_def jws_body_def demo_crypto_def)
qed

lemma demo_post:
  assumes "split_https url = Inr (''h'', p)"
  shows "acme_post tree_json demo_crypto (noted_server failing_server) demo_ctx url None ((), log) =
     (((), log), Inr (Inr (received tree_json (if p = ''/a''
         then \<lparr>an_status = 200, an_body = j_dump tree_json pending_authz, an_location = None\<rparr>
         else \<lparr>an_status = 500, an_body = [], an_location = None\<rparr>))))"
  by (simp add: acme_post_def demo_jws [OF assms] go_def is_bad_nonce_def received_def)


end
