(* ===== verification/Exposure.thy ===== *)
theory Exposure
  imports Args Router Proxy Acme Relay
begin

text \<open>
  cli/exposure_cli.cpp: the commands certs, proxy, expose, tunnel and router. A command gives its exit
  code and the lines it prints and logs; one that runs a loop gives the options the loop is
  entered with. An exception that leaves a command is a value.
\<close>

section \<open>Shared by the commands\<close>

datatype cli_line = OutLine string | OutText string | ErrLine string | InfoLine string | WarnLine string | ErrorLine string

definition subcommand :: "parsed_args \<Rightarrow> string" where
  "subcommand p = (if 1 < length (pa_positionals p) then pa_positionals p ! 1 else [])"

definition operand :: "parsed_args \<Rightarrow> nat \<Rightarrow> string" where
  "operand p i = (if i < length (pa_positionals p) then pa_positionals p ! i else [])"

text \<open>A number that is kept at its default when it cannot be read.\<close>

definition int_option :: "parsed_args \<Rightarrow> string \<Rightarrow> int \<Rightarrow> int" where
  "int_option p name d =
     (case get_option p name of None \<Rightarrow> d | Some v \<Rightarrow> (case stoi v of None \<Rightarrow> d | Some i \<Rightarrow> i))"

section \<open>hostely certs\<close>

definition cert_line :: "int \<Rightarrow> cert_info \<Rightarrow> cli_line" where
  "cert_line now c =
     (let days = cert_days_remaining now c
      in OutLine (ci_domain c @ ''  issuer='' @ take 40 (ci_issuer c) @ ''  expires_in='' @
           (if 0 \<le> days then string_of_int days @ ''d'' else ''expired'') @ ''  source='' @ ci_source c))"

definition certs_list ::
  "('j, 'm) json_api_scheme \<Rightarrow> (string \<Rightarrow> cert_info option) \<Rightarrow> int \<Rightarrow> path list \<Rightarrow> files \<Rightarrow> cli_line list \<times> int" where
  "certs_list J inspect now dirs fs =
     (case cert_store_list J inspect dirs fs of
        [] \<Rightarrow> ([OutLine ''no certificates stored''], 0)
      | cs \<Rightarrow> (map (cert_line now) cs, 0))"

text \<open>The issue of a certificate, with the order as an argument.\<close>

definition certs_issue ::
  "('j, 'm) json_build_scheme \<Rightarrow> (string \<Rightarrow> cert_info option) \<Rightarrow> int \<Rightarrow> (path \<Rightarrow> write_result) \<Rightarrow> path
     \<Rightarrow> (string list \<Rightarrow> bool \<Rightarrow> 'w \<Rightarrow> 'w \<times> (bool \<times> string \<times> string) acme) \<Rightarrow> parsed_args \<Rightarrow> files \<Rightarrow> 'w
     \<Rightarrow> files \<times> 'w \<times> (cli_line list \<times> int) or_throw" where
  "certs_issue J inspect now wr root issue p fs w =
     (let domain = operand p 2
      in if domain = [] then (fs, w, Inr ([ErrLine ''usage: hostely certs issue <domain> [san...] [--staging]''], 2))
         else let staging = has_option p ''staging'';
                  start = InfoLine (''issuing '' @ (if staging then ''staging '' else []) @
                    ''certificate for '' @ domain @ '' via ACME DNS-01...'');
                  (w', r) = issue (domain # drop 3 (pa_positionals p)) staging w
              in case r of
                   Inl t \<Rightarrow> (fs, w', Inl t)
                 | Inr (Inl err) \<Rightarrow> (fs, w', Inr ([start, ErrorLine (''certificate issuance failed: '' @ err)], 1))
                 | Inr (Inr (ok, cert_pem, key_pem)) \<Rightarrow>
                     if \<not> ok then (fs, w', Inr ([start, ErrorLine ''certificate issuance failed: ''], 1))
                     else (case cert_store_save J inspect now wr root domain cert_pem key_pem ''acme'' fs of
                             (fs', Inl t) \<Rightarrow> (fs', w', Inl t)
                           | (fs', Inr saved) \<Rightarrow>
                               if \<not> saved
                               then (fs', w', Inr ([start, ErrorLine (''failed to persist certificate for '' @ domain)], 1))
                               else (fs', w', Inr (start # (case inspect cert_pem of
                                       None \<Rightarrow> []
                                     | Some info \<Rightarrow> [InfoLine (''issued certificate for '' @ domain @ '' (valid '' @
                                         string_of_int (cert_days_remaining now info) @ '' days)'')]), 0))))"

text \<open>remove_all() of a directory that does not exist is no error.\<close>

definition certs_rm :: "path \<Rightarrow> bool \<Rightarrow> parsed_args \<Rightarrow> files \<Rightarrow> files \<times> cli_line list \<times> int" where
  "certs_rm root removable p fs =
     (let domain = operand p 2
      in if domain = [] then (fs, [ErrLine ''usage: hostely certs rm <domain>''], 2)
         else if \<not> removable then (cert_store_remove root domain fs, [ErrorLine (''no certificate stored for '' @ domain)], 1)
         else (cert_store_remove root domain fs, [InfoLine (''removed certificate for '' @ domain)], 0))"

section \<open>hostely proxy\<close>

record proxy_options =
  po_http :: int
  po_https :: int

definition run_proxy :: "parsed_args \<Rightarrow> (cli_line list \<times> int) + proxy_options" where
  "run_proxy p =
     (if subcommand p \<noteq> ''serve''
      then Inl ([ErrLine ''usage: hostely proxy serve [--http N] [--https N]''], if subcommand p = [] then 2 else 1)
      else Inr \<lparr>po_http = int_option p ''http'' 80, po_https = int_option p ''https'' 443\<rparr>)"

section \<open>hostely expose\<close>

definition route_line :: "route \<Rightarrow> cli_line" where
  "route_line r =
     OutLine (rt_host r @ '' -> '' @ rt_target r @ '':'' @ string_of_int (rt_port r) @ (if rt_tls r then '' (tls)'' else '' (plain)''))"

definition run_expose_route ::
  "('j, 'm) json_build_scheme \<Rightarrow> save_env \<Rightarrow> parsed_args \<Rightarrow> route_files \<Rightarrow> route_files \<times> (cli_line list \<times> int) or_throw" where
  "run_expose_route J env p fs =
     (let pos = pa_positionals p; sc = operand p 2
      in if sc = ''list'' \<or> sc = []
         then (let routes = routes_load J (rf_main fs)
               in (fs, Inr ((if routes = [] then [OutLine ''no routes''] else []) @ map route_line routes, 0)))
         else if sc = ''rm''
         then (if length pos < 4 then (fs, Inr ([ErrLine ''usage: hostely expose route rm <host>''], 2))
               else (case route_remove J env (pos ! 3) fs of
                       (fs', Inl t) \<Rightarrow> (fs', Inl t)
                     | (fs', Inr ok) \<Rightarrow>
                         (fs', Inr (if ok then ([InfoLine (''removed route '' @ pos ! 3)], 0)
                                    else ([ErrorLine (''no route for '' @ pos ! 3)], 1)))))
         else (fs, Inr ([ErrLine ''hostely expose route: unknown subcommand''], 2)))"

definition expose_cname ::
  "('j, 'm) json_build_scheme \<Rightarrow> 'w net \<Rightarrow> (string \<Rightarrow> string option) \<Rightarrow> parsed_args \<Rightarrow> string \<Rightarrow> 'w
     \<Rightarrow> 'w \<times> cli_line list" where
  "expose_cname J net env p host w =
     (case get_option p ''cname'' of
        None \<Rightarrow> (w, [])
      | Some cname \<Rightarrow>
          if cname = [] then (w, [])
          else (case dns_token env of
                  None \<Rightarrow> (w, [WarnLine ''no DNS provider configured (set HOSTELY_CF_API_TOKEN); create the CNAME manually''])
                | Some token \<Rightarrow>
                    let (w', ok) = set_cname J net token (two_labels host) host cname w
                    in (w', [if ok then InfoLine (''CNAME '' @ host @ '' -> '' @ cname @ '' created'')
                             else ErrorLine (''CNAME creation failed for '' @ host)])))"

definition expose_usage :: cli_line where
  "expose_usage = ErrLine (''usage: hostely expose <host> <container> [--port N] [--no-tls] [--off] [--cname <target>]'' @ [nl] @
     ''       hostely expose route list|rm <host>'')"

definition run_expose ::
  "('j, 'm) json_build_scheme \<Rightarrow> 'w net \<Rightarrow> (string \<Rightarrow> string option) \<Rightarrow> save_env \<Rightarrow> parsed_args \<Rightarrow> route_files \<Rightarrow> 'w
     \<Rightarrow> route_files \<times> 'w \<times> (cli_line list \<times> int) or_throw" where
  "run_expose J net env se p fs w =
     (if subcommand p = ''route'' then (let (fs', r) = run_expose_route J se p fs in (fs', w, r))
      else let host = operand p 1; container = operand p 2
           in if host = [] \<or> container = [] then (fs, w, Inr ([expose_usage], 2))
              else if has_option p ''off''
              then (case route_remove J se host fs of
                      (fs', Inl t) \<Rightarrow> (fs', w, Inl t)
                    | (fs', Inr ok) \<Rightarrow>
                        (fs', w, Inr ((if ok then [] else [WarnLine (''no route for '' @ host)]) @
                          [InfoLine (''removed route '' @ host)], 0)))
              else let r = \<lparr>rt_host = host, rt_target = container, rt_port = int_option p ''port'' 80,
                            rt_tls = \<not> has_option p ''no-tls''\<rparr>
                   in (case route_add J se r fs of
                         (fs', Inl t) \<Rightarrow> (fs', w, Inl t)
                       | (fs', Inr ok) \<Rightarrow>
                           if \<not> ok then (fs', w, Inr ([ErrorLine ''failed to persist route''], 1))
                           else let (w', ls) = expose_cname J net env p host w
                                in (fs', w', Inr (ls @ [InfoLine (''route added: '' @ host @ '' -> '' @ container @ '':'' @
                                     string_of_int (rt_port r) @ (if rt_tls r then '' (tls)'' else []))], 0))))"

section \<open>hostely tunnel\<close>

record tunnel_request = tunnel_options +
  tr_relay_host :: string
  tr_relay_port :: int

text \<open>--relay with a port, then --port over it.\<close>

definition relay_of :: "parsed_args \<Rightarrow> string \<times> int" where
  "relay_of p =
     (let (host, port) = (case get_option p ''relay'' of
          None \<Rightarrow> ([], 443)
        | Some v \<Rightarrow>
            (case rfind_char (CHR '':'') v of
               None \<Rightarrow> (v, 443)
             | Some colon \<Rightarrow> (take colon v, case stoi (drop (colon + 1) v) of None \<Rightarrow> 443 | Some n \<Rightarrow> n)))
      in (host, int_option p ''port'' port))"

definition local_port_of :: "parsed_args \<Rightarrow> int \<times> bool" where
  "local_port_of p =
     (case get_option p ''local-port'' of
        None \<Rightarrow> (80, False)
      | Some v \<Rightarrow> (case stoi v of None \<Rightarrow> (80, False) | Some n \<Rightarrow> (n, True)))"

definition run_tunnel :: "(string \<Rightarrow> string option) \<Rightarrow> parsed_args \<Rightarrow> (cli_line list \<times> int) + tunnel_request" where
  "run_tunnel env p =
     (let hostname = operand p 1; (relay_host, relay_port) = relay_of p; (local_port, is_set) = local_port_of p;
          local = (case get_option p ''local-host'' of None \<Rightarrow> [] | Some v \<Rightarrow> v)
      in if hostname = []
         then Inl ([ErrLine (''usage: hostely tunnel <hostname> --relay <host> [--port N] [--local-host IP] [--local-port N]'' @
                     [nl] @ ''token is read from $HOSTELY_TUNNEL_TOKEN'')], 2)
         else if relay_host = [] then Inl ([ErrLine ''hostely tunnel: --relay is required''], 2)
         else (case env ''HOSTELY_TUNNEL_TOKEN'' of
                 Some token \<Rightarrow>
                   if token = [] then Inl ([ErrorLine ''HOSTELY_TUNNEL_TOKEN is not set''], 2)
                   else Inr \<lparr>to_token = token, to_hostname = hostname,
                          to_local_host = (if local = [] then ''127.0.0.1'' else local),
                          to_local_port = local_port, to_port_set = is_set,
                          tr_relay_host = relay_host, tr_relay_port = relay_port\<rparr>
               | None \<Rightarrow> Inl ([ErrorLine ''HOSTELY_TUNNEL_TOKEN is not set''], 2)))"

section \<open>hostely router\<close>

text \<open>
  The protocol of a mapping. The value of --proto is an object of the if statement that reads it, and
  the pointer kept is used after it.
\<close>

definition proto_of :: "parsed_args \<Rightarrow> string or_ub" where
  "proto_of p =
     (case get_option p ''proto'' of
        None \<Rightarrow> Inr (if has_option p ''udp'' then ''udp'' else ''tcp'')
      | Some v \<Rightarrow> if v = [] then Inr (if has_option p ''udp'' then ''udp'' else ''tcp'') else Inl UseAfterScope)"

definition mapped_line :: "string \<Rightarrow> string \<Rightarrow> map_result \<Rightarrow> cli_line" where
  "mapped_line ext internal res =
     InfoLine (''mapped :'' @ ext @ '' -> :'' @ internal @ '' ('' @ mr_method res @ '')'' @
       (if mr_public_ip res = [] then [] else '' public_ip='' @ mr_public_ip res))"

definition router_map :: "'w gateway \<Rightarrow> parsed_args \<Rightarrow> 'w \<Rightarrow> ('w \<times> cli_line list \<times> int) or_ub" where
  "router_map G p w =
     (let ext = operand p 2; internal = operand p 3
      in if ext = [] \<or> internal = []
         then Inr (w, [ErrLine ''usage: hostely router map <ext-port> <int-port> [--proto tcp|udp]''], 2)
         else (case (stoi ext, stoi internal) of
                 (Some e, Some i) \<Rightarrow>
                   and_then (proto_of p) (\<lambda>proto.
                     let (w', res) = router_map_port G e i proto w
                     in Inr (if mr_ok res then (w', [mapped_line ext internal res], 0)
                             else (w', [ErrorLine (''port map failed: '' @ mr_error res)], 1)))
               | _ \<Rightarrow> Inr (w, [ErrLine ''hostely router: bad port number''], 2)))"

definition router_unmap :: "'w gateway \<Rightarrow> parsed_args \<Rightarrow> 'w \<Rightarrow> ('w \<times> cli_line list \<times> int) or_ub" where
  "router_unmap G p w =
     (let ext = operand p 2
      in if ext = [] then Inr (w, [ErrLine ''usage: hostely router unmap <ext-port>''], 2)
         else (case stoi ext of
                 None \<Rightarrow> Inl Terminates
               | Some e \<Rightarrow>
                   let (w', ok) = router_unmap_port G e (if has_option p ''udp'' then ''udp'' else ''tcp'') w
                   in Inr (w', [InfoLine (if ok then ''unmapped :'' @ ext
                        else ''unmap not acknowledged (may be already gone)'')], 0)))"

definition router_status :: "'w gateway \<Rightarrow> 'w \<Rightarrow> ('w \<times> cli_line list \<times> int) or_ub" where
  "router_status G w =
     (let (w', ip) = router_public_ip G w
      in Inr (w', [OutLine (if ip = [] then ''public IP: unknown (NAT-PMP unavailable)'' else ''public IP: '' @ ip)], 0))"

text \<open>What watch is started with: the domain, the zone and the seconds between two cycles.\<close>

definition watch_request :: "parsed_args \<Rightarrow> (cli_line list \<times> int) + string \<times> string \<times> int" where
  "watch_request p =
     (let domain = operand p 2; interval = int_option p ''interval'' 300
      in if domain = [] then Inl ([ErrLine ''usage: hostely router watch <domain> [--zone Z] [--interval S]''], 2)
         else Inr (domain, case get_option p ''zone'' of None \<Rightarrow> [] | Some z \<Rightarrow> z, if 0 < interval then interval else 300))"

definition run_router :: "'w gateway \<Rightarrow> parsed_args \<Rightarrow> 'w \<Rightarrow> ('w \<times> cli_line list \<times> int) or_ub + string \<times> string \<times> int" where
  "run_router G p w =
     (let sc = subcommand p
      in if sc = ''map'' then Inl (router_map G p w)
         else if sc = ''unmap'' then Inl (router_unmap G p w)
         else if sc = ''status'' then Inl (router_status G w)
         else if sc = ''watch''
         then (case watch_request p of Inl r \<Rightarrow> Inl (Inr (w, fst r, snd r)) | Inr req \<Rightarrow> Inr req)
         else Inl (Inr (w, [ErrLine (''hostely router: unknown subcommand '' @ [squote] @ sc @ [squote])], 2)))"

section \<open>From the command line to the route of a request\<close>

lemma rebuild_routes_at:
  "rebuild_routes rs h = map_of (rev (map (\<lambda>r. (lc (rt_host r), rt_target r, rt_port r)) rs)) h"
  unfolding rebuild_routes_def
  by (induction rs rule: rev_induct) simp_all

lemma map_of_unique:
  "\<forall>kv \<in> set kvs. fst kv = k \<longrightarrow> snd kv = v \<Longrightarrow> k \<in> fst ` set kvs \<Longrightarrow> map_of kvs k = Some v"
  by (induction kvs) auto

lemma set_put_route:
  "e \<in> set (put_route rs r) \<Longrightarrow> e = r \<or> e \<in> set rs \<and> rt_host e \<noteq> rt_host r"
  "r \<in> set (put_route rs r)"
  by (auto simp: put_route_def Let_def split: if_splits)

lemma rebuild_put:
  assumes "\<forall>e \<in> set rs. rt_host e \<noteq> rt_host r \<longrightarrow> lc (rt_host e) \<noteq> lc (rt_host r)"
  shows "rebuild_routes (put_route rs r) (lc (rt_host r)) = Some (rt_target r, rt_port r)"
  unfolding rebuild_routes_at
proof (rule map_of_unique)
  show "\<forall>kv \<in> set (rev (map (\<lambda>r. (lc (rt_host r), rt_target r, rt_port r)) (put_route rs r))).
      fst kv = lc (rt_host r) \<longrightarrow> snd kv = (rt_target r, rt_port r)"
    using assms by (auto dest!: set_put_route(1))
  show "lc (rt_host r) \<in> fst ` set (rev (map (\<lambda>r. (lc (rt_host r), rt_target r, rt_port r)) (put_route rs r)))"
    using set_put_route(2) by (force simp: image_iff)
qed



end
