(* ===== verification/Models.thy ===== *)
theory Models
  imports Json Args Resources
begin

text \<open>
  models/registry.cpp and models/pull.cpp: the sidecar manifests of downloaded models, the lookup of
  a model by name, and the choice of what to download and where to.

  Paths are strings. The file system, the TOML library, curl and the clock are arguments.
\<close>

section \<open>Paths\<close>

definition path_name :: "string \<Rightarrow> string" where
  "path_name p = (case rfind_char (CHR ''/'') p of None \<Rightarrow> p | Some i \<Rightarrow> drop (i + 1) p)"

definition path_parent :: "string \<Rightarrow> string" where
  "path_parent p =
     (case rfind_char (CHR ''/'') p of None \<Rightarrow> [] | Some i \<Rightarrow> if i = 0 then ''/'' else take i p)"

text \<open>The last dot of a file name, unless the name begins with it.\<close>

definition dot_at :: "string \<Rightarrow> nat option" where
  "dot_at n =
     (case rfind_char (CHR ''.'') n of None \<Rightarrow> None | Some i \<Rightarrow> if i = 0 \<or> n = ''..'' then None else Some i)"

definition path_stem :: "string \<Rightarrow> string" where
  "path_stem p = (let n = path_name p in case dot_at n of None \<Rightarrow> n | Some i \<Rightarrow> take i n)"

definition path_ext :: "string \<Rightarrow> string" where
  "path_ext p = (let n = path_name p in case dot_at n of None \<Rightarrow> [] | Some i \<Rightarrow> drop i n)"

definition is_absolute :: "string \<Rightarrow> bool" where
  "is_absolute p \<longleftrightarrow> p \<noteq> [] \<and> hd p = CHR ''/''"

definition path_join :: "string \<Rightarrow> string \<Rightarrow> string" where
  "path_join d f = (if is_absolute f \<or> d = [] then f else if ends_with ''/'' d then d @ f else d @ ''/'' @ f)"

section \<open>Manifests\<close>

record manifest =
  mf_path :: string
  mf_manifest_path :: string
  mf_source :: string
  mf_repo :: string
  mf_quant :: string
  mf_filename :: string
  mf_size :: u64
  mf_license :: string
  mf_pulled_at :: string

definition no_manifest :: manifest where
  "no_manifest = \<lparr>mf_path = [], mf_manifest_path = [], mf_source = [], mf_repo = [], mf_quant = [],
     mf_filename = [], mf_size = 0, mf_license = [], mf_pulled_at = []\<rparr>"

definition valid_stem_char :: "char \<Rightarrow> bool" where
  "valid_stem_char c \<longleftrightarrow> is_alnum c \<or> c = CHR ''.'' \<or> c = CHR ''_'' \<or> c = CHR ''-''"

definition clean_segment :: "string \<Rightarrow> string" where
  "clean_segment s = map (\<lambda>c. if valid_stem_char c then c else CHR ''_'') s"

definition make_stem :: "string \<Rightarrow> string \<Rightarrow> string" where
  "make_stem repo quant = clean_segment repo @ ''--'' @ clean_segment quant"

definition sidecar_for :: "string \<Rightarrow> string \<Rightarrow> string" where
  "sidecar_for dir stem = path_join dir (stem @ ''.toml'')"

text \<open>A TOML table as value_or() reads it: a missing key and a value of another type give the default,
  and so does a negative number where an unsigned one is wanted.\<close>

datatype toml_value = TomlStr string | TomlInt int

type_synonym toml = "(string \<times> toml_value) list"

definition toml_str :: "toml \<Rightarrow> string \<Rightarrow> string" where
  "toml_str t k = (case map_of t k of Some (TomlStr s) \<Rightarrow> s | _ \<Rightarrow> [])"

definition toml_u64 :: "toml \<Rightarrow> string \<Rightarrow> u64" where
  "toml_u64 t k = (case map_of t k of Some (TomlInt i) \<Rightarrow> if 0 \<le> i then word_of_int i else 0 | _ \<Rightarrow> 0)"

record fs_env =
  fe_exists :: "string \<Rightarrow> bool"
  fe_parse :: "string \<Rightarrow> toml option"
  fe_dir :: "string \<Rightarrow> string list option"
  fe_relative :: "string \<Rightarrow> string \<Rightarrow> string option"
  fe_canonical :: "string \<Rightarrow> string"
  fe_absolute :: "string \<Rightarrow> string"
  fe_size :: "string \<Rightarrow> u64"

text \<open>A relative path belongs to the directory of the sidecar; one that leads to no file is blanked.\<close>

definition anchored :: "fs_env \<Rightarrow> string \<Rightarrow> string \<Rightarrow> string" where
  "anchored E manifest_path p =
     (let q = (if p \<noteq> [] \<and> \<not> is_absolute p then path_join (path_parent manifest_path) p else p)
      in if q \<noteq> [] \<and> \<not> fe_exists E q then [] else q)"

definition manifest_of :: "fs_env \<Rightarrow> string \<Rightarrow> toml \<Rightarrow> manifest" where
  "manifest_of E manifest_path t =
     (let p = anchored E manifest_path (toml_str t ''path''); f = toml_str t ''filename''
      in \<lparr>mf_path = p, mf_manifest_path = manifest_path, mf_source = toml_str t ''source'',
          mf_repo = toml_str t ''repo'', mf_quant = toml_str t ''quant'',
          mf_filename = (if f = [] \<and> p \<noteq> [] then path_name p else f),
          mf_size = toml_u64 t ''size_bytes'', mf_license = toml_str t ''license'',
          mf_pulled_at = toml_str t ''pulled_at''\<rparr>)"

definition read_manifest :: "fs_env \<Rightarrow> string \<Rightarrow> manifest option" where
  "read_manifest E manifest_path =
     (if \<not> fe_exists E manifest_path then None
      else map_option (manifest_of E manifest_path) (fe_parse E manifest_path))"

definition stored_path :: "fs_env \<Rightarrow> manifest \<Rightarrow> string" where
  "stored_path E m =
     (if mf_path m \<noteq> [] \<and> mf_manifest_path m \<noteq> []
      then (case fe_relative E (mf_path m) (path_parent (mf_manifest_path m)) of
              None \<Rightarrow> mf_path m
            | Some rel \<Rightarrow> if rel \<noteq> [] \<and> hd rel \<noteq> CHR ''.'' then rel else mf_path m)
      else mf_path m)"

definition field :: "string \<Rightarrow> string \<Rightarrow> toml" where
  "field k s = (if s = [] then [] else [(k, TomlStr s)])"

text \<open>The table write_manifest() prints.\<close>

definition manifest_toml :: "fs_env \<Rightarrow> manifest \<Rightarrow> toml" where
  "manifest_toml E m =
     [(''path'', TomlStr (stored_path E m))] @ field ''source'' (mf_source m) @ field ''repo'' (mf_repo m) @
     field ''quant'' (mf_quant m) @ field ''filename'' (mf_filename m) @
     (if mf_size m = 0 then [] else [(''size_bytes'', TomlInt (sint (mf_size m)))]) @
     field ''license'' (mf_license m) @ field ''pulled_at'' (mf_pulled_at m)"

section \<open>The registry\<close>

definition add_listed :: "fs_env \<Rightarrow> string \<Rightarrow> (string \<times> manifest) list \<Rightarrow> string \<Rightarrow> (string \<times> manifest) list" where
  "add_listed E dir acc n =
     (if path_ext n \<noteq> ''.toml'' then acc
      else case read_manifest E (path_join dir n) of None \<Rightarrow> acc | Some m \<Rightarrow> put_sorted n m acc)"

text \<open>The manifests of a directory in the order of their file names.\<close>

definition list_models :: "fs_env \<Rightarrow> string \<Rightarrow> manifest list" where
  "list_models E dir =
     (case fe_dir E dir of None \<Rightarrow> [] | Some names \<Rightarrow> map snd (foldl (add_listed E dir) [] names))"

definition model_stem :: "manifest \<Rightarrow> string" where
  "model_stem m = path_stem (mf_manifest_path m)"

definition resolve_path :: "fs_env \<Rightarrow> string \<Rightarrow> string \<Rightarrow> string + manifest" where
  "resolve_path E dir name =
     (if \<not> fe_exists E name then Inl (''model file not found: '' @ name)
      else case find (\<lambda>m. mf_path m \<noteq> [] \<and> fe_canonical E (mf_path m) = fe_canonical E name) (list_models E dir) of
             Some m \<Rightarrow> Inr m
           | None \<Rightarrow>
               let p = fe_absolute E name
               in Inr (no_manifest\<lparr>mf_path := p, mf_filename := path_name name,
                      mf_size := (if fe_exists E p then fe_size E p else 0)\<rparr>))"

definition resolve_name :: "manifest list \<Rightarrow> string \<Rightarrow> string + manifest" where
  "resolve_name models name =
     (case find (\<lambda>m. model_stem m = name) models of
        Some m \<Rightarrow> Inr m
      | None \<Rightarrow>
          (case filter (\<lambda>m. starts_with (lc name) (lc (model_stem m))) models of
             [m] \<Rightarrow> Inr m
           | [] \<Rightarrow> Inl (''no model in registry matches '' @ [squote] @ name @ [squote] @ ''.'' @ [nl] @
                       ''  Try `hostely models list` or pass an absolute .gguf path.'')
           | hits \<Rightarrow> Inl ([squote] @ name @ [squote] @ '' is ambiguous; matches '' @ digits_of (length hits) @
                       '' models. Be more specific.'')))"

definition resolve_model :: "fs_env \<Rightarrow> string \<Rightarrow> string \<Rightarrow> string + manifest" where
  "resolve_model E dir name =
     (if CHR ''/'' \<in> set name then resolve_path E dir name else resolve_name (list_models E dir) name)"

section \<open>What is to be pulled\<close>

definition recognised_quants :: "string list" where
  "recognised_quants =
     [''F32'', ''F16'', ''Q8_0'', ''Q6_K'', ''Q5_K_L'', ''Q5_K_M'', ''Q5_K_S'', ''Q5_1'', ''Q5_0'',
      ''Q4_K_L'', ''Q4_K_M'', ''Q4_K_S'', ''Q4_1'', ''Q4_0'', ''Q3_K_L'', ''Q3_K_M'', ''Q3_K_S'', ''Q3_K_XS'',
      ''Q2_K'', ''Q2_K_S'', ''IQ4_XS'', ''IQ4_NL'', ''IQ3_XS'', ''IQ3_XXS'', ''IQ2_M'', ''IQ2_XS'', ''IQ2_XXS'',
      ''IQ1_M'', ''BF16'']"

record resolved =
  rs_kind :: string
  rs_repo :: string
  rs_quant :: string
  rs_file :: string
  rs_url :: string

definition looks_like_url :: "string \<Rightarrow> bool" where
  "looks_like_url s \<longleftrightarrow> starts_with ''http://'' s \<or> starts_with ''https://'' s"

definition quant_suffix :: "string \<Rightarrow> string" where
  "quant_suffix q = ''.'' @ q @ ''.gguf''"

definition url_quant :: "string \<Rightarrow> string" where
  "url_quant f =
     (case find (\<lambda>q. length (quant_suffix q) < length f \<and> ends_with (quant_suffix q) f) recognised_quants of
        None \<Rightarrow> [] | Some q \<Rightarrow> q)"

text \<open>Without a quantization: a repository, or a file of one, named by what follows the last slash.\<close>

definition resolve_repo :: "string \<Rightarrow> nat \<Rightarrow> resolved option" where
  "resolve_repo operand first_slash =
     (case find_char_at (CHR ''/'') operand (first_slash + 1) of
        None \<Rightarrow> Some \<lparr>rs_kind = ''repo-quant'', rs_repo = operand, rs_quant = ''Q4_K_M'', rs_file = [], rs_url = []\<rparr>
      | Some _ \<Rightarrow>
          (case rfind_char (CHR ''/'') operand of
             None \<Rightarrow> None
           | Some l \<Rightarrow>
               Some \<lparr>rs_kind = ''repo-file'', rs_repo = take l operand, rs_quant = [], rs_file = drop (l + 1) operand,
                 rs_url = ''https://huggingface.co/'' @ take l operand @ ''/resolve/main/'' @ drop (l + 1) operand\<rparr>))"

definition resolve_operand :: "string \<Rightarrow> resolved option" where
  "resolve_operand operand =
     (if looks_like_url operand
      then let f = (case rfind_char (CHR ''/'') operand of None \<Rightarrow> ''model.gguf'' | Some i \<Rightarrow> drop (i + 1) operand)
           in Some \<lparr>rs_kind = ''url'', rs_repo = [], rs_quant = url_quant f, rs_file = f, rs_url = operand\<rparr>
      else case find_char (CHR ''/'') operand of
             None \<Rightarrow> None
           | Some first_slash \<Rightarrow>
               (case find_char (CHR '':'') operand of
                  Some colon \<Rightarrow>
                    if first_slash < colon
                    then Some \<lparr>rs_kind = ''repo-quant'', rs_repo = take colon operand,
                           rs_quant = drop (colon + 1) operand, rs_file = [], rs_url = []\<rparr>
                    else resolve_repo operand first_slash
                | None \<Rightarrow> resolve_repo operand first_slash))"

section \<open>The file of a repository\<close>

record sibling =
  sb_name :: string
  sb_size :: u64

text \<open>The files of the API's answer, None where the code reports a failure.\<close>

fun siblings_each :: "('j, 'm) json_api_scheme \<Rightarrow> ('j \<Rightarrow> string \<Rightarrow> u64 or_throw) \<Rightarrow> 'j list \<Rightarrow> sibling list or_throw" where
  "siblings_each J size_at [] = Inr []"
| "siblings_each J size_at (s # ss) =
     (if j_get J s ''rfilename'' = None then siblings_each J size_at ss
      else and_then (j_value_str J s ''rfilename'' []) (\<lambda>f.
             if f = [] then siblings_each J size_at ss
             else and_then (size_at s ''size'') (\<lambda>n.
                  and_then (siblings_each J size_at ss) (\<lambda>rest. Inr (\<lparr>sb_name = f, sb_size = n\<rparr> # rest)))))"

definition parse_api_json ::
  "('j, 'm) json_api_scheme \<Rightarrow> ('j \<Rightarrow> string \<Rightarrow> u64 or_throw) \<Rightarrow> string \<Rightarrow> sibling list option" where
  "parse_api_json J size_at body =
     (case j_parse J body of
        Inl _ \<Rightarrow> None
      | Inr j \<Rightarrow>
          (case j_get J j ''siblings'' of
             None \<Rightarrow> None
           | Some s \<Rightarrow>
               if \<not> j_is_array J s then None
               else (case siblings_each J size_at (j_items J s) of
                       Inl _ \<Rightarrow> None | Inr out \<Rightarrow> if out = [] then None else Some out)))"

definition is_gguf :: "string \<Rightarrow> bool" where
  "is_gguf f \<longleftrightarrow> 5 \<le> length f \<and> ends_with ''.gguf'' f"

definition ends_with_quant :: "string \<Rightarrow> string \<Rightarrow> bool" where
  "ends_with_quant f q \<longleftrightarrow>
     length q + 7 \<le> length f \<and> substr f (length f - 5 - length q) (length q) = q \<and>
     f ! (length f - 5 - length q - 1) = CHR ''.'' \<and> ends_with ''.gguf'' f"

text \<open>The pass over the candidates that keeps one and takes another that is better.\<close>

definition best_step :: "(u64 \<Rightarrow> u64 \<Rightarrow> bool) \<Rightarrow> (string \<Rightarrow> bool) \<Rightarrow> sibling list \<Rightarrow> nat option \<Rightarrow> nat \<Rightarrow> nat option" where
  "best_step better wanted sibs best i =
     (if wanted (sb_name (sibs ! i))
      then (case best of None \<Rightarrow> Some i | Some b \<Rightarrow> if better (sb_size (sibs ! i)) (sb_size (sibs ! b)) then Some i else best)
      else best)"

definition best_by :: "(u64 \<Rightarrow> u64 \<Rightarrow> bool) \<Rightarrow> (string \<Rightarrow> bool) \<Rightarrow> sibling list \<Rightarrow> nat list \<Rightarrow> nat option" where
  "best_by better wanted sibs idx = foldl (best_step better wanted sibs) None idx"

definition gguf_idx :: "sibling list \<Rightarrow> nat list" where
  "gguf_idx sibs = filter (\<lambda>i. is_gguf (sb_name (sibs ! i))) [0..<length sibs]"

definition any_quant :: "string \<Rightarrow> bool" where
  "any_quant f \<longleftrightarrow> list_ex (ends_with_quant f) recognised_quants"

definition pick_sibling :: "sibling list \<Rightarrow> string \<Rightarrow> nat option" where
  "pick_sibling sibs quant =
     (let idx = gguf_idx sibs
      in case best_by (\<lambda>a b. b < a) (\<lambda>f. ends_with_quant f quant) sibs idx of
           Some i \<Rightarrow> Some i
         | None \<Rightarrow>
             (case best_by (\<lambda>a b. a < b) any_quant sibs idx of
                Some i \<Rightarrow> Some i
              | None \<Rightarrow> best_by (\<lambda>a b. b < a) (\<lambda>_. True) sibs idx))"

definition available_files :: "sibling list \<Rightarrow> (string \<times> u64) list" where
  "available_files sibs = map (\<lambda>s. (sb_name s, sb_size s)) (filter (\<lambda>s. is_gguf (sb_name s)) sibs)"

text \<open>The quantization of the file that was chosen.\<close>

definition chosen_quant :: "string \<Rightarrow> string" where
  "chosen_quant f = (case find (\<lambda>q. ends_with (quant_suffix q) f) recognised_quants of None \<Rightarrow> ''unknown'' | Some q \<Rightarrow> q)"

definition extract_license :: "('j, 'm) json_api_scheme \<Rightarrow> string \<Rightarrow> string" where
  "extract_license J body =
     (case j_parse J body of
        Inl _ \<Rightarrow> []
      | Inr j \<Rightarrow>
          (case j_get J j ''cardData'' of
             None \<Rightarrow> []
           | Some c \<Rightarrow>
               if \<not> j_is_object J c then []
               else (case j_get J c ''license'' of
                       None \<Rightarrow> [] | Some l \<Rightarrow> if j_is_string J l then j_text J l else [])))"

section \<open>Where it goes\<close>

text \<open>The first two segments of the path of a URL.\<close>

definition url_segments :: "string \<Rightarrow> string \<times> string" where
  "url_segments url =
     (let path = (case find_str ''://'' url of None \<Rightarrow> url | Some i \<Rightarrow> drop (i + 3) url);
          rest = (case find_char (CHR ''/'') path of None \<Rightarrow> [] | Some i \<Rightarrow> drop (i + 1) path);
          rest1 = dropWhile (\<lambda>c. c = CHR ''/'') rest
      in case find_char (CHR ''/'') rest1 of
           None \<Rightarrow> (rest1, [])
         | Some i \<Rightarrow>
             let rest2 = drop (i + 1) rest1
             in (take i rest1, case find_char (CHR ''/'') rest2 of None \<Rightarrow> rest2 | Some k \<Rightarrow> take k rest2))"

definition pull_stem :: "resolved \<Rightarrow> string" where
  "pull_stem r =
     (if rs_repo r = []
      then let (a, b) = url_segments (rs_url r)
           in (if a = [] then ''url'' else a) @ ''--'' @ (if b = [] then ''file'' else b) @ ''--'' @
              (if rs_quant r = [] then ''url'' else rs_quant r)
      else make_stem (rs_repo r) (rs_quant r))"

section \<open>The download\<close>

record 'w pull_os =
  po_curl :: "'w \<Rightarrow> string list \<Rightarrow> 'w \<times> cli_result"
  po_exists :: "'w \<Rightarrow> string \<Rightarrow> bool"
  po_size :: "'w \<Rightarrow> string \<Rightarrow> u64"
  po_rename :: "'w \<Rightarrow> string \<Rightarrow> string \<Rightarrow> 'w \<times> string option"
  po_remove :: "'w \<Rightarrow> string \<Rightarrow> 'w"
  po_write :: "'w \<Rightarrow> manifest \<Rightarrow> 'w \<times> bool"
  po_absolute :: "string \<Rightarrow> string"
  po_now :: string

record pull_result =
  pr_ok :: bool
  pr_message :: string
  pr_available :: "(string \<times> u64) list"
  pr_manifest :: manifest

text \<open>
  sscanf() with "%ld:%llu:%lf": the numbers it has read before it stops, and whether it read all
  three. The third is only read.
\<close>

definition scan_int :: "string \<Rightarrow> (int \<times> string) option" where
  "scan_int s =
     (case int_prefix s of
        None \<Rightarrow> None
      | Some v \<Rightarrow>
          let t = ltrim s; u = (if hd t = CHR ''-'' \<or> hd t = CHR ''+'' then tl t else t)
          in Some (v, dropWhile is_digit u))"

definition scans_double :: "string \<Rightarrow> bool" where
  "scans_double s =
     (let t = ltrim s; u = (if t \<noteq> [] \<and> (hd t = CHR ''-'' \<or> hd t = CHR ''+'') then tl t else t);
          v = (if u \<noteq> [] \<and> hd u = CHR ''.'' then tl u else u)
      in v \<noteq> [] \<and> is_digit (hd v))"

definition scan_marker :: "int \<Rightarrow> u64 \<Rightarrow> string \<Rightarrow> bool \<times> int \<times> u64" where
  "scan_marker code bytes rest =
     (case scan_int rest of
        None \<Rightarrow> (False, code, bytes)
      | Some (c, r1) \<Rightarrow>
          if r1 = [] \<or> hd r1 \<noteq> CHR '':'' then (False, c, bytes)
          else (case scan_int (tl r1) of
                  None \<Rightarrow> (False, c, bytes)
                | Some (b, r2) \<Rightarrow>
                    (r2 \<noteq> [] \<and> hd r2 = CHR '':'' \<and> scans_double (tl r2), c, word_of_int b)))"

definition marker :: string where
  "marker = ''hostely_marker:''"

text \<open>The last line with the marker decides whether one was seen.\<close>

definition read_marker :: "string \<Rightarrow> bool \<times> int \<times> u64" where
  "read_marker out =
     foldl (\<lambda>(seen, code, bytes) line.
       case find_str marker line of
         None \<Rightarrow> (seen, code, bytes)
       | Some pos \<Rightarrow> scan_marker code bytes (drop (pos + length marker) line))
     (False, -1, 0) (lines_of out)"

definition pull_failed :: "string \<Rightarrow> (string \<times> u64) list \<Rightarrow> pull_result" where
  "pull_failed msg available = \<lparr>pr_ok = False, pr_message = msg, pr_available = available, pr_manifest = no_manifest\<rparr>"

text \<open>
  The metadata of a repository and the file chosen from it: the request completed by the file, its URL
  and its quantization, with the size the API gives and the license.
\<close>

definition choose_file ::
  "('j, 'm) json_api_scheme \<Rightarrow> ('j \<Rightarrow> string \<Rightarrow> u64 or_throw) \<Rightarrow> 'w pull_os \<Rightarrow> resolved \<Rightarrow> 'w
     \<Rightarrow> 'w \<times> (pull_result + resolved \<times> u64 \<times> string)" where
  "choose_file J size_at P r w =
     (if rs_kind r \<noteq> ''repo-quant'' then (w, Inr (r, 0, []))
      else let (w1, api) = po_curl P w [''/usr/bin/curl'', ''-fsSL'', ''--connect-timeout'', ''15'', ''--max-time'', ''30'',
                 ''https://huggingface.co/api/models/'' @ rs_repo r @ ''?blobs=true'']
           in if \<not> started api \<or> exit_code api \<noteq> 0
              then (w1, Inl (pull_failed (''huggingface.co model API failed: '' @ stderr_text api @ '' (HTTP '' @
                     string_of_int (exit_code api) @ '')'') []))
              else (case parse_api_json J size_at (stdout_text api) of
                      None \<Rightarrow> (w1, Inl (pull_failed (''could not parse Hugging Face model metadata for '' @
                        [squote] @ rs_repo r @ [squote] @ ''.'') []))
                    | Some sibs \<Rightarrow>
                        (case pick_sibling sibs (rs_quant r) of
                           None \<Rightarrow> (w1, Inl (pull_failed (''no GGUF files found in '' @ [squote] @ rs_repo r @ [squote] @ ''.'')
                             (available_files sibs)))
                         | Some i \<Rightarrow>
                             let f = sb_name (sibs ! i)
                             in (w1, Inr (r\<lparr>rs_file := f,
                                  rs_url := ''https://huggingface.co/'' @ rs_repo r @ ''/resolve/main/'' @ f,
                                  rs_quant := chosen_quant f\<rparr>, sb_size (sibs ! i), extract_license J (stdout_text api))))))"

definition pulled_manifest :: "'w pull_os \<Rightarrow> resolved \<Rightarrow> string \<Rightarrow> string \<Rightarrow> u64 \<Rightarrow> string \<Rightarrow> manifest" where
  "pulled_manifest P r dest sidecar sz license =
     \<lparr>mf_path = po_absolute P dest, mf_manifest_path = po_absolute P sidecar, mf_source = rs_url r,
      mf_repo = rs_repo r, mf_quant = rs_quant r, mf_filename = rs_file r, mf_size = sz,
      mf_license = license, mf_pulled_at = po_now P\<rparr>"

definition download_argv :: "string \<Rightarrow> string \<Rightarrow> string list" where
  "download_argv tmp url =
     [''/usr/bin/curl'', ''-fL'', ''--connect-timeout'', ''15'', ''--retry'', ''3'', ''-C'', ''-'', ''-o'', tmp, ''-w'',
      [nl] @ marker @ ''%{http_code}:%{size_download}:%{time_total}'' @ [nl], url]"

definition download ::
  "'w pull_os \<Rightarrow> resolved \<Rightarrow> string \<Rightarrow> string \<Rightarrow> u64 \<Rightarrow> string \<Rightarrow> 'w \<Rightarrow> 'w \<times> pull_result" where
  "download P r dest sidecar sz license w =
     (let tmp = dest @ ''.tmp''; (w1, dl) = po_curl P w (download_argv tmp (rs_url r));
          (seen, code, bytes) = read_marker (stdout_text dl)
      in if \<not> started dl then (w1, pull_failed ''could not launch /usr/bin/curl'' [])
         else if exit_code dl \<noteq> 0 \<or> \<not> seen \<or> 400 \<le> code
         then (po_remove P w1 tmp, pull_failed (''curl exited '' @ string_of_int (exit_code dl) @ '' (HTTP '' @
                string_of_int code @ '')'' @ [nl] @ stderr_text dl) [])
         else (case po_rename P w1 tmp dest of
                 (w2, Some why) \<Rightarrow> (w2, pull_failed (''could not move downloaded file into place: '' @ why) [])
               | (w2, None) \<Rightarrow>
                   let m = pulled_manifest P r dest sidecar (if sz = 0 then bytes else sz) license;
                       (w3, ok) = po_write P w2 m
                   in (w3, \<lparr>pr_ok = True, pr_message = [], pr_available = [],
                        pr_manifest = (if ok then m else m\<lparr>mf_manifest_path := []\<rparr>)\<rparr>)))"

definition pull ::
  "('j, 'm) json_api_scheme \<Rightarrow> ('j \<Rightarrow> string \<Rightarrow> u64 or_throw) \<Rightarrow> 'w pull_os \<Rightarrow> string \<Rightarrow> string \<Rightarrow> 'w
     \<Rightarrow> 'w \<times> pull_result" where
  "pull J size_at P operand dir w =
     (case resolve_operand operand of
        None \<Rightarrow> (w, pull_failed (''could not interpret '' @ [squote] @ operand @ [squote] @
          '' as a Hugging Face repo, a `repo:quant` selector, or a direct URL.'') [])
      | Some r0 \<Rightarrow>
          (case choose_file J size_at P r0 w of
             (w1, Inl failed) \<Rightarrow> (w1, failed)
           | (w1, Inr (r, sz, license)) \<Rightarrow>
               let dest = path_join dir (rs_file r); sidecar = sidecar_for dir (pull_stem r)
               in if po_exists P w1 dest \<and> po_exists P w1 sidecar \<and> sz \<noteq> 0 \<and> po_size P w1 dest = sz
                  then let m = pulled_manifest P r dest sidecar sz license; (w2, ok) = po_write P w1 m
                       in if ok then (w2, \<lparr>pr_ok = True, pr_message = [], pr_available = [], pr_manifest = m\<rparr>)
                          else download P r dest sidecar sz license w2
                  else download P r dest sidecar sz license w1))"

section \<open>hostely models\<close>

text \<open>The commands but pull: the lines printed, the messages, the files removed and the exit code.\<close>

record models_outcome =
  mo_out :: "string list"
  mo_error :: "string option"
  mo_removed :: "string list"
  mo_code :: int

definition pad_right :: "nat \<Rightarrow> string \<Rightarrow> string" where
  "pad_right n s = s @ replicate (n - length s) (CHR '' '')"

definition model_row :: "string \<Rightarrow> string \<Rightarrow> string \<Rightarrow> string \<Rightarrow> string" where
  "model_row a b c d = pad_right 50 a @ ''  '' @ pad_right 9 b @ ''  '' @ pad_right 12 c @ ''  '' @ d"

definition listed_row :: "manifest \<Rightarrow> string" where
  "listed_row m =
     (let n = model_stem m
      in model_row (if 50 < length n then take 47 n @ ''...'' else n)
           (if mf_quant m = [] then ''-'' else mf_quant m)
           (if mf_size m = 0 then ''-'' else human_bytes (mf_size m))
           (if mf_license m = [] then ''-'' else mf_license m))"

definition no_models :: string where
  "no_models = ''(no models in registry '' @ [CHR 0xE2, CHR 0x80, CHR 0x94] @ '' `hostely models pull` to add one)''"

definition models_usage :: string where
  "models_usage =
     ''Usage: hostely models <subcommand> [args]'' @ [nl, nl] @ ''Subcommands:'' @ [nl] @
     ''  pull <repo>[:quant] | <url>     download a GGUF (Phase 7a)'' @ [nl] @
     ''  list                              show registry contents'' @ [nl] @
     ''  path <name>                       print the resolved path'' @ [nl] @
     ''  rm <name>                         remove a model + its sidecar'' @ [nl]"

definition models_done :: "string list \<Rightarrow> string list \<Rightarrow> models_outcome" where
  "models_done out removed = \<lparr>mo_out = out, mo_error = None, mo_removed = removed, mo_code = 0\<rparr>"

definition models_failed :: "string \<Rightarrow> int \<Rightarrow> models_outcome" where
  "models_failed msg code = \<lparr>mo_out = [], mo_error = Some msg, mo_removed = [], mo_code = code\<rparr>"

definition run_models :: "fs_env \<Rightarrow> string \<Rightarrow> parsed_args \<Rightarrow> models_outcome option" where
  "run_models E dir p =
     (case operands p of
        [] \<Rightarrow> Some (models_failed models_usage 2)
      | sc # rest \<Rightarrow>
          if sc = ''list''
          then Some (case list_models E dir of
                 [] \<Rightarrow> models_done [no_models] []
               | ms \<Rightarrow> models_done (model_row ''NAME'' ''QUANT'' ''SIZE'' ''LICENSE'' # map listed_row ms) [])
          else if sc = ''path''
          then Some (case rest of
                 [] \<Rightarrow> models_failed ''Usage: hostely models path <name>'' 2
               | name # _ \<Rightarrow>
                   (case resolve_model E dir name of
                      Inl err \<Rightarrow> models_failed err 1
                    | Inr m \<Rightarrow>
                        if mf_path m = []
                        then models_failed (''matched manifest, but the .gguf file is missing: '' @ mf_manifest_path m) 1
                        else models_done [mf_path m] []))
          else if sc = ''rm''
          then Some (case rest of
                 [] \<Rightarrow> models_failed ''Usage: hostely models rm <name>'' 2
               | name # _ \<Rightarrow>
                   (case resolve_model E dir name of
                      Inl err \<Rightarrow> models_failed err 1
                    | Inr m \<Rightarrow>
                        models_done [''removed '' @ name]
                          ((if mf_manifest_path m = [] then [] else [mf_manifest_path m]) @
                           (if mf_path m = [] then [] else [mf_path m]))))
          else if sc = ''pull'' \<and> rest \<noteq> [] then None
          else if sc = ''pull'' then Some (models_failed ''Usage: hostely models pull <repo>[:quant] | <url>'' 2)
          else Some (models_failed (''unknown models subcommand: '' @ [squote] @ sc @ [squote]) 2))"

text \<open>What pull prints: the files of a repository when the choice failed, and how it ended.\<close>

definition models_pull :: "pull_result \<Rightarrow> models_outcome" where
  "models_pull r =
     (if pr_ok r then models_done [''saved -> '' @ mf_path (pr_manifest r)] []
      else \<lparr>mo_out = (if pr_available r = [] then []
              else ''available files in this repo:'' #
                   map (\<lambda>(f, n). ''  '' @ f @ ''  ('' @ digits_of (unat n) @ '' bytes)'') (pr_available r)),
            mo_error = Some (''pull failed: '' @ pr_message r), mo_removed = [], mo_code = 1\<rparr>)"

section \<open>What is chosen\<close>

text \<open>What a pass has found: nothing when nothing is wanted, and otherwise the first of the best.\<close>

definition first_best :: "(u64 \<Rightarrow> u64 \<Rightarrow> bool) \<Rightarrow> (string \<Rightarrow> bool) \<Rightarrow> sibling list \<Rightarrow> nat list \<Rightarrow> nat option \<Rightarrow> bool" where
  "first_best better wanted sibs idx found \<longleftrightarrow>
     (case found of
        None \<Rightarrow> \<forall>i \<in> set idx. \<not> wanted (sb_name (sibs ! i))
      | Some b \<Rightarrow> b \<in> set idx \<and> wanted (sb_name (sibs ! b)) \<and>
          (\<forall>i \<in> set idx. wanted (sb_name (sibs ! i)) \<longrightarrow> \<not> better (sb_size (sibs ! i)) (sb_size (sibs ! b)) \<and>
             (i < b \<longrightarrow> better (sb_size (sibs ! b)) (sb_size (sibs ! i)))))"

definition strict_weak :: "(u64 \<Rightarrow> u64 \<Rightarrow> bool) \<Rightarrow> bool" where
  "strict_weak better \<longleftrightarrow>
     (\<forall>a b. better a b \<longrightarrow> \<not> better b a) \<and> (\<forall>a b c. better a b \<longrightarrow> \<not> better c b \<longrightarrow> better a c)"

lemma best_by_first:
  assumes "strict_weak better" and "sorted_wrt (<) idx"
  shows "first_best better wanted sibs idx (best_by better wanted sibs idx)"
  using assms(2)
proof (induction idx rule: rev_induct)
  case Nil
  then show ?case by (simp add: first_best_def best_by_def)
next
  case (snoc k idx)
  let ?b = "best_by better wanted sibs idx"
  have ih: "first_best better wanted sibs idx ?b" and less: "\<forall>i \<in> set idx. i < k"
    using snoc by (simp_all add: sorted_wrt_append)
  have step: "best_by better wanted sibs (idx @ [k]) = best_step better wanted sibs ?b k"
    by (simp add: best_by_def)
  have asym: "better a b \<Longrightarrow> \<not> better b a" and weak: "better a b \<Longrightarrow> \<not> better c b \<Longrightarrow> better a c" for a b c
    using assms(1) unfolding strict_weak_def by blast+
  show ?case
  proof (cases ?b)
    case None
    then show ?thesis using ih less asym unfolding step first_best_def best_step_def by (auto dest: asym)
  next
    case (Some b)
    show ?thesis
      using ih less Some unfolding step first_best_def best_step_def
      by (auto dest: asym intro: weak)
  qed
qed

lemma strict_weak_order: "strict_weak (\<lambda>a b. b < a)" "strict_weak (\<lambda>a b. a < b)"
  unfolding strict_weak_def by auto

lemma gguf_idx_sorted: "sorted_wrt (<) (gguf_idx sibs)"
  unfolding gguf_idx_def by (intro sorted_wrt_filter) simp

lemma set_gguf_idx: "set (gguf_idx sibs) = {i. i < length sibs \<and> is_gguf (sb_name (sibs ! i))}"
  by (auto simp: gguf_idx_def)

lemma quant_is_gguf: "ends_with_quant f q \<Longrightarrow> is_gguf f"
  by (simp add: ends_with_quant_def is_gguf_def)

lemmas best_larger = best_by_first [OF strict_weak_order(1) gguf_idx_sorted]
lemmas best_smaller = best_by_first [OF strict_weak_order(2) gguf_idx_sorted]

text \<open>
  pick_sibling() fails exactly for a repository without a GGUF file. When a file has the quantization
  asked for it gives one that has it, the first of the largest; otherwise, when a file has a quantization
  that is recognised, one of the smallest of those.
\<close>

theorem pick_sibling_choice:
  "case pick_sibling sibs quant of
     None \<Rightarrow> \<forall>i < length sibs. \<not> is_gguf (sb_name (sibs ! i))
   | Some b \<Rightarrow> b < length sibs \<and> is_gguf (sb_name (sibs ! b)) \<and>
       (if \<exists>i < length sibs. ends_with_quant (sb_name (sibs ! i)) quant
        then ends_with_quant (sb_name (sibs ! b)) quant \<and>
          (\<forall>i < length sibs. ends_with_quant (sb_name (sibs ! i)) quant \<longrightarrow>
             sb_size (sibs ! i) \<le> sb_size (sibs ! b) \<and> (i < b \<longrightarrow> sb_size (sibs ! i) < sb_size (sibs ! b)))
        else if \<exists>i < length sibs. is_gguf (sb_name (sibs ! i)) \<and> any_quant (sb_name (sibs ! i))
        then any_quant (sb_name (sibs ! b)) \<and>
          (\<forall>i < length sibs. is_gguf (sb_name (sibs ! i)) \<and> any_quant (sb_name (sibs ! i)) \<longrightarrow>
             sb_size (sibs ! b) \<le> sb_size (sibs ! i))
        else True)"
proof -
  let ?exact = "best_by (\<lambda>a b. b < a) (\<lambda>f. ends_with_quant f quant) sibs (gguf_idx sibs)"
  let ?some = "best_by (\<lambda>a b. a < b) any_quant sibs (gguf_idx sibs)"
  let ?all = "best_by (\<lambda>a b. b < a) (\<lambda>_. True) sibs (gguf_idx sibs)"
  note e = best_larger [of "\<lambda>f. ends_with_quant f quant" sibs sibs, unfolded first_best_def set_gguf_idx]
  note r = best_smaller [of any_quant sibs sibs, unfolded first_best_def set_gguf_idx]
  note a = best_larger [of "\<lambda>_. True" sibs sibs, unfolded first_best_def set_gguf_idx]
  show ?thesis
  proof (cases ?exact)
    case (Some b)
    then show ?thesis using e by (auto simp: pick_sibling_def dest: quant_is_gguf)
  next
    case None
    then have no: "(\<exists>i < length sibs. ends_with_quant (sb_name (sibs ! i)) quant) = False"
      using e by (auto dest: quant_is_gguf)
    show ?thesis
    proof (cases ?some)
      case (Some b)
      then show ?thesis using r None unfolding no if_False by (auto simp: pick_sibling_def not_less)
    next
      case none: None
      then have no': "(\<exists>i < length sibs. is_gguf (sb_name (sibs ! i)) \<and> any_quant (sb_name (sibs ! i))) = False"
        using r by auto
      then show ?thesis using a None none unfolding no no' if_False by (auto simp: pick_sibling_def split: option.splits)
    qed
  qed
qed

definition demo_siblings :: "sibling list" where
  "demo_siblings = [\<lparr>sb_name = ''README.md'', sb_size = 9\<rparr>, \<lparr>sb_name = ''a.Q4_K_M.gguf'', sb_size = 3\<rparr>,
     \<lparr>sb_name = ''b.Q4_K_M.gguf'', sb_size = 7\<rparr>, \<lparr>sb_name = ''c.F16.gguf'', sb_size = 8\<rparr>]"

lemma pick_sibling_choice_witness:
  "pick_sibling demo_siblings ''Q4_K_M'' = Some 2 \<and> sb_size (demo_siblings ! 1) \<le> sb_size (demo_siblings ! 2)"
proof -
  have p: "pick_sibling demo_siblings ''Q4_K_M'' = Some 2" by code_simp
  have q: "length demo_siblings = 4" "ends_with_quant (sb_name (demo_siblings ! 1)) ''Q4_K_M''" by code_simp+
  have ex: "\<exists>i < length demo_siblings. ends_with_quant (sb_name (demo_siblings ! i)) ''Q4_K_M''"
    using q by (intro exI [of _ 1]) simp
  have "\<forall>i < length demo_siblings. ends_with_quant (sb_name (demo_siblings ! i)) ''Q4_K_M'' \<longrightarrow>
      sb_size (demo_siblings ! i) \<le> sb_size (demo_siblings ! 2)"
    using pick_sibling_choice [of demo_siblings "''Q4_K_M''", unfolded p option.case if_P [OF ex]] by blast
  with p q show ?thesis by simp
qed

section \<open>Names of sidecars\<close>

lemma no_slash:
  "CHR ''/'' \<notin> set (clean_segment s)"
  by (auto simp: clean_segment_def valid_stem_char_def is_alnum_def is_digit_def is_upper_def is_lower_def)

lemma take_no_slash: "find_char c s = Some i \<Longrightarrow> c \<notin> set (take i s)"
  unfolding find_char_def by (drule index_of_Some) auto

lemma url_segments_no_slash:
  assumes "url_segments url = (a, b)"
  shows "CHR ''/'' \<notin> set a" "CHR ''/'' \<notin> set b"
proof -
  have none: "find_char c s = None \<Longrightarrow> c \<notin> set s" for c s
    by (auto simp: find_char_def)
  show "CHR ''/'' \<notin> set a" "CHR ''/'' \<notin> set b"
    using assms by (auto simp: url_segments_def Let_def take_no_slash none split: option.splits)
qed

lemma find_in: "find P xs = Some x \<Longrightarrow> x \<in> set xs"
  by (induction xs) (auto split: if_splits)

lemma quants_no_slash: "list_all (\<lambda>q. CHR ''/'' \<notin> set q) recognised_quants"
  by code_simp

lemma quant_no_slash: "CHR ''/'' \<notin> set (url_quant f)" "CHR ''/'' \<notin> set (chosen_quant f)"
  using quants_no_slash
  by (auto simp: url_quant_def chosen_quant_def list_all_iff split: option.splits dest: find_in [OF sym] find_in)

lemma operand_quant:
  "resolve_operand operand = Some r \<Longrightarrow> rs_kind r \<noteq> ''repo-quant'' \<Longrightarrow> CHR ''/'' \<notin> set (rs_quant r)"
  by (auto simp: resolve_operand_def resolve_repo_def quant_no_slash Let_def split: if_splits option.splits)

lemma chosen_quant_ok:
  assumes "resolve_operand operand = Some r0" and "choose_file J size_at P r0 w = (w1, Inr (r, sz, lic))"
  shows "CHR ''/'' \<notin> set (rs_quant r)"
  using assms operand_quant [OF assms(1)]
  by (auto simp: choose_file_def Let_def quant_no_slash split: if_splits option.splits prod.splits)

text \<open>
  C24. The sidecar of every pull is a file directly inside the registry: whatever the operand and whatever
  the API answers, its name has no slash. (The model file itself goes wherever the name the API
  gives leads.)
\<close>

theorem sidecar_in_registry:
  assumes "resolve_operand operand = Some r0" and "choose_file J size_at P r0 w = (w1, Inr (r, sz, lic))"
  shows "CHR ''/'' \<notin> set (pull_stem r)"
proof -
  obtain a b where "url_segments (rs_url r) = (a, b)" by fastforce
  then show ?thesis
    using chosen_quant_ok [OF assms] url_segments_no_slash [of "rs_url r" a b]
    by (simp add: pull_stem_def make_stem_def no_slash)
qed

text \<open>An API that names a file outside the directory.\<close>

definition demo_pull :: "unit pull_os" where
  "demo_pull =
     \<lparr>po_curl = (\<lambda>w argv. (w, \<lparr>exit_code = 0, stdout_text = j_dump tree_json
         (TObj [(''siblings'', TArr [TObj [(''rfilename'', TStr ''../../x.Q8_0.gguf'')]])]), stderr_text = []\<rparr>)),
      po_exists = (\<lambda>w p. False), po_size = (\<lambda>w p. 0), po_rename = (\<lambda>w a b. (w, None)), po_remove = (\<lambda>w p. w),
      po_write = (\<lambda>w m. (w, True)), po_absolute = (\<lambda>p. p), po_now = []\<rparr>"

lemma sidecar_in_registry_witness:
  "\<exists>r sz lic. choose_file tree_json (\<lambda>_ _. Inr 0) demo_pull
       \<lparr>rs_kind = ''repo-quant'', rs_repo = ''u/m'', rs_quant = ''Q4_K_M'', rs_file = [], rs_url = []\<rparr> () = ((), Inr (r, sz, lic)) \<and>
     rs_file r = ''../../x.Q8_0.gguf'' \<and> CHR ''/'' \<notin> set (pull_stem r)"
proof -
  let ?r0 = "\<lparr>rs_kind = ''repo-quant'', rs_repo = ''u/m'', rs_quant = ''Q4_K_M'', rs_file = [], rs_url = []\<rparr>"
  have o: "resolve_operand ''u/m'' = Some ?r0" by code_simp
  have api: "parse_api_json tree_json (\<lambda>_ _. Inr 0) (j_dump tree_json
      (TObj [(''siblings'', TArr [TObj [(''rfilename'', TStr ''../../x.Q8_0.gguf'')]])])) =
      Some [\<lparr>sb_name = ''../../x.Q8_0.gguf'', sb_size = 0\<rparr>]"
    by (simp add: parse_api_json_def tree_parse_dump) (simp add: tree_json_def)
  have pick: "pick_sibling [\<lparr>sb_name = ''../../x.Q8_0.gguf'', sb_size = 0\<rparr>] ''Q4_K_M'' = Some 0" by code_simp
  obtain r sz lic where c: "choose_file tree_json (\<lambda>_ _. Inr 0) demo_pull ?r0 () = ((), Inr (r, sz, lic))"
    "rs_file r = ''../../x.Q8_0.gguf''"
    by (auto simp: choose_file_def demo_pull_def started_def api pick Let_def)
  show ?thesis using c sidecar_in_registry [OF o c(1)] by blast
qed

text \<open>
  "hostely models rm" with a path removes the file of the path: for one that no sidecar of the registry
  refers to it removes that file and no sidecar, whatever the file is.
\<close>

theorem rm_of_a_path:
  assumes "operands p = [''rm'', name]" and "CHR ''/'' \<in> set name" and "fe_exists E name"
    and "\<forall>m \<in> set (list_models E dir). mf_path m = [] \<or> fe_canonical E (mf_path m) \<noteq> fe_canonical E name"
    and "fe_absolute E name \<noteq> []"
  shows "run_models E dir p = Some (models_done [''removed '' @ name] [fe_absolute E name])"
proof -
  have "find (\<lambda>m. mf_path m \<noteq> [] \<and> fe_canonical E (mf_path m) = fe_canonical E name) (list_models E dir) = None"
    using assms(4) by (auto simp: find_None_iff)
  then have "resolve_model E dir name = Inr (no_manifest\<lparr>mf_path := fe_absolute E name, mf_filename := path_name name,
      mf_size := (if fe_exists E (fe_absolute E name) then fe_size E (fe_absolute E name) else 0)\<rparr>)"
    using assms(2,3) by (simp add: resolve_model_def resolve_path_def Let_def)
  then show ?thesis using assms(1,5) by (simp add: run_models_def no_manifest_def)
qed

lemma rm_of_a_path_witness:
  "run_models \<lparr>fe_exists = (\<lambda>_. True), fe_parse = (\<lambda>_. None), fe_dir = (\<lambda>_. None), fe_relative = (\<lambda>_ _. None),
       fe_canonical = (\<lambda>p. p), fe_absolute = (\<lambda>p. p), fe_size = (\<lambda>_. 0)\<rparr> ''models''
     (parse_tokens [''models'', ''rm'', ''/etc/hosts'']) = Some (models_done [''removed /etc/hosts''] [''/etc/hosts''])"
proof -
  let ?E = "\<lparr>fe_exists = (\<lambda>_. True), fe_parse = (\<lambda>_. None), fe_dir = (\<lambda>_. None), fe_relative = (\<lambda>_ _. None),
       fe_canonical = (\<lambda>p. p), fe_absolute = (\<lambda>p. p), fe_size = (\<lambda>_. 0)\<rparr> :: fs_env"
  have o: "operands (parse_tokens [''models'', ''rm'', ''/etc/hosts'']) = [''rm'', ''/etc/hosts'']" by code_simp
  have "run_models ?E ''models'' (parse_tokens [''models'', ''rm'', ''/etc/hosts'']) =
      Some (models_done [''removed '' @ ''/etc/hosts''] [fe_absolute ?E ''/etc/hosts''])"
    by (rule rm_of_a_path [OF o]) (simp_all add: list_models_def)
  then show ?thesis by simp
qed

end
