(* ===== verification/Settings.thy ===== *)
theory Settings
  imports Json Models
begin

text \<open>
  paths.cpp, config/config.cpp and inference/lockfile.cpp: where hostely keeps its files, the
  configuration and the lock file a running server publishes. The environment variable HOME is an
  argument; files are a map from paths to contents, and a record tells which calls of the operating
  system succeed. TOML and JSON are parsed and printed by libraries.
\<close>

section \<open>Paths\<close>

definition home_dir :: "string option \<Rightarrow> string" where
  "home_dir home = (case home of Some h \<Rightarrow> h | None \<Rightarrow> [])"

definition state_dir :: "string option \<Rightarrow> string" where
  "state_dir home =
     (let h = home_dir home
      in if h = [] then [] else path_join (path_join (path_join h ''Library'') ''Application Support'') ''hostely'')"

definition log_dir :: "string option \<Rightarrow> string" where
  "log_dir home =
     (let h = home_dir home
      in if h = [] then [] else path_join (path_join (path_join h ''Library'') ''Logs'') ''hostely'')"

text \<open>A file or directory below another one, nothing where there is none.\<close>

definition below :: "string \<Rightarrow> string \<Rightarrow> string" where
  "below d f = (if d = [] then d else path_join d f)"

definition config_file :: "string option \<Rightarrow> string" where
  "config_file home = below (state_dir home) ''config.toml''"

definition models_dir :: "string option \<Rightarrow> string" where
  "models_dir home = below (state_dir home) ''models''"

definition serve_lock_file :: "string option \<Rightarrow> string" where
  "serve_lock_file home = below (state_dir home) ''serve.lock.json''"

definition exposure_dir :: "string option \<Rightarrow> string" where
  "exposure_dir home = below (state_dir home) ''exposure''"

definition certs_dir :: "string option \<Rightarrow> string" where
  "certs_dir home = below (exposure_dir home) ''certs''"

definition routes_file :: "string option \<Rightarrow> string" where
  "routes_file home = below (exposure_dir home) ''routes.json''"

type_synonym files = "string \<rightharpoonup> string"

record settings_os =
  so_mkdirs :: "string \<Rightarrow> bool"
  so_readable :: "string \<Rightarrow> bool"
  so_writable :: "string \<Rightarrow> bool"
  so_flushed :: "string \<Rightarrow> bool"

text \<open>The three ensure_*_dir() differ in the directory.\<close>

definition ensure_dir :: "settings_os \<Rightarrow> string \<Rightarrow> bool" where
  "ensure_dir os d \<longleftrightarrow> d \<noteq> [] \<and> so_mkdirs os d"

section \<open>Configuration\<close>

record config =
  cf_source_path :: string
  cf_default_engine :: string
  cf_default_port :: int
  cf_ctx_size :: int
  cf_gpu_layers :: int
  cf_models_dir :: string
  cf_container_cli :: string

definition config_defaults :: "string option \<Rightarrow> config" where
  "config_defaults home =
     \<lparr>cf_source_path = [], cf_default_engine = ''llama'', cf_default_port = 8080, cf_ctx_size = 4096,
      cf_gpu_layers = -1,
      cf_models_dir = (case home of
         Some h \<Rightarrow> if h = [] then []
           else path_join (path_join (path_join (path_join h ''Library'') ''Application Support'') ''hostely'') ''models''
       | None \<Rightarrow> []),
      cf_container_cli = ''container''\<rparr>"

text \<open>A document of sections, with the two accesses value<std::string>() and value<int>().\<close>

type_synonym toml_doc = "(string \<times> toml) list"

record toml_api =
  tl_parse :: "string \<Rightarrow> toml_doc option"
  tl_print :: "toml_doc \<Rightarrow> string"

definition toml_at :: "toml_doc \<Rightarrow> string \<Rightarrow> string \<Rightarrow> toml_value option" where
  "toml_at d s k = (case map_of d s of Some t \<Rightarrow> map_of t k | None \<Rightarrow> None)"

definition conf_str :: "toml_doc \<Rightarrow> string \<Rightarrow> string \<Rightarrow> string \<Rightarrow> string" where
  "conf_str d s k v = (case toml_at d s k of Some (TomlStr x) \<Rightarrow> x | _ \<Rightarrow> v)"

definition conf_int :: "toml_doc \<Rightarrow> string \<Rightarrow> string \<Rightarrow> int \<Rightarrow> int" where
  "conf_int d s k v = (case toml_at d s k of Some (TomlInt x) \<Rightarrow> if in_int32 x then x else v | _ \<Rightarrow> v)"

definition config_of :: "toml_doc \<Rightarrow> config \<Rightarrow> config" where
  "config_of d c =
     c\<lparr>cf_default_engine := conf_str d ''general'' ''default_engine'' (cf_default_engine c),
       cf_default_port := conf_int d ''general'' ''default_port'' (cf_default_port c),
       cf_ctx_size := conf_int d ''inference'' ''ctx_size'' (cf_ctx_size c),
       cf_gpu_layers := conf_int d ''inference'' ''gpu_layers'' (cf_gpu_layers c),
       cf_models_dir := conf_str d ''inference'' ''models_dir'' (cf_models_dir c),
       cf_container_cli := conf_str d ''services'' ''container_cli'' (cf_container_cli c)\<rparr>"

definition config_load :: "toml_api \<Rightarrow> settings_os \<Rightarrow> string option \<Rightarrow> string \<Rightarrow> files \<Rightarrow> config option" where
  "config_load T os home path fs =
     (case fs path of
        None \<Rightarrow> Some (config_defaults home)
      | Some s \<Rightarrow>
          (case (if so_readable os path then tl_parse T s else None) of
             None \<Rightarrow> None
           | Some d \<Rightarrow> Some (config_of d ((config_defaults home)\<lparr>cf_source_path := path\<rparr>))))"

definition config_doc :: "config \<Rightarrow> toml_doc" where
  "config_doc c =
     [(''general'', [(''default_engine'', TomlStr (cf_default_engine c)), (''default_port'', TomlInt (cf_default_port c))]),
      (''inference'', [(''ctx_size'', TomlInt (cf_ctx_size c)), (''gpu_layers'', TomlInt (cf_gpu_layers c)),
                       (''models_dir'', TomlStr (cf_models_dir c))]),
      (''services'', [(''container_cli'', TomlStr (cf_container_cli c))])]"

definition config_save :: "toml_api \<Rightarrow> settings_os \<Rightarrow> config \<Rightarrow> string \<Rightarrow> files \<Rightarrow> files \<times> bool" where
  "config_save T os c path fs =
     (let parent = path_parent path
      in if parent \<noteq> [] \<and> \<not> so_mkdirs os parent then (fs, False)
         else if \<not> so_writable os path then (fs, False)
         else (fs(path \<mapsto> tl_print T (config_doc c)), so_flushed os path))"

text \<open>What is printed is read back, entry by entry.\<close>

definition toml_ok :: "toml_api \<Rightarrow> bool" where
  "toml_ok T \<longleftrightarrow> (\<forall>d. \<exists>d'. tl_parse T (tl_print T d) = Some d' \<and> (\<forall>s k. toml_at d' s k = toml_at d s k))"

section \<open>The lock of a running server\<close>

record serve_lock =
  lk_pid :: "64 word"
  lk_model_path :: string
  lk_display_name :: string
  lk_quant_name :: string
  lk_params :: u64
  lk_tensor_bytes :: u64
  lk_kv_state_bytes :: u64
  lk_peak_rss_bytes :: u64
  lk_ctx_size :: "32 word"
  lk_ctx_train :: "32 word"
  lk_port :: "32 word"
  lk_started_at :: string

datatype probe = Reached | Gone | NotPermitted

text \<open>The process id is converted to the 32 bits of pid_t before it is probed.\<close>

definition pid_alive :: "(int \<Rightarrow> probe) \<Rightarrow> 64 word \<Rightarrow> bool" where
  "pid_alive kill pid \<longleftrightarrow>
     0 < sint pid \<and> (case kill (sint (ucast pid :: 32 word)) of Reached \<Rightarrow> True | Gone \<Rightarrow> False | NotPermitted \<Rightarrow> True)"

definition lock_members :: "('j, 'm) json_build_scheme \<Rightarrow> string \<Rightarrow> serve_lock \<Rightarrow> (string \<times> 'j) list" where
  "lock_members J now lock =
     [(''pid'', j_of_int J (sint (lk_pid lock))),
      (''model_path'', j_of_str J (lk_model_path lock)),
      (''display_name'', j_of_str J (lk_display_name lock)),
      (''quant_name'', j_of_str J (lk_quant_name lock)),
      (''params'', j_of_int J (uint (lk_params lock))),
      (''tensor_bytes'', j_of_int J (uint (lk_tensor_bytes lock))),
      (''kv_state_bytes'', j_of_int J (uint (lk_kv_state_bytes lock))),
      (''peak_rss_bytes'', j_of_int J (uint (lk_peak_rss_bytes lock))),
      (''ctx_size'', j_of_int J (sint (lk_ctx_size lock))),
      (''ctx_train'', j_of_int J (sint (lk_ctx_train lock))),
      (''port'', j_of_int J (sint (lk_port lock))),
      (''started_at'', j_of_str J (if lk_started_at lock = [] then now else lk_started_at lock))]"

definition lock_json :: "('j, 'm) json_build_scheme \<Rightarrow> string \<Rightarrow> serve_lock \<Rightarrow> 'j" where
  "lock_json J now lock = j_of_obj J (lock_members J now lock)"

text \<open>A file opened for output is empty while the text is made; dump() may throw then.\<close>

definition write_serve_lock ::
  "('j, 'm) json_build_scheme \<Rightarrow> settings_os \<Rightarrow> string option \<Rightarrow> string \<Rightarrow> serve_lock \<Rightarrow> files \<Rightarrow> files \<times> bool or_throw" where
  "write_serve_lock J os home now lock fs =
     (let p = serve_lock_file home
      in if \<not> ensure_dir os (state_dir home) \<or> \<not> so_writable os p then (fs, Inr False)
         else case j_pretty J (lock_json J now lock) of
                Inl t \<Rightarrow> (fs(p \<mapsto> []), Inl t)
              | Inr s \<Rightarrow> (fs(p \<mapsto> s @ [nl]), Inr (so_flushed os p)))"

definition remove_serve_lock :: "string option \<Rightarrow> files \<Rightarrow> files" where
  "remove_serve_lock home fs = fs(serve_lock_file home := None)"

text \<open>A number is converted to the type it is read as.\<close>

definition value_word :: "('j, 'm) json_api_scheme \<Rightarrow> 'j \<Rightarrow> string \<Rightarrow> 'a::len word or_throw" where
  "value_word J j k = and_then (j_value_int J j k 0) (\<lambda>i. Inr (word_of_int i))"

definition lock_of :: "('j, 'm) json_api_scheme \<Rightarrow> 'j \<Rightarrow> serve_lock or_throw" where
  "lock_of J j =
     and_then (value_word J j ''pid'') (\<lambda>pid.
     and_then (j_value_str J j ''model_path'' []) (\<lambda>model_path.
     and_then (j_value_str J j ''display_name'' []) (\<lambda>display_name.
     and_then (j_value_str J j ''quant_name'' []) (\<lambda>quant_name.
     and_then (value_word J j ''params'') (\<lambda>params.
     and_then (value_word J j ''tensor_bytes'') (\<lambda>tensor.
     and_then (value_word J j ''kv_state_bytes'') (\<lambda>kv.
     and_then (value_word J j ''peak_rss_bytes'') (\<lambda>peak.
     and_then (value_word J j ''ctx_size'') (\<lambda>ctx_size.
     and_then (value_word J j ''ctx_train'') (\<lambda>ctx_train.
     and_then (value_word J j ''port'') (\<lambda>port.
     and_then (j_value_str J j ''started_at'' []) (\<lambda>started_at.
     Inr \<lparr>lk_pid = pid, lk_model_path = model_path, lk_display_name = display_name,
          lk_quant_name = quant_name, lk_params = params, lk_tensor_bytes = tensor,
          lk_kv_state_bytes = kv, lk_peak_rss_bytes = peak, lk_ctx_size = ctx_size,
          lk_ctx_train = ctx_train, lk_port = port, lk_started_at = started_at\<rparr>))))))))))))"

text \<open>The lock, the error and whether it is stale.\<close>

definition read_serve_lock ::
  "('j, 'm) json_api_scheme \<Rightarrow> settings_os \<Rightarrow> (int \<Rightarrow> probe) \<Rightarrow> string option \<Rightarrow> files \<Rightarrow> serve_lock option \<times> string \<times> bool" where
  "read_serve_lock J os kill home fs =
     (let p = serve_lock_file home
      in case fs p of
           None \<Rightarrow> (None, [], False)
         | Some s \<Rightarrow>
             if \<not> so_readable os p then (None, ''serve lock exists but could not be read: '' @ p, False)
             else case and_then (j_parse J s) (lock_of J) of
                    Inl e \<Rightarrow> (None, ''serve lock is corrupt: '' @ e, False)
                  | Inr lock \<Rightarrow>
                      if pid_alive kill (lk_pid lock) then (Some lock, [], False)
                      else (Some lock,
                        ''lock is stale (pid '' @ string_of_int (sint (lk_pid lock)) @
                        '' is gone; safe to start a new serve)'', True))"

section \<open>Lemmas\<close>

lemma config_doc_at:
  "toml_at (config_doc c) ''general'' ''default_engine'' = Some (TomlStr (cf_default_engine c))"
  "toml_at (config_doc c) ''general'' ''default_port'' = Some (TomlInt (cf_default_port c))"
  "toml_at (config_doc c) ''inference'' ''ctx_size'' = Some (TomlInt (cf_ctx_size c))"
  "toml_at (config_doc c) ''inference'' ''gpu_layers'' = Some (TomlInt (cf_gpu_layers c))"
  "toml_at (config_doc c) ''inference'' ''models_dir'' = Some (TomlStr (cf_models_dir c))"
  "toml_at (config_doc c) ''services'' ''container_cli'' = Some (TomlStr (cf_container_cli c))"
  by (simp_all add: toml_at_def config_doc_def)

lemma config_of_same:
  assumes "\<And>s k. toml_at d' s k = toml_at (config_doc c) s k"
    and "in_int32 (cf_default_port c)" "in_int32 (cf_ctx_size c)" "in_int32 (cf_gpu_layers c)"
  shows "config_of d' base = c\<lparr>cf_source_path := cf_source_path base\<rparr>"
  using assms(2-) by (simp add: config_of_def conf_str_def conf_int_def assms(1) config_doc_at)

text \<open>The default directory of the models is the one of paths.cpp.\<close>

lemma path_join_nonempty: "f \<noteq> [] \<Longrightarrow> path_join d f \<noteq> []"
  by (simp add: path_join_def)

lemma defaults_models_dir: "cf_models_dir (config_defaults home) = models_dir home"
  by (cases home) (simp_all add: config_defaults_def models_dir_def below_def state_dir_def home_dir_def Let_def path_join_nonempty)

lemma lock_members_distinct: "distinct (map fst (lock_members J now lock))"
  unfolding lock_members_def by simp

lemma lock_members_at:
  shows "map_of (lock_members J now lock) ''pid'' = Some (j_of_int J (sint (lk_pid lock)))"
    and "map_of (lock_members J now lock) ''params'' = Some (j_of_int J (uint (lk_params lock)))"
    and "map_of (lock_members J now lock) ''tensor_bytes'' = Some (j_of_int J (uint (lk_tensor_bytes lock)))"
    and "map_of (lock_members J now lock) ''kv_state_bytes'' = Some (j_of_int J (uint (lk_kv_state_bytes lock)))"
    and "map_of (lock_members J now lock) ''peak_rss_bytes'' = Some (j_of_int J (uint (lk_peak_rss_bytes lock)))"
    and "map_of (lock_members J now lock) ''ctx_size'' = Some (j_of_int J (sint (lk_ctx_size lock)))"
    and "map_of (lock_members J now lock) ''ctx_train'' = Some (j_of_int J (sint (lk_ctx_train lock)))"
    and "map_of (lock_members J now lock) ''port'' = Some (j_of_int J (sint (lk_port lock)))"
    and "map_of (lock_members J now lock) ''model_path'' = Some (j_of_str J (lk_model_path lock))"
    and "map_of (lock_members J now lock) ''display_name'' = Some (j_of_str J (lk_display_name lock))"
    and "map_of (lock_members J now lock) ''quant_name'' = Some (j_of_str J (lk_quant_name lock))"
    and "map_of (lock_members J now lock) ''started_at'' = Some (j_of_str J ((if lk_started_at lock = [] then now else lk_started_at lock)))"
  unfolding lock_members_def by simp_all

lemma lock_of_json:
  assumes "json_ok J"
  shows "lock_of J (lock_json J now lock) =
    Inr (lock\<lparr>lk_started_at := if lk_started_at lock = [] then now else lk_started_at lock\<rparr>)"
proof -
  note int_at = json_okD(8) [OF assms lock_members_distinct] and str_at = json_okD(2) [OF assms lock_members_distinct]
  note ints = lock_members_at(1-8) [THEN int_at] and strs = lock_members_at(9-12) [THEN str_at]
  show ?thesis
    unfolding lock_of_def lock_json_def value_word_def by (simp add: ints strs)
qed

text \<open>
  A configuration that was saved is loaded as it was, whatever HOME is by then; only the path
  it came from is new. Every field of Config is written, the empty directory of models too.
\<close>

lemma config_roundtrip:
  assumes "toml_ok T"
    and "in_int32 (cf_default_port c)" "in_int32 (cf_ctx_size c)" "in_int32 (cf_gpu_layers c)"
    and "config_save T os c path fs = (fs', True)" "so_readable os path"
  shows "config_load T os home path fs' = Some (c\<lparr>cf_source_path := path\<rparr>)"
proof -
  obtain d' where d': "tl_parse T (tl_print T (config_doc c)) = Some d'"
    "\<And>s k. toml_at d' s k = toml_at (config_doc c) s k"
    using assms(1) unfolding toml_ok_def by blast
  have "fs' path = Some (tl_print T (config_doc c))"
    using assms(5) by (auto simp: config_save_def Let_def split: if_splits)
  then show ?thesis
    using d' assms(2-4,6) by (simp add: config_load_def config_of_same [OF d'(2)])
qed

definition open_os :: settings_os where
  "open_os = \<lparr>so_mkdirs = (\<lambda>d. True), so_readable = (\<lambda>p. True), so_writable = (\<lambda>p. True), so_flushed = (\<lambda>p. True)\<rparr>"

instance toml_value :: countable
  by countable_datatype

definition plain_toml :: toml_api where
  "plain_toml = \<lparr>tl_parse = (\<lambda>s. Some (from_nat (digits_val s))), tl_print = (\<lambda>d. digits_of (to_nat d))\<rparr>"

lemma plain_toml_ok: "toml_ok plain_toml"
  by (simp add: toml_ok_def plain_toml_def)

theorem config_roundtrip_witness:
  "config_load plain_toml open_os None ''/c.toml''
     (fst (config_save plain_toml open_os (config_defaults (Some ''/u'')) ''/c.toml'' Map.empty)) =
   Some ((config_defaults (Some ''/u''))\<lparr>cf_source_path := ''/c.toml''\<rparr>)"
proof -
  let ?c = "config_defaults (Some ''/u'')"
  have "in_int32 (cf_default_port ?c)" "in_int32 (cf_ctx_size ?c)" "in_int32 (cf_gpu_layers ?c)"
    by (simp_all add: config_defaults_def in_int32_def)
  moreover have "config_save plain_toml open_os ?c ''/c.toml'' Map.empty =
      (fst (config_save plain_toml open_os ?c ''/c.toml'' Map.empty), True)"
    by (simp add: config_save_def open_os_def Let_def)
  moreover have "so_readable open_os ''/c.toml''"
    by (simp add: open_os_def)
  ultimately show ?thesis
    using config_roundtrip [OF plain_toml_ok] by blast
qed

lemma written_lock_is_read:
  assumes "json_ok J"
    and "write_serve_lock J os home now lock fs = (fs', Inr True)" "so_readable os (serve_lock_file home)"
  shows "read_serve_lock J os kill home fs' =
      (Some (lock\<lparr>lk_started_at := if lk_started_at lock = [] then now else lk_started_at lock\<rparr>),
       if pid_alive kill (lk_pid lock) then []
       else ''lock is stale (pid '' @ string_of_int (sint (lk_pid lock)) @ '' is gone; safe to start a new serve)'',
       \<not> pid_alive kill (lk_pid lock))"
proof -
  obtain s where s: "j_pretty J (lock_json J now lock) = Inr s" "fs' (serve_lock_file home) = Some (s @ [nl])"
    using assms(2) by (auto simp: write_serve_lock_def Let_def split: if_splits sum.splits)
  have "j_parse J (s @ [nl]) = Inr (lock_json J now lock)"
    using json_okD(7) [OF assms(1) s(1)] .
  then show ?thesis
    using s(2) assms(3) by (simp add: read_serve_lock_def lock_of_json [OF assms(1)])
qed

text \<open>
  Every field of the lock a server wrote is read back, with the time of the call when the lock
  had none; the lock counts as stale exactly when its process cannot be probed, and removing it
  leaves nothing to read.
\<close>

theorem serve_lock_roundtrip:
  assumes "json_ok J"
    and "write_serve_lock J os home now lock fs = (fs', Inr True)" "so_readable os (serve_lock_file home)"
  shows "read_serve_lock J os kill home fs' =
      (Some (lock\<lparr>lk_started_at := if lk_started_at lock = [] then now else lk_started_at lock\<rparr>),
       if pid_alive kill (lk_pid lock) then []
       else ''lock is stale (pid '' @ string_of_int (sint (lk_pid lock)) @ '' is gone; safe to start a new serve)'',
       \<not> pid_alive kill (lk_pid lock)) \<and>
    read_serve_lock J os kill home (remove_serve_lock home fs') = (None, [], False)"
  using written_lock_is_read [OF assms] by (simp add: read_serve_lock_def remove_serve_lock_def)

definition demo_lock :: serve_lock where
  "demo_lock = \<lparr>lk_pid = 7, lk_model_path = ''/m/a.gguf'', lk_display_name = ''a'', lk_quant_name = ''Q4_K_M'',
     lk_params = 3, lk_tensor_bytes = 5, lk_kv_state_bytes = 1, lk_peak_rss_bytes = 6, lk_ctx_size = 4096,
     lk_ctx_train = 8192, lk_port = 8080, lk_started_at = []\<rparr>"

theorem serve_lock_roundtrip_witness:
  "\<exists>fs'. write_serve_lock tree_json open_os (Some ''/u'') ''now'' demo_lock Map.empty = (fs', Inr True) \<and>
     read_serve_lock tree_json open_os (\<lambda>p. Gone) (Some ''/u'') fs' =
       (Some (demo_lock\<lparr>lk_started_at := ''now''\<rparr>),
        ''lock is stale (pid '' @ string_of_int 7 @ '' is gone; safe to start a new serve)'', True)"
proof -
  have "\<exists>fs'. write_serve_lock tree_json open_os (Some ''/u'') ''now'' demo_lock Map.empty = (fs', Inr True)"
    by (simp add: write_serve_lock_def open_os_def ensure_dir_def state_dir_def home_dir_def Let_def
        path_join_nonempty tree_json_def)
  then obtain fs' where w: "write_serve_lock tree_json open_os (Some ''/u'') ''now'' demo_lock Map.empty = (fs', Inr True)"
    by blast
  moreover have "so_readable open_os (serve_lock_file (Some ''/u''))"
    by (simp add: open_os_def)
  moreover have "lk_started_at demo_lock = []" "lk_pid demo_lock = 7"
    by (simp_all add: demo_lock_def)
  ultimately show ?thesis
    using serve_lock_roundtrip [OF tree_json_ok w, of "\<lambda>p. Gone"] by (simp add: pid_alive_def)
qed

end
