(* ===== verification/Double.thy ===== *)
theory Double
  imports Complex_Main Resources
begin

text \<open>
  The arithmetic of the type double on the values the dashboard computes with: a finite double is
  the rational number it stands for, an operation is the exact result rounded to 53 significant bits,
  ties to even. Overflow, denormal numbers, infinities and NaN are left out; the sources divide by
  values they have found to be positive.
\<close>

type_synonym double = rat

definition pow2 :: "int \<Rightarrow> rat" where
  "pow2 k = (if 0 \<le> k then 2 ^ nat k else 1 / 2 ^ nat (- k))"

definition round_even :: "rat \<Rightarrow> int" where
  "round_even x =
     (let q = \<lfloor>x\<rfloor>; r = x - of_int q
      in if r < 1 / 2 then q else if 1 / 2 < r then q + 1 else if even q then q else q + 1)"

function int_bits :: "int \<Rightarrow> int" where
  "int_bits n = (if n \<le> 0 then 0 else 1 + int_bits (n div 2))"
  by pat_completeness auto
termination by (relation "measure nat") auto

declare int_bits.simps [simp del]

text \<open>The exponent that gives a positive number a significand of 53 bits.\<close>

definition scale_of :: "rat \<Rightarrow> int" where
  "scale_of x =
     (let (p, q) = quotient_of x; s = 53 - (int_bits p - int_bits q)
      in if x * pow2 s < 2 ^ 53 then s else s - 1)"

definition rd :: "rat \<Rightarrow> double" where
  "rd x =
     (if x = 0 then 0
      else let s = scale_of \<bar>x\<bar>; m = of_int (round_even (\<bar>x\<bar> * pow2 s)) / pow2 s
           in if x < 0 then - m else m)"

definition dadd :: "double \<Rightarrow> double \<Rightarrow> double" where
  "dadd a b = rd (a + b)"

definition dsub :: "double \<Rightarrow> double \<Rightarrow> double" where
  "dsub a b = rd (a - b)"

definition dmul :: "double \<Rightarrow> double \<Rightarrow> double" where
  "dmul a b = rd (a * b)"

definition ddiv :: "double \<Rightarrow> double \<Rightarrow> double" where
  "ddiv a b = rd (a / b)"

definition of_u64 :: "u64 \<Rightarrow> double" where
  "of_u64 w = rd (of_int (uint w))"

text \<open>The conversion to a 64-bit count, and std::lround(), which rounds halves away from zero.\<close>

definition to_u64 :: "double \<Rightarrow> u64" where
  "to_u64 x = word_of_int (if x < 0 then - \<lfloor>- x\<rfloor> else \<lfloor>x\<rfloor>)"

definition lround :: "double \<Rightarrow> int" where
  "lround x = (if x < 0 then - \<lfloor>1 / 2 - x\<rfloor> else \<lfloor>x + 1 / 2\<rfloor>)"

definition clamp :: "'a::linorder \<Rightarrow> 'a \<Rightarrow> 'a \<Rightarrow> 'a" where
  "clamp x lo hi = (if x < lo then lo else if hi < x then hi else x)"

text \<open>The conversion %.kf, and the same digits through a stream with fixed and setprecision(k).\<close>

definition fixed_point :: "nat \<Rightarrow> double \<Rightarrow> string" where
  "fixed_point k x =
     (let t = nat (round_even (\<bar>x\<bar> * 10 ^ k)); ds = digits_of (t mod 10 ^ k)
      in (if x < 0 then ''-'' else []) @ digits_of (t div 10 ^ k) @
         (if k = 0 then [] else ''.'' @ replicate (k - length ds) (CHR ''0'') @ ds))"

text \<open>
  strtod() on decimal numerals: white space, a sign, digits with a fraction, an exponent. The value
  and what follows it; None where there is no digit. Hexadecimal numerals, infinities and NaN are left
  out.
\<close>

definition split_digits :: "string \<Rightarrow> string \<times> string" where
  "split_digits s = (takeWhile is_digit s, dropWhile is_digit s)"

definition scan_exponent :: "string \<Rightarrow> int \<times> string" where
  "scan_exponent s =
     (if s \<noteq> [] \<and> (hd s = CHR ''e'' \<or> hd s = CHR ''E'')
      then let t = tl s; signed = (t \<noteq> [] \<and> (hd t = CHR ''-'' \<or> hd t = CHR ''+''));
               (ds, rest) = split_digits (if signed then tl t else t)
           in if ds = [] then (0, s)
              else (if signed \<and> hd t = CHR ''-'' then - int (digits_val ds) else int (digits_val ds), rest)
      else (0, s))"

definition pow10 :: "int \<Rightarrow> rat" where
  "pow10 k = (if 0 \<le> k then 10 ^ nat k else 1 / 10 ^ nat (- k))"

definition scan_double :: "string \<Rightarrow> (double \<times> string) option" where
  "scan_double s =
     (let t = ltrim s;
          neg = (t \<noteq> [] \<and> hd t = CHR ''-'');
          u = (if t \<noteq> [] \<and> (hd t = CHR ''-'' \<or> hd t = CHR ''+'') then tl t else t);
          (whole, r1) = split_digits u;
          (frac, r2) = (if r1 \<noteq> [] \<and> hd r1 = CHR ''.'' then split_digits (tl r1) else ([], r1));
          (e, r3) = scan_exponent r2;
          v = rd (rat_of_nat (digits_val (whole @ frac)) * pow10 (e - int (length frac)))
      in if whole = [] \<and> frac = [] then None else Some (if neg then - v else v, r3))"

section \<open>Lemmas\<close>

lemma pow2_pos [simp]: "0 < pow2 k"
  by (simp add: pow2_def)

lemma pow2_powi: "pow2 k = 2 powi k"
  by (simp only: pow2_def power_int_def power_inverse inverse_eq_divide power_one_over)

lemma pow2_add: "pow2 (a + b) = pow2 a * pow2 b"
  by (simp only: pow2_powi) (rule power_int_add, simp)

lemma round_even_error: "\<bar>of_int (round_even x) - x\<bar> \<le> 1 / 2"
proof -
  have "of_int \<lfloor>x\<rfloor> \<le> x" "x < of_int \<lfloor>x\<rfloor> + 1" by linarith+
  then show ?thesis by (auto simp: round_even_def Let_def abs_le_iff)
qed

lemma round_even_nonneg: "0 \<le> x \<Longrightarrow> 0 \<le> round_even x"
  by (simp add: round_even_def Let_def)

lemma rd_zero [simp]: "rd 0 = 0"
  by (simp add: rd_def)

lemma rd_nonneg [simp]: "0 \<le> x \<Longrightarrow> 0 \<le> rd x"
  by (simp add: rd_def Let_def round_even_nonneg less_imp_le)

text \<open>The scale gives a significand of 53 bits.\<close>

lemma int_bits_bounds:
  "0 < n \<Longrightarrow> 0 < int_bits n \<and> 2 ^ nat (int_bits n - 1) \<le> n \<and> n < 2 ^ nat (int_bits n)"
proof (induction n rule: int_bits.induct)
  case (1 n)
  show ?case
  proof (cases "n = 1")
    case True
    then show ?thesis by (simp add: int_bits.simps)
  next
    case False
    with 1 have IH: "0 < int_bits (n div 2)" "2 ^ nat (int_bits (n div 2) - 1) \<le> n div 2" "n div 2 < 2 ^ nat (int_bits (n div 2))"
      by simp_all
    define b where "b = nat (int_bits (n div 2) - 1)"
    have b: "int_bits (n div 2) = int b + 1" using IH(1) by (simp add: b_def)
    have "int_bits n = int b + 2" using 1(2) b by (simp add: int_bits.simps [of n])
    moreover have "2 ^ b \<le> n div 2" "n div 2 < 2 ^ Suc b" using IH(2,3) b by (simp_all add: nat_add_distrib)
    ultimately show ?thesis by (simp add: nat_add_distrib) linarith
  qed
qed

lemma scale_of_bounds:
  assumes "0 < x"
  shows "2 ^ 52 \<le> x * pow2 (scale_of x) \<and> x * pow2 (scale_of x) < 2 ^ 53"
proof -
  obtain p q where pq: "quotient_of x = (p, q)" by (cases "quotient_of x")
  have q: "0 < q" using quotient_of_denom_pos [OF pq] .
  have x: "x = of_int p / of_int q" using quotient_of_div [OF pq] .
  with assms q have p: "0 < p" by (simp add: zero_less_divide_iff)
  define a where "a = int_bits p" define b where "b = int_bits q"
  have bits: "2 powi (int_bits n - 1) \<le> (of_int n :: rat)" "(of_int n :: rat) < 2 powi (int_bits n)" if "0 < n" for n
  proof -
    have "(2 ^ nat (int_bits n - 1) :: rat) \<le> of_int n" "of_int n < (2 ^ nat (int_bits n) :: rat)"
      using int_bits_bounds [OF that] of_int_le_iff [of "2 ^ nat (int_bits n - 1)" n, where 'a = rat]
        of_int_less_iff [of n "2 ^ nat (int_bits n)", where 'a = rat] by simp_all
    then show "2 powi (int_bits n - 1) \<le> (of_int n :: rat)" "(of_int n :: rat) < 2 powi (int_bits n)"
      using int_bits_bounds [OF that] by (simp_all add: power_int_def)
  qed
  have lo: "2 powi (a - 1 - b) < x"
  proof -
    have "2 powi (a - 1 - b) * of_int q < 2 powi (a - 1 - b) * (2 powi b :: rat)"
      using bits(2) [OF q] by (simp add: b_def)
    also have "\<dots> = 2 powi (a - 1)" by (simp flip: power_int_add)
    also have "\<dots> \<le> of_int p" using bits(1) [OF p] by (simp add: a_def)
    finally show ?thesis using q by (simp add: x pos_less_divide_eq)
  qed
  have hi: "x < 2 powi (a - (b - 1))"
  proof -
    have "(of_int p :: rat) < 2 powi a" using bits(2) [OF p] by (simp add: a_def)
    also have "\<dots> = 2 powi (a - (b - 1)) * 2 powi (b - 1)" by (simp flip: power_int_add)
    also have "\<dots> \<le> 2 powi (a - (b - 1)) * of_int q" using bits(1) [OF q] by (simp add: b_def)
    finally show ?thesis using q by (simp add: x pos_divide_less_eq)
  qed
  define s where "s = 53 - (a - b)"
  have s1: "2 ^ 52 < x * pow2 s"
  proof -
    have "(2::rat) ^ 52 = 2 powi (a - 1 - b) * pow2 s"
      by (simp add: pow2_powi s_def flip: power_int_add)
    also have "\<dots> < x * pow2 s" using lo by simp
    finally show ?thesis .
  qed
  have s2: "x * pow2 s < 2 ^ 54"
  proof -
    have "x * pow2 s < 2 powi (a - (b - 1)) * pow2 s" using hi by simp
    also have "\<dots> = (2::rat) ^ 54" by (simp add: pow2_powi s_def flip: power_int_add)
    finally show ?thesis .
  qed
  have half: "x * pow2 (s - 1) = x * pow2 s / 2"
    using pow2_add [of s "-1"] by (simp add: pow2_def [of "-1"])
  have "scale_of x = (if x * pow2 s < 2 ^ 53 then s else s - 1)"
    by (simp add: scale_of_def pq s_def a_def b_def)
  moreover define z where "z = x * pow2 s"
  ultimately show ?thesis using s1 s2 unfolding z_def [symmetric] by (auto simp: half simp flip: z_def)
qed

text \<open>A rounded value is off by at most half a unit in the last place, 2^-53 of it.\<close>

lemma rd_error: "\<bar>rd x - x\<bar> \<le> \<bar>x\<bar> / 2 ^ 53"
proof (cases "x = 0")
  case False
  define s where "s = scale_of \<bar>x\<bar>" define y where "y = \<bar>x\<bar> * pow2 s"
  define m where "m = of_int (round_even y) / pow2 s"
  have m: "rd x = (if x < 0 then - m else m)"
    using False by (simp add: rd_def Let_def m_def y_def s_def)
  have x: "\<bar>x\<bar> = y / pow2 s" using pow2_pos [of s] by (simp add: y_def less_imp_neq [symmetric])
  have "\<bar>rd x - x\<bar> = \<bar>m - \<bar>x\<bar>\<bar>" using m by auto
  also have "\<dots> = \<bar>of_int (round_even y) - y\<bar> / pow2 s"
    using pow2_pos [of s] by (simp add: x m_def abs_divide abs_of_pos flip: diff_divide_distrib)
  also have "\<dots> \<le> (1 / 2) / pow2 s"
    by (intro divide_right_mono round_even_error) (simp add: less_imp_le)
  also have "\<dots> \<le> (y / 2 ^ 53) / pow2 s"
    using scale_of_bounds [of "\<bar>x\<bar>"] False by (intro divide_right_mono) (simp_all add: y_def s_def less_imp_le)
  finally show ?thesis by (simp add: x)
qed simp

end
