(* ===== verification/Sampler.thy ===== *)
theory Sampler
  imports Settings Double
begin

text \<open>
  top/sample.cpp: the store the sampler thread and the renderer share, the rows made from the JSON of
  container ls and container stats, and one pass of the sampler with its two maps of counters. What
  the kernel reports about the host is an argument; an exception (the thread that samples has no
  handler for one) is a value of the sum type.
\<close>

section \<open>Data\<close>

record container_row =
  cr_name :: string
  cr_image :: string
  cr_state :: string
  cr_ip :: string
  cr_ports :: string
  cr_cpus :: u64
  cr_mem_bytes :: u64
  cr_mem_limit :: u64
  cr_procs :: u32
  cr_cpu_pct :: double
  cr_mem_pct :: double
  cr_net_rx :: double
  cr_net_tx :: double
  cr_blk_rd :: double
  cr_blk_wr :: double

definition empty_row :: container_row where
  "empty_row = \<lparr>cr_name = [], cr_image = [], cr_state = [], cr_ip = [], cr_ports = [], cr_cpus = 0,
     cr_mem_bytes = 0, cr_mem_limit = 0, cr_procs = 0, cr_cpu_pct = -1, cr_mem_pct = -1,
     cr_net_rx = -1, cr_net_tx = -1, cr_blk_rd = -1, cr_blk_wr = -1\<rparr>"

record host_summary =
  hs_mem_total :: u64
  hs_mem_used :: u64
  hs_avail :: u64
  hs_cores :: int
  hs_load1 :: double
  hs_load5 :: double
  hs_load15 :: double
  hs_gpu_available :: bool
  hs_gpu_recommended :: u64
  hs_serving :: bool
  hs_model_name :: string
  hs_model_rss :: u64
  hs_swap_total :: u64
  hs_swap_used :: u64

record snapshot =
  sn_rows :: "container_row list"
  sn_host :: host_summary
  sn_error :: string
  sn_missed :: u32
  sn_count :: int
  sn_interval :: double

datatype sort_key = Cpu | Mem | Name | Net

record raw_sample =
  rs_cpu_usec :: u64
  rs_net_rx :: u64
  rs_net_tx :: u64
  rs_blk_rd :: u64
  rs_blk_wr :: u64
  rs_mem_bytes :: u64
  rs_mem_limit :: u64
  rs_procs :: u32

type_synonym raw_map = "(string \<times> raw_sample) list"

text \<open>set_interval() keeps the interval between 0.2 and 60 seconds.\<close>

definition set_interval :: "double \<Rightarrow> double" where
  "set_interval sec = (let s = (if sec < rd (1 / 5) then rd (1 / 5) else sec) in if 60 < s then 60 else s)"

section \<open>JSON to rows\<close>

definition short_image :: "string \<Rightarrow> string" where
  "short_image reference = (case rfind_char (CHR ''/'') reference of None \<Rightarrow> reference | Some i \<Rightarrow> drop (i + 1) reference)"

definition strip_cidr :: "string \<Rightarrow> string" where
  "strip_cidr ip = (case find_char (CHR ''/'') ip of None \<Rightarrow> ip | Some i \<Rightarrow> take i ip)"

text \<open>The steps of apply_list_json(), one per member it looks at.\<close>

definition list_image :: "('j, 'm) json_build_scheme \<Rightarrow> 'j \<Rightarrow> container_row \<Rightarrow> container_row or_throw" where
  "list_image J cfg row =
     and_then (j_value J cfg ''image'' (j_empty_object J)) (\<lambda>image.
       if j_is_object J image
       then and_then (j_value_str J image ''reference'' (cr_image row)) (\<lambda>ref. Inr (row\<lparr>cr_image := short_image ref\<rparr>))
       else Inr row)"

definition list_name :: "('j, 'm) json_build_scheme \<Rightarrow> 'j \<Rightarrow> 'j \<Rightarrow> container_row \<Rightarrow> container_row or_throw" where
  "list_name J entry cfg row =
     and_then (j_value_str J entry ''id'' (cr_name row)) (\<lambda>name.
     and_then (if name = [] then j_value_str J cfg ''id'' name else Inr name) (\<lambda>name.
       Inr (row\<lparr>cr_name := name\<rparr>)))"

definition list_status :: "('j, 'm) json_build_scheme \<Rightarrow> 'j \<Rightarrow> container_row \<Rightarrow> container_row or_throw" where
  "list_status J entry row =
     and_then (j_value J entry ''status'' (j_empty_object J)) (\<lambda>status.
       if \<not> j_is_object J status then Inr row
       else and_then (j_value_str J status ''state'' (cr_state row)) (\<lambda>state.
            and_then (j_value J status ''networks'' (j_of_arr J [])) (\<lambda>nets.
              let row1 = row\<lparr>cr_state := state\<rparr>; items = j_items J nets
              in if j_is_array J nets \<and> items \<noteq> [] \<and> j_is_object J (hd items)
                 then and_then (j_value_str J (hd items) ''ipv4Address'' []) (\<lambda>ip. Inr (row1\<lparr>cr_ip := strip_cidr ip\<rparr>))
                 else Inr row1)))"

fun port_list :: "('j, 'm) json_build_scheme \<Rightarrow> 'j list \<Rightarrow> string \<Rightarrow> string or_throw" where
  "port_list J [] out = Inr out"
| "port_list J (p # ps) out =
     (if \<not> j_is_object J p then port_list J ps out
      else and_then (j_value_int J p ''hostPort'' 0) (\<lambda>hp.
           and_then (j_value_int J p ''containerPort'' 0) (\<lambda>cp.
           and_then (j_value_str J p ''proto'' ''tcp'') (\<lambda>proto.
             port_list J ps
               ((if out = [] then [] else out @ '', '') @
                string_of_int hp @ ''->'' @ string_of_int cp @ ''/'' @ proto)))))"

definition list_ports :: "('j, 'm) json_build_scheme \<Rightarrow> 'j \<Rightarrow> container_row \<Rightarrow> container_row or_throw" where
  "list_ports J cfg row =
     and_then (j_value J cfg ''publishedPorts'' (j_of_arr J [])) (\<lambda>ports.
       if j_is_array J ports
       then and_then (port_list J (j_items J ports) []) (\<lambda>out. Inr (row\<lparr>cr_ports := out\<rparr>))
       else Inr row)"

definition list_limits :: "('j, 'm) json_build_scheme \<Rightarrow> 'j \<Rightarrow> container_row \<Rightarrow> container_row or_throw" where
  "list_limits J cfg row =
     and_then (j_value J cfg ''resources'' (j_empty_object J)) (\<lambda>res.
       if j_is_object J res
       then and_then (value_word J res ''cpuOverhead'') (\<lambda>over.
            and_then (value_word J res ''cpus'') (\<lambda>cpus.
            and_then (value_word J res ''memoryInBytes'') (\<lambda>mem.
              Inr (row\<lparr>cr_cpus := ucast (over + cpus :: u32), cr_mem_limit := mem\<rparr>))))
       else Inr row)"

definition apply_list_json :: "('j, 'm) json_build_scheme \<Rightarrow> 'j \<Rightarrow> container_row \<Rightarrow> container_row or_throw" where
  "apply_list_json J entry row =
     (if \<not> j_is_object J entry then Inr row
      else and_then (j_value J entry ''configuration'' (j_empty_object J)) (\<lambda>cfg.
        if \<not> j_is_object J cfg then Inr row
        else and_then (list_image J cfg row) (\<lambda>row.
             and_then (list_name J entry cfg row) (\<lambda>row.
             and_then (list_status J entry row) (\<lambda>row.
             and_then (list_ports J cfg row) (list_limits J cfg))))))"

definition raw_of :: "('j, 'm) json_build_scheme \<Rightarrow> 'j \<Rightarrow> raw_sample or_throw" where
  "raw_of J e =
     and_then (value_word J e ''cpuUsageUsec'') (\<lambda>cpu.
     and_then (value_word J e ''networkRxBytes'') (\<lambda>rx.
     and_then (value_word J e ''networkTxBytes'') (\<lambda>tx.
     and_then (value_word J e ''blockReadBytes'') (\<lambda>rd.
     and_then (value_word J e ''blockWriteBytes'') (\<lambda>wr.
     and_then (value_word J e ''memoryUsageBytes'') (\<lambda>mem.
     and_then (value_word J e ''memoryLimitBytes'') (\<lambda>limit.
     and_then (value_word J e ''numProcesses'') (\<lambda>procs.
       Inr \<lparr>rs_cpu_usec = cpu, rs_net_rx = rx, rs_net_tx = tx, rs_blk_rd = rd, rs_blk_wr = wr,
            rs_mem_bytes = mem, rs_mem_limit = limit, rs_procs = procs\<rparr>))))))))"

fun stats_each :: "('j, 'm) json_build_scheme \<Rightarrow> 'j list \<Rightarrow> raw_map \<Rightarrow> raw_map or_throw" where
  "stats_each J [] out = Inr out"
| "stats_each J (e # es) out =
     (if \<not> j_is_object J e then stats_each J es out
      else and_then (j_value_str J e ''id'' []) (\<lambda>id.
        if id = [] then stats_each J es out
        else and_then (raw_of J e) (\<lambda>r. stats_each J es (put_sorted id r out))))"

definition parse_stats :: "('j, 'm) json_build_scheme \<Rightarrow> string \<Rightarrow> raw_map or_throw" where
  "parse_stats J s =
     (case j_parse J s of
        Inl e \<Rightarrow> Inr []
      | Inr arr \<Rightarrow> if j_is_array J arr then stats_each J (j_items J arr) [] else Inr [])"

section \<open>The host\<close>

definition swap_multiplier :: "string \<Rightarrow> double" where
  "swap_multiplier s =
     (case filter (\<lambda>c. c \<in> set ''BKMGTP'') s of
        [] \<Rightarrow> 1024 * 1024
      | c # _ \<Rightarrow>
          if c = CHR ''B'' then 1 else if c = CHR ''K'' then 1024
          else if c = CHR ''G'' then 1024 * 1024 * 1024
          else if c = CHR ''T'' then 1024 * 1024 * 1024 * 1024
          else 1024 * 1024)"

definition swap_value :: "string \<Rightarrow> string \<Rightarrow> u64" where
  "swap_value buf key =
     (case find_str key buf of
        None \<Rightarrow> 0
      | Some i \<Rightarrow>
          let s = drop (i + length key) buf;
              v = (case scan_double s of Some (v, _) \<Rightarrow> v | None \<Rightarrow> 0)
          in to_u64 (dmul v (swap_multiplier s)))"

text \<open>The text sysctl gives for vm.swapusage, None when the call fails: the totals stay 0.\<close>

definition parse_swap_usage :: "string option \<Rightarrow> u64 \<times> u64" where
  "parse_swap_usage usage =
     (case usage of None \<Rightarrow> (0, 0) | Some buf \<Rightarrow> (swap_value buf ''total = '', swap_value buf ''used = ''))"

record host_probe =
  hp_memory :: memory_stats
  hp_cores :: int
  hp_load :: "double \<times> double \<times> double"
  hp_metal :: "u64 option"
  hp_lock :: "serve_lock option \<times> string \<times> bool"
  hp_swap :: "string option"

definition host_summary_of :: "host_probe \<Rightarrow> host_summary" where
  "host_summary_of p =
     (let m = hp_memory p; freeable = free_bytes m + inactive_bytes m; safety = push_bit 31 1;
          (load1, load5, load15) = hp_load p; (lock, err, stale) = hp_lock p;
          served = (if \<not> stale \<and> err = [] then lock else None); (total, used) = parse_swap_usage (hp_swap p)
      in \<lparr>hs_mem_total = total_bytes m, hs_mem_used = active_bytes m + wired_bytes m + compressed_bytes m,
          hs_avail = (if safety < freeable then freeable - safety else 0),
          hs_cores = hp_cores p, hs_load1 = load1, hs_load5 = load5, hs_load15 = load15,
          hs_gpu_available = (hp_metal p \<noteq> None),
          hs_gpu_recommended = (case hp_metal p of Some b \<Rightarrow> b | None \<Rightarrow> 0),
          hs_serving = (served \<noteq> None),
          hs_model_name = (case served of
             Some l \<Rightarrow> if lk_display_name l = [] then lk_model_path l else lk_display_name l | None \<Rightarrow> []),
          hs_model_rss = (case served of Some l \<Rightarrow> lk_peak_rss_bytes l | None \<Rightarrow> 0),
          hs_swap_total = total, hs_swap_used = used\<rparr>)"

section \<open>One pass\<close>

fun statics_each :: "('j, 'm) json_build_scheme \<Rightarrow> 'j list \<Rightarrow> (string \<times> container_row) list \<Rightarrow> (string \<times> container_row) list or_throw" where
  "statics_each J [] out = Inr out"
| "statics_each J (e # es) out =
     and_then (apply_list_json J e empty_row) (\<lambda>row.
       statics_each J es (if cr_name row = [] then out else put_sorted (cr_name row) row out))"

definition statics_of :: "('j, 'm) json_build_scheme \<Rightarrow> string \<Rightarrow> (string \<times> container_row) list or_throw" where
  "statics_of J s =
     (if s = [] then Inr []
      else case j_parse J s of
             Inl e \<Rightarrow> Inr []
           | Inr arr \<Rightarrow> if j_is_array J arr then statics_each J (j_items J arr) [] else Inr [])"

definition rate_window :: "double \<Rightarrow> double" where
  "rate_window interval = (if rd (1 / 20) < interval then interval else 2)"

text \<open>The rate of a counter, -1 when it has gone back.\<close>

definition rate :: "double \<Rightarrow> u64 \<Rightarrow> u64 \<Rightarrow> double" where
  "rate window now before =
     (let d = dsub (of_u64 now) (of_u64 before) in if 0 \<le> d then ddiv d window else -1)"

definition cpu_rate :: "double \<Rightarrow> u64 \<Rightarrow> u64 \<Rightarrow> double" where
  "cpu_rate window now before =
     (let d = dsub (of_u64 now) (of_u64 before); p = dmul (ddiv d (dmul window 1000000)) 100
      in if 0 \<le> d then (if 1000000 < p then -1 else p) else -1)"

definition with_rates :: "double \<Rightarrow> raw_sample option \<Rightarrow> raw_sample \<Rightarrow> container_row \<Rightarrow> container_row" where
  "with_rates window before raw row =
     (case before of
        None \<Rightarrow> row
      | Some p \<Rightarrow>
          if rd (1 / 20) < window
          then row\<lparr>cr_cpu_pct := cpu_rate window (rs_cpu_usec raw) (rs_cpu_usec p),
                   cr_net_rx := rate window (rs_net_rx raw) (rs_net_rx p),
                   cr_net_tx := rate window (rs_net_tx raw) (rs_net_tx p),
                   cr_blk_rd := rate window (rs_blk_rd raw) (rs_blk_rd p),
                   cr_blk_wr := rate window (rs_blk_wr raw) (rs_blk_wr p)\<rparr>
          else row)"

definition live_row ::
  "double \<Rightarrow> raw_map \<Rightarrow> (string \<times> container_row) list \<Rightarrow> string \<Rightarrow> raw_sample \<Rightarrow> container_row" where
  "live_row window prev statics key raw =
     (let base = (case map_of statics key of
                    Some row \<Rightarrow> if cr_mem_limit row = 0 then row\<lparr>cr_mem_limit := rs_mem_limit raw\<rparr> else row
                  | None \<Rightarrow> empty_row\<lparr>cr_name := key, cr_state := ''running'', cr_mem_limit := rs_mem_limit raw\<rparr>);
          row = base\<lparr>cr_mem_bytes := rs_mem_bytes raw, cr_procs := rs_procs raw\<rparr>;
          row = (if 0 < cr_mem_limit row
                 then row\<lparr>cr_mem_pct := ddiv (dmul 100 (of_u64 (rs_mem_bytes raw))) (of_u64 (cr_mem_limit row))\<rparr>
                 else row)
      in with_rates window (map_of prev key) raw row)"

text \<open>Listed containers without statistics come last, with unknown rates.\<close>

definition gone_rows :: "raw_map \<Rightarrow> container_row list \<Rightarrow> (string \<times> container_row) list \<Rightarrow> container_row list" where
  "gone_rows now rows statics =
     foldl (\<lambda>out (name, srow).
       if name \<in> set (keys now) \<or> (\<exists>r \<in> set out. cr_name r = name) then out
       else out @ [srow\<lparr>cr_state := if cr_state srow = ''running'' then ''stopped?'' else cr_state srow\<rparr>])
     rows statics"

definition need_list :: "string \<Rightarrow> string \<Rightarrow> int \<Rightarrow> int \<Rightarrow> raw_map \<Rightarrow> bool" where
  "need_list cached listed count every now =
     (let need = (listed = [] \<or> count mod every = 0)
      in need \<or> (cached \<noteq> [] \<and>
           (\<exists>id \<in> set (keys now). \<not> contains_str (dquote # ''id'' @ [dquote]) cached \<or> \<not> contains_str id cached)))"

text \<open>The snapshot is moved into the store before it is returned: its vector and strings are empty.\<close>

definition moved_from :: "snapshot \<Rightarrow> snapshot" where
  "moved_from s = s\<lparr>sn_rows := [], sn_error := []\<rparr>"

record 'w sampled =
  sd_world :: 'w
  sd_returned :: snapshot
  sd_next :: raw_map
  sd_list :: string
  sd_stored :: snapshot

definition stats_of ::
  "('j, 'm) json_build_scheme \<Rightarrow> 'w cli \<Rightarrow> string \<Rightarrow> 'w \<Rightarrow> 'w \<times> (string \<times> raw_map) or_throw" where
  "stats_of J cli path w =
     (case stats_json cli path w of
        (w1, Inl e) \<Rightarrow> (w1, Inr (message e, []))
      | (w1, Inr s) \<Rightarrow> (w1, and_then (parse_stats J s) (\<lambda>now. Inr ([], now))))"

definition sample_once ::
  "('j, 'm) json_build_scheme \<Rightarrow> 'w cli \<Rightarrow> string \<Rightarrow> host_summary \<Rightarrow> raw_map \<Rightarrow> raw_map \<Rightarrow> string \<Rightarrow> string \<Rightarrow>
   int \<Rightarrow> double \<Rightarrow> int \<Rightarrow> snapshot \<Rightarrow> 'w \<Rightarrow> 'w sampled or_throw" where
  "sample_once J cli path host prev nxt cached listed count interval every stored w =
     (let snap = \<lparr>sn_rows = [], sn_host = host, sn_error = [], sn_missed = 0, sn_count = count, sn_interval = interval\<rparr>;
          (w1, stats) = stats_of J cli path w
      in and_then stats (\<lambda>(err, now).
           if now = []
           then let kept = snap\<lparr>sn_error := err, sn_rows := sn_rows stored, sn_missed := sn_missed stored + 1\<rparr>
                in Inr \<lparr>sd_world = w1, sd_returned = moved_from kept, sd_next = nxt, sd_list = listed, sd_stored = kept\<rparr>
           else
             let (w2, ls) = (if need_list cached listed count every now
                             then (case list_json cli path w1 of (w2, r) \<Rightarrow> (w2, Some r)) else (w1, None));
                 list1 = (case ls of Some (Inr s) \<Rightarrow> s | _ \<Rightarrow> listed);
                 err1 = (case ls of Some (Inl e) \<Rightarrow> if listed = [] then message e @ '' (ls)'' else [] | _ \<Rightarrow> [])
             in and_then (statics_of J list1) (\<lambda>statics.
                  let window = rate_window interval;
                      rows = map (\<lambda>(id, raw). live_row window prev statics id raw) now;
                      rows1 = (if list1 = [] then rows else gone_rows now rows statics);
                      done_snap = snap\<lparr>sn_rows := rows1, sn_error := err1\<rparr>
                  in Inr \<lparr>sd_world = w2, sd_returned = done_snap,
                          sd_next = foldl (\<lambda>m (id, raw). put_sorted id raw m) nxt now,
                          sd_list = list1, sd_stored = done_snap\<rparr>)))"

section \<open>The sampler's thread\<close>

text \<open>
  The two maps of counters are swapped after every pass, also after one that failed. The list that
  is passed as the cached one is always empty; ls is wanted on every fifth pass.
\<close>

record sampler =
  sm_prev :: raw_map
  sm_next :: raw_map
  sm_list :: string
  sm_count :: int
  sm_snap :: snapshot

definition sampler_pass ::
  "('j, 'm) json_build_scheme \<Rightarrow> 'w cli \<Rightarrow> string \<Rightarrow> host_summary \<Rightarrow> double \<Rightarrow> sampler \<Rightarrow> 'w \<Rightarrow> (sampler \<times> 'w) or_throw" where
  "sampler_pass J cli path host itv s w =
     and_then (sample_once J cli path host (sm_prev s) (sm_next s) [] (sm_list s) (sm_count s + 1) itv 5 (sm_snap s) w) (\<lambda>r.
       Inr (\<lparr>sm_prev = sd_next r, sm_next = sm_prev s, sm_list = sd_list r, sm_count = sm_count s + 1,
             sm_snap = sd_stored r\<rparr>, sd_world r))"

definition sampler_start :: "host_summary \<Rightarrow> sampler" where
  "sampler_start host =
     \<lparr>sm_prev = [], sm_next = [], sm_list = [], sm_count = 0,
      sm_snap = \<lparr>sn_rows = [], sn_host = host, sn_error = [], sn_missed = 0, sn_count = 0, sn_interval = 2\<rparr>\<rparr>"

text \<open>The first n passes, and what container stats gave in each, the last one first.\<close>

fun run_sampler ::
  "('j, 'm) json_build_scheme \<Rightarrow> 'w cli \<Rightarrow> string \<Rightarrow> host_summary \<Rightarrow> (nat \<Rightarrow> double) \<Rightarrow> nat \<Rightarrow> 'w \<Rightarrow>
   (sampler \<times> 'w \<times> raw_map list) or_throw" where
  "run_sampler J cli path host itv 0 w = Inr (sampler_start host, w, [])"
| "run_sampler J cli path host itv (Suc n) w =
     and_then (run_sampler J cli path host itv n w) (\<lambda>(s, w1, h).
     and_then (snd (stats_of J cli path w1)) (\<lambda>(err, now).
     and_then (sampler_pass J cli path host (itv n) s w1) (\<lambda>(s', w2). Inr (s', w2, now # h))))"

text \<open>The counters of a container in the latest pass that had it, an odd number of passes ago.\<close>

fun counters_before :: "raw_map list \<Rightarrow> string \<Rightarrow> raw_sample option" where
  "counters_before [] k = None"
| "counters_before [m] k = map_of m k"
| "counters_before (m # m' # h) k = (case map_of m k of Some r \<Rightarrow> Some r | None \<Rightarrow> counters_before h k)"

section \<open>Lemmas\<close>

lemma counters_before_Cons:
  "counters_before (m # h) k = (case map_of m k of Some r \<Rightarrow> Some r | None \<Rightarrow> counters_before (tl h) k)"
  by (cases h) (auto split: option.splits)

lemma need_list_cached: "need_list [] listed count every now \<longleftrightarrow> listed = [] \<or> count mod every = 0"
  by (simp add: need_list_def)

lemma stats_each_sorted: "stats_each J es out = Inr now \<Longrightarrow> sorted_keys out \<Longrightarrow> sorted_keys now"
  by (induction J es out rule: stats_each.induct)
    (auto simp: and_then_Inr sorted_put_sorted split: if_splits)

lemma stats_of_sorted: "snd (stats_of J cli path w) = Inr (err, now) \<Longrightarrow> sorted_keys now"
  by (auto simp: stats_of_def parse_stats_def and_then_Inr dest: stats_each_sorted
      split: prod.splits sum.splits if_splits)

lemma foldl_put_sorted:
  "sorted_keys m \<Longrightarrow> sorted_keys now \<Longrightarrow>
   sorted_keys (foldl (\<lambda>m (i, r). put_sorted i r m) m now) \<and>
   map_of (foldl (\<lambda>m (i, r). put_sorted i r m) m now) k =
     (case map_of now k of Some r \<Rightarrow> Some r | None \<Rightarrow> map_of m k)"
proof (induction now arbitrary: m)
  case (Cons ir now)
  obtain i r where ir: "ir = (i, r)" by (cases ir)
  have "map_of now i = None"
    using Cons.prems(2) ir by (auto simp: map_of_keys)
  with Cons ir show ?case by (auto simp: sorted_put_sorted split: option.splits)
qed simp

text \<open>A row read from the list has no rates, and is filed under its name.\<close>

lemma list_image_rate: "list_image J cfg row = Inr row' \<Longrightarrow> cr_cpu_pct row' = cr_cpu_pct row"
  unfolding list_image_def Let_def by (auto simp: and_then_Inr split: if_splits)

lemma list_name_rate: "list_name J e cfg row = Inr row' \<Longrightarrow> cr_cpu_pct row' = cr_cpu_pct row"
  unfolding list_name_def Let_def by (auto simp: and_then_Inr split: if_splits)

lemma list_status_rate: "list_status J e row = Inr row' \<Longrightarrow> cr_cpu_pct row' = cr_cpu_pct row"
  unfolding list_status_def Let_def by (auto simp: and_then_Inr split: if_splits)

lemma list_ports_rate: "list_ports J cfg row = Inr row' \<Longrightarrow> cr_cpu_pct row' = cr_cpu_pct row"
  unfolding list_ports_def Let_def by (auto simp: and_then_Inr split: if_splits)

lemma list_limits_rate: "list_limits J cfg row = Inr row' \<Longrightarrow> cr_cpu_pct row' = cr_cpu_pct row"
  unfolding list_limits_def Let_def by (auto simp: and_then_Inr split: if_splits)

lemma apply_list_json_rates:
  assumes "apply_list_json J e row = Inr row'"
  shows "cr_cpu_pct row' = cr_cpu_pct row"
proof (cases "row' = row")
  case False
  with assms obtain cfg r1 r2 r3 r4 where
    "list_image J cfg row = Inr r1" "list_name J e cfg r1 = Inr r2" "list_status J e r2 = Inr r3"
    "list_ports J cfg r3 = Inr r4" "list_limits J cfg r4 = Inr row'"
    unfolding apply_list_json_def by (fastforce simp: and_then_Inr split: if_splits)
  then show ?thesis
    by (simp add: list_image_rate list_name_rate list_status_rate list_ports_rate list_limits_rate)
qed simp

definition filed :: "(string \<times> container_row) list \<Rightarrow> bool" where
  "filed st \<longleftrightarrow> list_all (\<lambda>(n, r). cr_name r = n \<and> cr_cpu_pct r = -1) st"

lemma filed_put: "filed st \<Longrightarrow> cr_cpu_pct row = -1 \<Longrightarrow> filed (put_sorted (cr_name row) row st)"
proof (induction st)
  case (Cons x st)
  then show ?case by (cases x) (simp add: filed_def)
qed (simp add: filed_def)

lemma statics_each_filed: "statics_each J es out = Inr st \<Longrightarrow> filed out \<Longrightarrow> filed st"
proof (induction es arbitrary: out)
  case (Cons e es)
  from Cons.prems(1) obtain row where row: "apply_list_json J e empty_row = Inr row"
    "statics_each J es (if cr_name row = [] then out else put_sorted (cr_name row) row out) = Inr st"
    by (auto simp: and_then_Inr)
  have "cr_cpu_pct row = -1" using apply_list_json_rates [OF row(1)] by (simp add: empty_row_def)
  then have "filed (if cr_name row = [] then out else put_sorted (cr_name row) row out)"
    using Cons.prems(2) by (simp add: filed_put)
  then show ?case by (rule Cons.IH [OF row(2)])
qed simp

lemma statics_of_entries:
  assumes "statics_of J s = Inr st" "map_of st k = Some r"
  shows "cr_name r = k \<and> cr_cpu_pct r = -1"
proof -
  have "st = [] \<or> (\<exists>es. statics_each J es [] = Inr st)"
    using assms(1) unfolding statics_of_def by (auto split: if_splits sum.splits)
  then have "filed st" by (auto simp: filed_def intro: statics_each_filed [of J _ "[]"] dest: statics_each_filed)
  with map_of_SomeD [OF assms(2)] show ?thesis by (auto simp: filed_def list_all_iff)
qed

lemma rate_window_long: "rd (1 / 20) < rate_window i"
proof -
  have "rd (1 / 20) < 2" by code_simp
  then show ?thesis by (simp add: rate_window_def)
qed

lemma with_rates_fields:
  "cr_name (with_rates w before raw row) = cr_name row"
  "cr_cpu_pct (with_rates (rate_window i) before raw row) =
     (case before of None \<Rightarrow> cr_cpu_pct row
      | Some p \<Rightarrow> cpu_rate (rate_window i) (rs_cpu_usec raw) (rs_cpu_usec p))"
  using rate_window_long [of i] by (cases before; simp add: with_rates_def)+

definition base_row :: "(string \<times> container_row) list \<Rightarrow> string \<Rightarrow> raw_sample \<Rightarrow> container_row" where
  "base_row statics key raw =
     (case map_of statics key of
        Some row \<Rightarrow> if cr_mem_limit row = 0 then row\<lparr>cr_mem_limit := rs_mem_limit raw\<rparr> else row
      | None \<Rightarrow> empty_row\<lparr>cr_name := key, cr_state := ''running'', cr_mem_limit := rs_mem_limit raw\<rparr>)"

lemma base_row_fields:
  assumes "statics_of J s = Inr st"
  shows "cr_name (base_row st k raw) = k" "cr_cpu_pct (base_row st k raw) = -1"
  using statics_of_entries [OF assms, of k] by (simp_all add: base_row_def empty_row_def split: option.splits)

lemma live_row_rate:
  assumes "statics_of J s = Inr st"
  shows "cr_name (live_row (rate_window i) prev st k raw) = k"
    and "cr_cpu_pct (live_row (rate_window i) prev st k raw) =
      (case map_of prev k of None \<Rightarrow> -1 | Some p \<Rightarrow> cpu_rate (rate_window i) (rs_cpu_usec raw) (rs_cpu_usec p))"
  unfolding live_row_def base_row_def [symmetric] Let_def
  by (simp_all add: with_rates_fields base_row_fields [OF assms] split: option.split)

text \<open>One pass: the counters, and the rows of the containers it has seen.\<close>

lemma gone_rows_keep: "set rows \<subseteq> set (gone_rows now rows st)"
proof -
  have "set rows \<subseteq> set (foldl (\<lambda>out (name, srow). if P name out then out else out @ [f srow]) rows st)" for P f
  proof (induction st arbitrary: rows)
    case (Cons x st)
    obtain n r where x: "x = (n, r)" by (cases x)
    have "set rows \<subseteq> set (if P n rows then rows else rows @ [f r])" by auto
    also have "\<dots> \<subseteq> set (foldl (\<lambda>out (name, srow). if P name out then out else out @ [f srow])
        (if P n rows then rows else rows @ [f r]) st)" by (rule Cons.IH)
    finally show ?case using x by simp
  qed simp
  then show ?thesis unfolding gone_rows_def .
qed

lemma sample_once_result:
  assumes "sample_once J cli path host prev nxt cached listed count itv every stored w = Inr r"
    and "snd (stats_of J cli path w) = Inr (err, now)"
  shows "sd_next r = foldl (\<lambda>m (i, r). put_sorted i r m) nxt now"
    and "now \<noteq> [] \<Longrightarrow> \<exists>st. statics_of J (sd_list r) = Inr st \<and>
      (\<forall>(k, raw) \<in> set now. live_row (rate_window itv) prev st k raw \<in> set (sn_rows (sd_stored r)))"
proof -
  obtain w1 where w1: "stats_of J cli path w = (w1, Inr (err, now))" using assms(2) by (metis prod.collapse)
  show "sd_next r = foldl (\<lambda>m (i, r). put_sorted i r m) nxt now"
    using assms(1) unfolding sample_once_def w1 by (auto simp: Let_def and_then_Inr split: if_splits prod.splits)
  assume ne: "now \<noteq> []"
  obtain listed' st rows where "statics_of J listed' = Inr st" "sd_list r = listed'"
    "rows = map (\<lambda>(k, raw). live_row (rate_window itv) prev st k raw) now"
    "sn_rows (sd_stored r) = (if listed' = [] then rows else gone_rows now rows st)"
    using assms(1) ne unfolding sample_once_def w1
    by (auto simp: Let_def and_then_Inr split: if_splits prod.splits)
  then show "\<exists>st. statics_of J (sd_list r) = Inr st \<and>
      (\<forall>(k, raw) \<in> set now. live_row (rate_window itv) prev st k raw \<in> set (sn_rows (sd_stored r)))"
    using gone_rows_keep [of rows now st] by (auto split: if_splits)
qed

lemma sampler_pass_result:
  assumes "sampler_pass J cli path host itv s w = Inr (s', w')"
    and "snd (stats_of J cli path w) = Inr (err, now)"
  shows "sm_prev s' = foldl (\<lambda>m (i, r). put_sorted i r m) (sm_next s) now" "sm_next s' = sm_prev s"
    and "map_of now k = Some raw \<Longrightarrow> \<exists>row \<in> set (sn_rows (sm_snap s')). cr_name row = k \<and>
      cr_cpu_pct row = (case map_of (sm_prev s) k of
         None \<Rightarrow> -1 | Some p \<Rightarrow> cpu_rate (rate_window itv) (rs_cpu_usec raw) (rs_cpu_usec p))"
proof -
  obtain r where r: "sample_once J cli path host (sm_prev s) (sm_next s) [] (sm_list s) (sm_count s + 1) itv 5 (sm_snap s) w = Inr r"
    "sm_prev s' = sd_next r" "sm_next s' = sm_prev s" "sm_snap s' = sd_stored r"
    using assms(1) by (auto simp: sampler_pass_def and_then_Inr)
  note one = sample_once_result [OF r(1) assms(2)]
  show "sm_prev s' = foldl (\<lambda>m (i, r). put_sorted i r m) (sm_next s) now" "sm_next s' = sm_prev s"
    using one(1) r by simp_all
  assume now: "map_of now k = Some raw"
  then have "(k, raw) \<in> set now" "now \<noteq> []" by (auto dest: map_of_SomeD)
  with one(2) obtain st where st: "statics_of J (sd_list r) = Inr st"
    "live_row (rate_window itv) (sm_prev s) st k raw \<in> set (sn_rows (sm_snap s'))"
    using r(4) by auto
  show "\<exists>row \<in> set (sn_rows (sm_snap s')). cr_name row = k \<and>
      cr_cpu_pct row = (case map_of (sm_prev s) k of
         None \<Rightarrow> -1 | Some p \<Rightarrow> cpu_rate (rate_window itv) (rs_cpu_usec raw) (rs_cpu_usec p))"
    using st(2) live_row_rate [OF st(1)] by blast
qed

lemma run_sampler_counters:
  "run_sampler J cli path host itv n w0 = Inr (s, w, h) \<Longrightarrow>
   sorted_keys (sm_prev s) \<and> sorted_keys (sm_next s) \<and>
   map_of (sm_prev s) k = counters_before h k \<and> map_of (sm_next s) k = counters_before (tl h) k"
proof (induction n arbitrary: s w h)
  case 0
  then show ?case by (auto simp: sampler_start_def)
next
  case (Suc n)
  then obtain s1 w1 h1 err now where run: "run_sampler J cli path host itv n w0 = Inr (s1, w1, h1)"
    and now: "snd (stats_of J cli path w1) = Inr (err, now)"
    and step: "sampler_pass J cli path host (itv n) s1 w1 = Inr (s, w)" and h: "h = now # h1"
    by (auto simp: and_then_Inr)
  note IH = Suc.IH [OF run] and res = sampler_pass_result(1,2) [OF step now]
  have "sorted_keys (sm_next s1)" using IH by blast
  from foldl_put_sorted [OF this stats_of_sorted [OF now], of k] IH show ?case
    by (simp add: res h counters_before_Cons split: option.split)
qed

text \<open>
  C29. The rate a pass shows for a container is computed against its counters in the latest pass that
  had it among the passes an odd number of steps ago: the passes fill two maps in turn, and both are
  kept when container stats fails or leaves the container out. Without a failure that is the pass
  before. After a failed pass it is a pass three steps ago or more, while the rate is still divided
  by one interval.
\<close>

theorem rates_skip_failed_passes:
  assumes "run_sampler J cli path host itv n w0 = Inr (s, w, h)"
    and "snd (stats_of J cli path w) = Inr (err, now)" "map_of now k = Some raw"
    and "sampler_pass J cli path host i s w = Inr (s', w')"
  shows "\<exists>row \<in> set (sn_rows (sm_snap s')). cr_name row = k \<and>
      cr_cpu_pct row = (case counters_before h k of
         None \<Rightarrow> -1 | Some p \<Rightarrow> cpu_rate (rate_window i) (rs_cpu_usec raw) (rs_cpu_usec p))"
  using sampler_pass_result(3) [OF assms(4,2,3)] run_sampler_counters [OF assms(1), of k] by simp

section \<open>Witness\<close>

text \<open>
  A container that uses one core all the time, sampled every two seconds; the third call of container
  stats fails. The fourth pass shows 300 percent.
\<close>

definition demo_stats :: "int \<Rightarrow> tree" where
  "demo_stats usec = TArr [TObj [(''id'', TStr ''c''), (''cpuUsageUsec'', TInt usec)]]"

definition demo_json :: "tree json_build" where
  "demo_json = tree_json\<lparr>j_parse := (\<lambda>s.
     if s = ''a'' then Inr (demo_stats 1000000) else if s = ''b'' then Inr (demo_stats 3000000)
     else if s = ''d'' then Inr (demo_stats 7000000) else Inr (TArr []))\<rparr>"

definition demo_cli :: "nat cli" where
  "demo_cli w argv = (w + 1,
     \<lparr>exit_code = (if w = 3 then 1 else 0), stdout_text = (if w = 0 then ''a'' else if w = 2 then ''b'' else if w = 4 then ''d'' else ''ls''),
      stderr_text = []\<rparr>)"

definition demo_host :: host_summary where
  "demo_host = \<lparr>hs_mem_total = 0, hs_mem_used = 0, hs_avail = 0, hs_cores = 1, hs_load1 = 0, hs_load5 = 0,
     hs_load15 = 0, hs_gpu_available = False, hs_gpu_recommended = 0, hs_serving = False, hs_model_name = [],
     hs_model_rss = 0, hs_swap_total = 0, hs_swap_used = 0\<rparr>"

abbreviation demo_run :: "nat \<Rightarrow> (sampler \<times> nat \<times> raw_map list) or_throw" where
  "demo_run n \<equiv> run_sampler demo_json demo_cli ''container'' demo_host (\<lambda>i. 2) n 0"

lemma demo_three_passes:
  "case demo_run 3 of
     Inl e \<Rightarrow> False
   | Inr (s, w, h) \<Rightarrow>
       map_option rs_cpu_usec (counters_before h ''c'') = Some 1000000 \<and>
       (case snd (stats_of demo_json demo_cli ''container'' w) of
          Inl e \<Rightarrow> False | Inr (err, now) \<Rightarrow> map_option rs_cpu_usec (map_of now ''c'') = Some 7000000) \<and>
       (case sampler_pass demo_json demo_cli ''container'' demo_host 2 s w of Inl e \<Rightarrow> False | Inr x \<Rightarrow> True)"
  by code_simp

lemma demo_rate: "cpu_rate (rate_window 2) 7000000 1000000 = 300"
  by code_simp

theorem rates_skip_failed_passes_witness:
  "\<exists>s w h s' w'. demo_run 3 = Inr (s, w, h) \<and>
     sampler_pass demo_json demo_cli ''container'' demo_host 2 s w = Inr (s', w') \<and>
     (\<exists>row \<in> set (sn_rows (sm_snap s')). cr_name row = ''c'' \<and> cr_cpu_pct row = 300)"
proof -
  obtain s w h err now raw p s' w' where run: "demo_run 3 = Inr (s, w, h)"
    and before: "counters_before h ''c'' = Some p" "rs_cpu_usec p = 1000000"
    and now: "snd (stats_of demo_json demo_cli ''container'' w) = Inr (err, now)"
    and raw: "map_of now ''c'' = Some raw" "rs_cpu_usec raw = 7000000"
    and step: "sampler_pass demo_json demo_cli ''container'' demo_host 2 s w = Inr (s', w')"
    using demo_three_passes by (auto split: sum.splits prod.splits)
  have "\<exists>row \<in> set (sn_rows (sm_snap s')). cr_name row = ''c'' \<and> cr_cpu_pct row = 300"
    using rates_skip_failed_passes [OF run now raw(1) step] by (simp add: before raw(2) demo_rate)
  with run step show ?thesis by blast
qed

end
