(* ===== verification/Render.thy ===== *)
theory Render
  imports Sampler "HOL-Library.Multiset"
begin

text \<open>
  top/render.cpp: the formatting helpers, the panels and the graph of the dashboard, the order of the
  rows, the screen and the one-shot table. A string is its bytes; a glyph outside ASCII is written as
  its UTF-8 bytes. The history of the graphs, a static object of the source, is part of the result.
\<close>

section \<open>Glyphs and colours\<close>

definition bar_fill :: string where "bar_fill = [CHR 0xE2, CHR 0x96, CHR 0x88]"
definition bar_rest :: string where "bar_rest = [CHR 0xE2, CHR 0x96, CHR 0x91]"
definition row_marker :: string where "row_marker = [CHR 0xE2, CHR 0x96, CHR 0xB8]"
definition dots :: string where "dots = [CHR 0xE2, CHR 0x80, CHR 0xA6]"
definition arrow_up :: string where "arrow_up = [CHR 0xE2, CHR 0x86, CHR 0x91]"
definition arrow_down :: string where "arrow_down = [CHR 0xE2, CHR 0x86, CHR 0x93]"
definition top_left :: string where "top_left = [CHR 0xE2, CHR 0x95, CHR 0xAD]"
definition top_right :: string where "top_right = [CHR 0xE2, CHR 0x95, CHR 0xAE]"
definition bot_left :: string where "bot_left = [CHR 0xE2, CHR 0x95, CHR 0xB0]"
definition bot_right :: string where "bot_right = [CHR 0xE2, CHR 0x95, CHR 0xAF]"
definition horz :: string where "horz = [CHR 0xE2, CHR 0x94, CHR 0x80]"
definition vert :: string where "vert = [CHR 0xE2, CHR 0x94, CHR 0x82]"
abbreviation esc :: char where "esc \<equiv> CHR 0x1B"

definition frame_col :: string where "frame_col = esc # ''[2;36m''"
definition title_col :: string where "title_col = esc # ''[1;36m''"
definition cpu_col :: string where "cpu_col = esc # ''[92m''"
definition mem_col :: string where "mem_col = esc # ''[95m''"
definition net_col :: string where "net_col = esc # ''[96m''"
definition reset_col :: string where "reset_col = esc # ''[0m''"

section \<open>Widths\<close>

text \<open>The bytes of the glyph a byte begins.\<close>

definition glyph_len :: "char \<Rightarrow> nat" where
  "glyph_len c =
     (let n = char_nat c in if n < 128 then 1 else if n div 32 = 6 then 2 else if n div 16 = 14 then 3 else 4)"

text \<open>An escape sequence, up to its letter m, has no width; every other glyph has one column.\<close>

function disp_width :: "string \<Rightarrow> nat" where
  "disp_width [] = 0"
| "disp_width (c # s) =
     (if c = esc then disp_width (drop 1 (dropWhile (\<lambda>d. d \<noteq> CHR ''m'') s))
      else Suc (disp_width (drop (glyph_len c - 1) s)))"
  by pat_completeness auto
termination
proof (relation "measure length")
  fix c and s :: string
  have "length (drop 1 (dropWhile (\<lambda>d. d \<noteq> CHR ''m'') s)) \<le> length s"
    using length_dropWhile_le [of "\<lambda>d. d \<noteq> CHR ''m''" s] by simp
  then show "(drop 1 (dropWhile (\<lambda>d. d \<noteq> CHR ''m'') s), c # s) \<in> measure length" by simp
qed auto

definition pad :: "string \<Rightarrow> nat \<Rightarrow> string" where
  "pad s w = s @ replicate (w - disp_width s) (CHR '' '')"

text \<open>The first n glyphs; the bytes of an escape sequence are taken for glyphs here.\<close>

fun take_glyphs :: "nat \<Rightarrow> string \<Rightarrow> string" where
  "take_glyphs 0 s = []"
| "take_glyphs (Suc n) [] = []"
| "take_glyphs (Suc n) (c # s) = take (glyph_len c) (c # s) @ take_glyphs n (drop (glyph_len c) (c # s))"

definition clip :: "string \<Rightarrow> nat \<Rightarrow> string" where
  "clip s w =
     (if disp_width s \<le> w then s else if w \<le> 1 then take w s else take_glyphs (w - 1) s @ dots)"

definition clip_cols :: "string \<Rightarrow> int \<Rightarrow> string" where
  "clip_cols s cols =
     (if int (disp_width s) \<le> cols then s
      else (if 1 \<le> cols then take_glyphs (nat (cols - 1)) s else s) @ dots)"

section \<open>Numbers\<close>

function compact_loop :: "double \<Rightarrow> nat \<Rightarrow> double \<times> nat" where
  "compact_loop v u = (if 1024 \<le> v \<and> u < 4 then compact_loop (ddiv v 1024) (u + 1) else (v, u))"
  by pat_completeness auto
termination by (relation "measure (\<lambda>(v, u). 4 - u)") auto

declare compact_loop.simps [simp del]

definition compact_bytes :: "double \<Rightarrow> string" where
  "compact_bytes bytes =
     (if bytes < 0 then ''-''
      else let (v, u) = compact_loop bytes 0
           in fixed_point (if 100 \<le> v \<or> u = 0 then 0 else 1) v @ [''BKMGT'' ! u])"

definition fmt_rate :: "double \<Rightarrow> string" where
  "fmt_rate bps = (if bps < 0 then ''-'' else compact_bytes bps @ ''/s'')"

definition fmt_pct :: "double \<Rightarrow> string" where
  "fmt_pct pct = (if pct < 0 then ''-'' else fixed_point (if 100 \<le> pct then 0 else 1) pct @ ''%'')"

definition bar :: "double \<Rightarrow> bool \<Rightarrow> string" where
  "bar pct color =
     (let filled = nat (clamp (if 0 < pct then lround (dmul (ddiv pct 100) 10) else 0) 0 10)
      in concat (map (\<lambda>i. if color then (if i < filled then bar_fill else bar_rest)
                          else (if i < filled then ''#'' else ''-'')) [0..<10]))"

definition heat :: "double \<Rightarrow> double \<Rightarrow> double \<Rightarrow> string" where
  "heat pct yellow red =
     (if red \<le> pct then esc # ''[31m'' else if yellow \<le> pct then esc # ''[33m'' else esc # ''[32m'')"

definition colorize :: "string \<Rightarrow> string \<Rightarrow> bool \<Rightarrow> string" where
  "colorize s code color = (if color then code @ s @ reset_col else s)"

definition dim :: "string \<Rightarrow> bool \<Rightarrow> string" where
  "dim s color = colorize s (esc # ''[2m'') color"

section \<open>Panels\<close>

definition lines_of_glyph :: "string \<Rightarrow> int \<Rightarrow> string" where
  "lines_of_glyph g n = concat (replicate (nat n) g)"

definition panel_top :: "string \<Rightarrow> int \<Rightarrow> bool \<Rightarrow> string" where
  "panel_top title width color =
     (let inner = max 1 (width - 2 - int (disp_width title) - 2 - 1)
      in (if color then frame_col else []) @ top_left @ horz @ (if color then reset_col @ title_col else []) @
         '' '' @ title @ '' '' @ (if color then reset_col @ frame_col else []) @
         lines_of_glyph horz inner @ top_right @ (if color then reset_col else []))"

definition panel_bottom :: "int \<Rightarrow> bool \<Rightarrow> string" where
  "panel_bottom width color =
     (if color then frame_col else []) @ bot_left @ lines_of_glyph horz (width - 2) @ bot_right @
     (if color then reset_col else [])"

definition panel_line :: "string \<Rightarrow> int \<Rightarrow> bool \<Rightarrow> string" where
  "panel_line s width color =
     (let inner = max (width - 4) 1; body = clip_cols s inner; pad_n = inner - int (disp_width body)
      in (if color then frame_col else []) @ vert @ (if color then reset_col else []) @ '' '' @ body @
         replicate (nat pad_n) (CHR '' '') @ (if color then frame_col else []) @ vert @
         (if color then reset_col else []))"

section \<open>The graph\<close>

text \<open>The bit of a pixel in the left or the right column of a braille glyph, rows counted from below.\<close>

definition dot_bit :: "nat \<Rightarrow> nat \<Rightarrow> u32" where
  "dot_bit sub r = (if sub = 0 then [0x40, 0x04, 0x02, 0x01] ! r else [0x80, 0x20, 0x10, 0x08] ! r)"

definition pixel_height :: "double \<Rightarrow> int \<Rightarrow> int" where
  "pixel_height value px_rows =
     (let v = clamp (if value < 0 then 0 else value) 0 1; h = lround (dmul v (of_int px_rows))
      in if 0 < v \<and> h = 0 then 1 else h)"

definition cell_bits :: "double list \<Rightarrow> int \<Rightarrow> int \<Rightarrow> int \<Rightarrow> int \<Rightarrow> u32" where
  "cell_bits values px_cols px_rows base c =
     foldl (\<lambda>bits sub.
       let idx = int (length values) - px_cols + c * 2 + int sub
       in if idx < 0 then bits
          else foldl (\<lambda>bits r.
                 if base + int r < pixel_height (values ! nat idx) px_rows then bits OR dot_bit sub r else bits)
               bits [0..<4])
     0 [0..<2]"

definition utf8_cell :: "u32 \<Rightarrow> string" where
  "utf8_cell bits =
     (let cp = 0x2800 + bits
      in map (\<lambda>w. char_of (unat w)) [0xE0 OR drop_bit 12 cp, 0x80 OR (drop_bit 6 cp AND 0x3F), 0x80 OR (cp AND 0x3F)])"

definition braille_graph :: "double list \<Rightarrow> int \<Rightarrow> nat \<Rightarrow> string list" where
  "braille_graph values cells rows =
     (if cells < 1 \<or> rows < 1 then replicate rows []
      else map (\<lambda>row. concat (map (\<lambda>c. utf8_cell
                 (cell_bits values (cells * 2) (int rows * 4) ((int rows - 1 - int row) * 4) (int c)))
               [0..<nat cells])) [0..<rows])"

record graph_history =
  gh_cpu :: "double list"
  gh_mem :: "double list"
  gh_rx :: "double list"
  gh_tx :: "double list"
  gh_last :: int

definition hist_cap :: nat where
  "hist_cap = 300"

definition push_value :: "double list \<Rightarrow> double \<Rightarrow> double list" where
  "push_value v x = (let v1 = v @ [x] in if hist_cap < length v1 then tl v1 else v1)"

definition load_share :: "host_summary \<Rightarrow> double" where
  "load_share h = clamp (ddiv (hs_load1 h) (if 0 < hs_cores h then rd (of_int (hs_cores h)) else 1)) 0 1"

definition positive_sum :: "(container_row \<Rightarrow> double) \<Rightarrow> container_row list \<Rightarrow> double" where
  "positive_sum f rows = foldl (\<lambda>acc r. if 0 < f r then dadd acc (f r) else acc) 0 rows"

definition push_history :: "graph_history \<Rightarrow> snapshot \<Rightarrow> graph_history" where
  "push_history g snap =
     (if sn_count snap = gh_last g then g
      else let h = sn_host snap
           in \<lparr>gh_cpu = push_value (gh_cpu g) (load_share h),
               gh_mem = push_value (gh_mem g)
                 (if 0 < hs_mem_total h then ddiv (of_u64 (hs_mem_used h)) (of_u64 (hs_mem_total h)) else 0),
               gh_rx = push_value (gh_rx g) (positive_sum cr_net_rx (sn_rows snap)),
               gh_tx = push_value (gh_tx g) (positive_sum cr_net_tx (sn_rows snap)),
               gh_last = sn_count snap\<rparr>)"

section \<open>The order of the rows\<close>

text \<open>
  The comparisons handed to std::sort. It leaves the order of equivalent rows open; rows with
  different names are never equivalent.
\<close>

definition net_sum :: "container_row \<Rightarrow> double" where
  "net_sum r = dadd (if 0 < cr_net_rx r then cr_net_rx r else 0) (if 0 < cr_net_tx r then cr_net_tx r else 0)"

fun row_before :: "sort_key \<Rightarrow> container_row \<Rightarrow> container_row \<Rightarrow> bool" where
  "row_before Cpu a b =
     (if (cr_cpu_pct a < 0) \<noteq> (cr_cpu_pct b < 0) then cr_cpu_pct b < 0
      else if cr_cpu_pct a \<noteq> cr_cpu_pct b then cr_cpu_pct b < cr_cpu_pct a
      else str_less (cr_name a) (cr_name b))"
| "row_before Mem a b =
     (if cr_mem_bytes a \<noteq> cr_mem_bytes b then cr_mem_bytes b < cr_mem_bytes a
      else str_less (cr_name a) (cr_name b))"
| "row_before Net a b =
     (if net_sum a \<noteq> net_sum b then net_sum b < net_sum a else str_less (cr_name a) (cr_name b))"
| "row_before Name a b = str_less (cr_name a) (cr_name b)"

fun insert_row :: "sort_key \<Rightarrow> container_row \<Rightarrow> container_row list \<Rightarrow> container_row list" where
  "insert_row key r [] = [r]"
| "insert_row key r (x # xs) = (if row_before key r x then r # x # xs else x # insert_row key r xs)"

definition sort_rows :: "sort_key \<Rightarrow> container_row list \<Rightarrow> container_row list" where
  "sort_rows key rows = foldr (insert_row key) rows []"

section \<open>Rows of the table\<close>

definition mem_text :: "container_row \<Rightarrow> string" where
  "mem_text r =
     compact_bytes (of_u64 (cr_mem_bytes r)) @
     (if 0 < cr_mem_limit r then ''/'' @ compact_bytes (of_u64 (cr_mem_limit r)) else [])"

definition procs_text :: "container_row \<Rightarrow> string" where
  "procs_text r = (if 0 < cr_procs r then digits_of (unat (cr_procs r)) else ''-'')"

definition render_row_line :: "container_row \<Rightarrow> nat \<Rightarrow> nat \<Rightarrow> bool \<Rightarrow> bool \<Rightarrow> string" where
  "render_row_line r name_w total_width color selected =
     (let name_col = pad (clip (cr_name r) name_w) name_w;
          mem = pad (mem_text r) 12;
          membar = bar (cr_mem_pct r) color;
          mempct = pad (fmt_pct (cr_mem_pct r)) 7;
          net = pad (fmt_rate (cr_net_rx r)) 9 @ '' '' @ pad (fmt_rate (cr_net_tx r)) 9;
          disk = pad (fmt_rate (cr_blk_rd r)) 9 @ '' '' @ pad (fmt_rate (cr_blk_wr r)) 9;
          cpu = pad (fmt_pct (cr_cpu_pct r)) 7;
          procs = pad (procs_text r) 3;
          body = name_col @ cpu @ mem @ membar @ '' '' @ mempct @ net @ ''  '' @ disk @ ''  '' @ procs;
          image = (if length body + 1 < total_width then '' '' @ clip (cr_image r) (total_width - length body - 1) else [])
      in if \<not> color then (if selected then ''> '' else ''  '') @ body @ image
         else (if selected then esc # ''[1m'' else []) @ (if selected then row_marker else '' '') @ '' '' @ reset_col @
              name_col @
              (if 0 \<le> cr_cpu_pct r then heat (cr_cpu_pct r) 50 80 @ cpu @ reset_col else dim cpu True) @
              (if 0 \<le> cr_mem_pct r
               then let hs = heat (cr_mem_pct r) 60 85 in hs @ mem @ reset_col @ hs @ membar @ reset_col
               else dim mem True @ dim membar True) @
              '' '' @ dim (mempct @ net) True @ ''  '' @ dim (disk @ ''  '' @ procs) True @ image)"

section \<open>The screen\<close>

definition join_panels :: "string list \<Rightarrow> string list \<Rightarrow> string list" where
  "join_panels left right =
     map (\<lambda>i. left ! i @ (if i < length right then right ! i else [])) [0..<length left]"

definition mem_share :: "host_summary \<Rightarrow> double" where
  "mem_share h = (if 0 < hs_mem_total h then ddiv (dmul 100 (of_u64 (hs_mem_used h))) (of_u64 (hs_mem_total h)) else 0)"

definition load_text :: "host_summary \<Rightarrow> string" where
  "load_text h =
     fmt_pct (dmul (load_share h) 100) @ ''  load '' @ fixed_point 2 (hs_load1 h) @ '' '' @
     fixed_point 2 (hs_load5 h) @ '' '' @ fixed_point 2 (hs_load15 h) @ ''  '' @ string_of_int (hs_cores h) @ '' cores''"

definition wide_host_panel :: "graph_history \<Rightarrow> host_summary \<Rightarrow> int \<Rightarrow> bool \<Rightarrow> string list" where
  "wide_host_panel g h width color =
     (let half_w = width div 2; rx_w = width - half_w;
          lcpu = [panel_top ''cpu'' half_w color] @
            map (\<lambda>gl. panel_line (colorize gl cpu_col color) half_w color) (braille_graph (gh_cpu g) (half_w - 4) 2) @
            [panel_line (load_text h) half_w color, panel_bottom half_w color];
          lmem = [panel_top ''mem'' rx_w color] @
            map (\<lambda>gl. panel_line (colorize gl mem_col color) rx_w color) (braille_graph (gh_mem g) (rx_w - 4) 2) @
            [panel_line (fmt_pct (mem_share h) @ '' of '' @ human_bytes (hs_mem_total h) @ ''  used '' @
               human_bytes (hs_mem_used h)) rx_w color, panel_bottom rx_w color]
      in join_panels lcpu lmem)"

definition narrow_host_panel :: "host_summary \<Rightarrow> int \<Rightarrow> bool \<Rightarrow> string list" where
  "narrow_host_panel h width color =
     [panel_top ''host'' width color,
      panel_line (''cpu '' @ load_text h) width color,
      panel_line (''mem '' @ fmt_pct (mem_share h) @ '' of '' @ human_bytes (hs_mem_total h)) width color,
      panel_bottom width color]"

definition total_mem :: "container_row list \<Rightarrow> u64" where
  "total_mem rows = foldl (\<lambda>acc r. acc + cr_mem_bytes r) 0 rows"

definition net_vram_panel :: "graph_history \<Rightarrow> host_summary \<Rightarrow> container_row list \<Rightarrow> int \<Rightarrow> bool \<Rightarrow> string list" where
  "net_vram_panel g h rows width color =
     (let lw = width div 2; rw = width - lw;
          lnet = [panel_top ''net'' lw color] @
            map (\<lambda>gl. panel_line (colorize gl net_col color) lw color) (braille_graph (gh_rx g) (lw - 4) 2) @
            [panel_line (''rx '' @ fmt_rate (positive_sum cr_net_rx rows) @ ''   tx '' @
               fmt_rate (positive_sum cr_net_tx rows)) lw color, panel_bottom lw color];
          v1 = (if hs_gpu_available h \<and> 0 < hs_gpu_recommended h
                then ''ceiling '' @ human_bytes (hs_gpu_recommended h) else ''metal n/a'');
          v2 = (if hs_serving h
                then ''model '' @ (if 0 < hs_model_rss h then human_bytes (hs_model_rss h) @ '' (est)'' else ''?'') @
                     ''  '' @ hs_model_name h
                else ''no model served'');
          v3 = ''containers '' @ human_bytes (total_mem rows) @ ''  of '' @ human_bytes (hs_mem_total h) @ '' unified'';
          lvram = [panel_top ''vram'' rw color, panel_line v1 rw color, panel_line v2 rw color,
                   panel_line v3 rw color, panel_bottom rw color]
      in join_panels lnet lvram)"

definition pressure_panel :: "host_summary \<Rightarrow> int \<Rightarrow> bool \<Rightarrow> string list" where
  "pressure_panel h width color =
     (let p1 = (if 0 < hs_swap_total h
                then fixed_point 1 (ddiv (dmul 100 (of_u64 (hs_swap_used h))) (of_u64 (hs_swap_total h))) @
                     ''% of swap used ('' @ human_bytes (hs_swap_used h) @ '' of '' @ human_bytes (hs_swap_total h) @ '')''
                else ''swap unused'');
          p2 = ''available '' @ human_bytes (hs_avail h) @ ''  (free+inactive minus 2 GB safety)''
      in [panel_top ''pressure'' width color, panel_line p1 width color, panel_line p2 width color,
          panel_bottom width color])"

definition visible_rows :: "int \<Rightarrow> int" where
  "visible_rows height = max 1 (height - (4 + 4 + 4 + 4 + 1) - 2)"

definition clamp_selected :: "nat \<Rightarrow> int \<Rightarrow> int" where
  "clamp_selected n selected = max 0 (if int n \<le> selected then int n - 1 else selected)"

definition scroll :: "int \<Rightarrow> int \<Rightarrow> nat \<Rightarrow> int \<Rightarrow> int" where
  "scroll view_offset selected n visible =
     (let o1 = min view_offset selected;
          o2 = max o1 (selected - visible + 1);
          o3 = max o2 0;
          o4 = min o3 (int n - 1)
      in max o4 0)"

definition column_header :: "nat \<Rightarrow> string" where
  "column_header name_w =
     ''  '' @ pad ''NAME'' name_w @ pad ''CPU%'' 7 @ pad ''MEM'' 12 @ pad ''MEM'' 10 @ '' '' @ pad ''MEM%'' 7 @
     pad ''NET RX'' 9 @ '' '' @ pad ''NET TX'' 9 @ ''  '' @ pad ''DISK RD'' 9 @ '' '' @ pad ''DISK WR'' 9 @
     ''  '' @ pad ''P'' 3 @ ''IMAGE''"

definition row_lines :: "container_row list \<Rightarrow> int \<Rightarrow> nat list \<Rightarrow> nat \<Rightarrow> int \<Rightarrow> bool \<Rightarrow> string list" where
  "row_lines rows selected indices name_w width color =
     map (\<lambda>i. panel_line (render_row_line (rows ! i) name_w (nat width) color (int i = selected)) width color) indices"

definition containers_panel :: "container_row list \<Rightarrow> int \<Rightarrow> int \<Rightarrow> int \<Rightarrow> int \<Rightarrow> bool \<Rightarrow> string list" where
  "containers_panel rows selected offset visible width color =
     (let name_w = (if width < 100 then 16 else 22);
          shown = min (nat visible) (length rows - nat offset)
      in [panel_top ''containers'' width color] @
         (if rows = []
          then [panel_line (''  no containers running '' @ em_dash @ '' start one with `hostely run '' @ dots @
                  ''` or `hostely app up`'') width color]
          else [panel_line (dim (column_header name_w) color) width color] @
               row_lines rows selected [nat offset..<nat offset + shown] name_w width color @
               (if nat offset + shown < length rows
                then [panel_line (dim (''   '' @ dots @ '' '' @ digits_of (length rows - nat offset - shown) @
                        '' more ('' @ arrow_up @ arrow_down @ '' to scroll)'') color) width color]
                else [])) @
         [panel_bottom width color])"

fun sort_name :: "sort_key \<Rightarrow> string" where
  "sort_name Cpu = ''CPU''"
| "sort_name Mem = ''MEM''"
| "sort_name Name = ''NAME''"
| "sort_name Net = ''NET''"

definition status_bar :: "snapshot \<Rightarrow> sort_key \<Rightarrow> string \<Rightarrow> int \<Rightarrow> bool \<Rightarrow> string" where
  "status_bar snap key confirm width color =
     (if confirm \<noteq> []
      then colorize ('' press k again to stop '' @ [squote] @ confirm @ [squote] @ '' '' @ em_dash @ '' Esc to cancel'')
             (esc # ''[31m'') color
      else if sn_error snap \<noteq> []
      then colorize ('' '' @ clip (sn_error snap) (nat (max (width - 2) 0))) (esc # ''[31m'') color
      else '' '' @ digits_of (length (sn_rows snap)) @ '' containers   total mem '' @
           human_bytes (total_mem (sn_rows snap)) @ ''   sample #'' @ string_of_int (sn_count snap) @ ''   '' @
           (if color then esc # ''[2m'' else []) @ ''q quit  '' @ arrow_up @ arrow_down @ '' select  s sort ['' @
           sort_name key @ '']  -/+ interval  k stop'' @ (if color then reset_col else []))"

definition render_screen ::
  "graph_history \<Rightarrow> snapshot \<Rightarrow> sort_key \<Rightarrow> int \<Rightarrow> string \<Rightarrow> int \<times> int \<Rightarrow> bool \<Rightarrow> int \<Rightarrow>
   string list \<times> int \<times> graph_history" where
  "render_screen g snap key selected confirm dims color view_offset =
     (let width = (if 0 < snd dims then snd dims else 80);
          height = (if 0 < fst dims then fst dims else 24);
          rows = sort_rows key (sn_rows snap);
          sel = clamp_selected (length rows) selected;
          g' = push_history g snap;
          visible = visible_rows height;
          offset = scroll view_offset sel (length rows) visible
      in ((if color then [esc # ''[?25l''] else []) @
          (if 80 \<le> width then wide_host_panel g' (sn_host snap) width color
           else narrow_host_panel (sn_host snap) width color) @
          net_vram_panel g' (sn_host snap) rows width color @
          pressure_panel (sn_host snap) width color @
          containers_panel rows sel offset visible width color @
          [status_bar snap key confirm width color],
          offset, g'))"

section \<open>The one-shot table\<close>

definition text_row :: "nat \<Rightarrow> container_row \<Rightarrow> string" where
  "text_row name_w r =
     pad (clip (cr_name r) name_w) name_w @ pad (fmt_pct (cr_cpu_pct r)) 8 @ pad (mem_text r) 13 @
     pad (fmt_pct (cr_mem_pct r)) 9 @ pad (fmt_rate (cr_net_rx r)) 11 @ pad (fmt_rate (cr_net_tx r)) 11 @
     pad (fmt_rate (cr_blk_rd r)) 11 @ pad (fmt_rate (cr_blk_wr r)) 12 @ pad (procs_text r) 3 @ cr_image r @ [nl]"

definition render_snapshot_text :: "snapshot \<Rightarrow> sort_key \<Rightarrow> string" where
  "render_snapshot_text snap key =
     (let rows = sort_rows key (sn_rows snap);
          name_w = min (foldl (\<lambda>w r. max w (length (cr_name r))) 4 rows) 32 + 2
      in pad ''NAME'' name_w @
         ''CPU%    MEM          MEM%     NET RX     NET TX    DISK RD    DISK WR     P  IMAGE'' @ [nl] @
         concat (map (text_row name_w) rows))"

section \<open>Lemmas\<close>

subsection \<open>Sorting\<close>

text \<open>A strict order in which different names are always comparable.\<close>

lemma row_before_irrefl: "\<not> row_before key r r"
  by (cases key) simp_all

lemma row_before_trans: "row_before key a b \<Longrightarrow> row_before key b c \<Longrightarrow> row_before key a c"
  by (cases key) (auto split: if_splits intro: str_less_trans)

lemma row_before_total: "cr_name a \<noteq> cr_name b \<Longrightarrow> row_before key a b \<or> row_before key b a"
  using str_less_linear [of "cr_name a" "cr_name b"] by (cases key) auto

lemma row_before_asym: "row_before key a b \<Longrightarrow> \<not> row_before key b a"
  using row_before_trans row_before_irrefl by blast

lemma mset_insert_row [simp]: "mset (insert_row key r rows) = add_mset r (mset rows)"
  by (induction rows) auto

lemma mset_sort_rows [simp]: "mset (sort_rows key rows) = mset rows"
  by (induction rows) (auto simp: sort_rows_def)

lemma set_insert_row [simp]: "set (insert_row key r rows) = insert r (set rows)"
  by (induction rows) auto

lemma set_sort_rows [simp]: "set (sort_rows key rows) = set rows"
  by (metis mset_sort_rows set_mset_mset)

lemma length_sort_rows [simp]: "length (sort_rows key rows) = length rows"
  by (metis mset_sort_rows size_mset)

lemma insert_row_sorted:
  "sorted_wrt (row_before key) rows \<Longrightarrow> cr_name r \<notin> cr_name ` set rows \<Longrightarrow>
   sorted_wrt (row_before key) (insert_row key r rows)"
proof (induction rows)
  case (Cons x xs)
  show ?case
  proof (cases "row_before key r x")
    case True
    with Cons.prems show ?thesis by (auto intro: row_before_trans)
  next
    case False
    then have "row_before key x r" using row_before_total [of r x] Cons.prems(2) by auto
    with Cons False show ?thesis by auto
  qed
qed simp

lemma sort_rows_sorted: "distinct (map cr_name rows) \<Longrightarrow> sorted_wrt (row_before key) (sort_rows key rows)"
proof (induction rows)
  case (Cons r rows)
  then have "sorted_wrt (row_before key) (sort_rows key rows)" "cr_name r \<notin> cr_name ` set (sort_rows key rows)" by auto
  from insert_row_sorted [OF this] show ?case by (simp add: sort_rows_def)
qed (simp add: sort_rows_def)

lemma sorted_wrt_unique:
  assumes irrefl: "\<And>x. \<not> R x x" and trans: "\<And>x y z. R x y \<Longrightarrow> R y z \<Longrightarrow> R x z"
  shows "sorted_wrt R xs \<Longrightarrow> sorted_wrt R ys \<Longrightarrow> set xs = set ys \<Longrightarrow> xs = ys"
proof (induction xs arbitrary: ys)
  case (Cons x xs)
  then obtain y ys' where ys: "ys = y # ys'" by (cases ys) auto
  have "x = y"
  proof (rule ccontr)
    assume "x \<noteq> y"
    with Cons.prems ys have "x \<in> set ys'" "y \<in> set xs" by auto
    with Cons.prems ys have "R y x" "R x y" by auto
    with trans irrefl show False by blast
  qed
  moreover from Cons.prems ys this have "x \<notin> set xs" "x \<notin> set ys'" using irrefl by auto
  with Cons.prems ys \<open>x = y\<close> have "set xs = set ys'" by auto
  ultimately show ?case using Cons.IH [of ys'] Cons.prems ys by simp
qed simp


subsection \<open>The height of the screen\<close>

lemma length_braille [simp]: "length (braille_graph values cells rows) = rows"
  by (simp add: braille_graph_def)

lemma length_host_panels [simp]:
  "length (wide_host_panel g h width color) = 5" "length (narrow_host_panel h width color) = 4"
  "length (net_vram_panel g h rows width color) = 5" "length (pressure_panel h width color) = 4"
  by (simp_all add: wide_host_panel_def narrow_host_panel_def net_vram_panel_def pressure_panel_def join_panels_def Let_def)

lemma scroll_bounds:
  assumes "0 \<le> sel" "sel < int n" "1 \<le> visible"
  shows "0 \<le> scroll off sel n visible" "scroll off sel n visible \<le> sel" "sel < scroll off sel n visible + visible"
  using assms by (auto simp: scroll_def Let_def)

lemma clamp_selected_bounds: "0 \<le> clamp_selected n sel" "0 < n \<Longrightarrow> clamp_selected n sel < int n"
  by (auto simp: clamp_selected_def)

lemma length_containers_panel:
  assumes "0 \<le> off"
  shows "int (length (containers_panel rows sel off visible width color)) =
     (if rows = [] then 3 else 3 + int (min (nat visible) (length rows - nat off)) +
       (if off + int (min (nat visible) (length rows - nat off)) < int (length rows) then 1 else 0))"
  using assms by (simp add: containers_panel_def row_lines_def Let_def)

lemma render_screen_parts:
  assumes "render_screen g snap key sel confirm (height, width) color vo = (ls, off, g')" "0 < height" "0 < width"
  shows "off = scroll vo (clamp_selected (length (sn_rows snap)) sel) (length (sn_rows snap)) (visible_rows height)"
    and "set (containers_panel (sort_rows key (sn_rows snap)) (clamp_selected (length (sn_rows snap)) sel) off
           (visible_rows height) width color) \<subseteq> set ls"
    and "length ls = (if color then 1 else 0) + (if 80 \<le> width then 5 else 4) + 10 +
       length (containers_panel (sort_rows key (sn_rows snap)) (clamp_selected (length (sn_rows snap)) sel) off
           (visible_rows height) width color)"
  using assms by (auto simp: render_screen_def Let_def)

lemma scroll_nonneg [simp]: "0 \<le> scroll off sel n visible"
  by (simp add: scroll_def Let_def)

text \<open>
  A screen has at most one line more than the terminal (or than the twenty lines the panels take
  at least). The extra line is there on a wide colour terminal whenever containers are left to scroll
  to: the escape that hides the cursor is a line of its own, and the host panel has five lines where
  four are counted.
\<close>

theorem screen_height:
  assumes "render_screen g snap key sel confirm (height, width) color vo = (ls, off, g')" "0 < height" "0 < width"
  shows "int (length ls) \<le> max height 20 + 1 \<and>
    (80 \<le> width \<and> 20 \<le> height \<and> color \<and> off + (height - 19) < int (length (sn_rows snap)) \<longrightarrow>
     int (length ls) = height + 1)"
proof -
  note parts = render_screen_parts [OF assms]
  let ?n = "length (sn_rows snap)" and ?v = "visible_rows height"
  define shown where "shown = int (min (nat ?v) (?n - nat off))"
  have off: "0 \<le> off" using parts(1) by simp
  have rows: "sort_rows key (sn_rows snap) = [] \<longleftrightarrow> ?n = 0"
    by (metis length_0_conv length_sort_rows)
  have len: "int (length ls) = (if color then 1 else 0) + (if 80 \<le> width then 5 else 4) + 10 +
      (if ?n = 0 then 3 else 3 + shown + (if off + shown < int ?n then 1 else 0))"
    using length_containers_panel [OF off, of "sort_rows key (sn_rows snap)"] parts(3)
    by (simp add: rows shown_def)
  have v: "?v = max 1 (height - 19)" by (simp add: visible_rows_def)
  have "0 \<le> shown" "shown \<le> ?v" by (auto simp: shown_def v)
  moreover have "shown = height - 19" if "20 \<le> height" "off + (height - 19) < int ?n"
    using that off by (simp add: shown_def v)
  ultimately show ?thesis using v off by (auto simp: len)
qed

lemma row_in_panel:
  assumes "rows \<noteq> []" "nat off \<le> i" "i < nat off + min (nat visible) (length rows - nat off)"
  shows "panel_line (render_row_line (rows ! i) (if width < 100 then 16 else 22) (nat width) color (int i = sel)) width color
    \<in> set (containers_panel rows sel off visible width color)"
proof -
  let ?is = "[nat off..<nat off + min (nat visible) (length rows - nat off)]" and ?w = "if width < 100 then 16 else 22"
  have "set (row_lines rows sel ?is ?w width color) \<subseteq> set (containers_panel rows sel off visible width color)"
    using assms(1) unfolding containers_panel_def Let_def by (simp only: if_False set_append) blast
  moreover have "panel_line (render_row_line (rows ! i) ?w (nat width) color (int i = sel)) width color
      \<in> set (row_lines rows sel ?is ?w width color)"
    using assms(2,3) unfolding row_lines_def set_map by (intro image_eqI [of _ _ i]) simp_all
  ultimately show ?thesis by blast
qed

lemma selected_row_shown:
  assumes "render_screen g snap key sel confirm (height, width) color vo = (ls, off, g')" "0 < height" "0 < width"
    and "sn_rows snap \<noteq> []"
  shows "panel_line (render_row_line (sort_rows key (sn_rows snap) ! nat (clamp_selected (length (sn_rows snap)) sel))
      (if width < 100 then 16 else 22) (nat width) color True) width color \<in> set ls"
proof -
  let ?n = "length (sn_rows snap)" and ?sel = "clamp_selected (length (sn_rows snap)) sel" and ?v = "visible_rows height"
  let ?rows = "sort_rows key (sn_rows snap)"
  note parts = render_screen_parts [OF assms(1-3)]
  have sel: "0 \<le> ?sel" "?sel < int ?n" using clamp_selected_bounds assms(4) by simp_all
  have "1 \<le> ?v" by (simp add: visible_rows_def)
  note b = scroll_bounds [OF sel this, of vo, folded parts(1)]
  have "nat ?sel \<in> set [nat off..<nat off + min (nat ?v) (length ?rows - nat off)]"
    using b sel by (simp add: nat_less_iff) linarith
  moreover have "?rows \<noteq> []" using assms(4) by (metis length_0_conv length_sort_rows)
  ultimately show ?thesis
    using row_in_panel [of ?rows off "nat ?sel" ?v width color ?sel] parts(2) sel(1) by auto
qed

definition demo_rows :: "container_row list" where
  "demo_rows = map (\<lambda>i. empty_row\<lparr>cr_name := replicate (Suc i) (CHR ''c'')\<rparr>) [0..<30]"

definition demo_snapshot :: snapshot where
  "demo_snapshot = \<lparr>sn_rows = demo_rows, sn_host = demo_host, sn_error = [], sn_missed = 0, sn_count = 1, sn_interval = 2\<rparr>"

definition no_history :: graph_history where
  "no_history = \<lparr>gh_cpu = [], gh_mem = [], gh_rx = [], gh_tx = [], gh_last = -1\<rparr>"

theorem screen_height_witness:
  "\<exists>ls off g'. render_screen no_history demo_snapshot Cpu 0 [] (24, 100) True 0 = (ls, off, g') \<and> int (length ls) = 25"
proof -
  obtain ls off g' where r: "render_screen no_history demo_snapshot Cpu 0 [] (24, 100) True 0 = (ls, off, g')"
    by (metis prod_cases3)
  have n: "length (sn_rows demo_snapshot) = 30" by (simp add: demo_snapshot_def demo_rows_def)
  have "off = 0" using render_screen_parts(1) [OF r] by (simp add: n scroll_def clamp_selected_def visible_rows_def)
  then have "int (length ls) = 25" using screen_height [OF r] n by simp
  with r show ?thesis by blast
qed


subsection \<open>The edges of a panel\<close>

text \<open>Plain text: one byte, one column.\<close>

definition plain :: "string \<Rightarrow> bool" where
  "plain s \<longleftrightarrow> list_all (\<lambda>c. char_nat c < 128 \<and> c \<noteq> esc) s"

lemma glyph_len_plain: "char_nat c < 128 \<Longrightarrow> glyph_len c = 1"
  by (simp add: glyph_len_def)

lemma disp_width_plain: "plain s \<Longrightarrow> disp_width (s @ t) = length s + disp_width t"
  by (induction s) (simp_all add: plain_def glyph_len_plain)

lemma disp_width_spaces: "disp_width (replicate n (CHR '' '') @ t) = n + disp_width t"
  by (induction n) (simp_all add: glyph_len_def)

lemma disp_width_glyphs:
  "disp_width (top_left @ t) = Suc (disp_width t)" "disp_width (top_right @ t) = Suc (disp_width t)"
  "disp_width (bot_left @ t) = Suc (disp_width t)" "disp_width (bot_right @ t) = Suc (disp_width t)"
  "disp_width (horz @ t) = Suc (disp_width t)" "disp_width (vert @ t) = Suc (disp_width t)"
  "disp_width (dots @ t) = Suc (disp_width t)" "disp_width (CHR '' '' # t) = Suc (disp_width t)"
  by (simp_all add: top_left_def top_right_def bot_left_def bot_right_def horz_def vert_def dots_def glyph_len_def)

lemma disp_width_colours:
  "disp_width (frame_col @ t) = disp_width t" "disp_width (title_col @ t) = disp_width t"
  "disp_width (reset_col @ t) = disp_width t"
  by (simp_all add: frame_col_def title_col_def reset_col_def)

lemma disp_width_ends:
  "disp_width vert = 1" "disp_width top_right = 1" "disp_width bot_right = 1" "disp_width dots = 1" "disp_width reset_col = 0"
  using disp_width_glyphs [of "[]"] disp_width_colours [of "[]"] by simp_all

lemmas disp_width_parts = disp_width_plain disp_width_spaces disp_width_glyphs disp_width_colours disp_width_ends

declare disp_width.simps(2) [simp del]

lemma disp_width_horz: "disp_width (lines_of_glyph horz n @ t) = nat n + disp_width t"
proof -
  have "disp_width (concat (replicate k horz) @ t) = k + disp_width t" for k
    by (induction k) (simp_all add: disp_width_glyphs)
  then show ?thesis by (simp add: lines_of_glyph_def)
qed

lemma take_glyphs_plain: "plain s \<Longrightarrow> take_glyphs n s = take n s"
  by (induction n s rule: take_glyphs.induct) (simp_all add: plain_def glyph_len_plain)

lemma plain_take: "plain s \<Longrightarrow> plain (take n s)"
  by (auto simp: plain_def list_all_iff dest: in_set_takeD)

text \<open>
  The top and the bottom edge of a panel are as wide as the panel, but a line of text between them
  is one column narrower, whatever its length: the right border of a line stands one column left of the
  corners.
\<close>

theorem panel_edges:
  assumes "plain title" "plain s" "int (length title) + 6 \<le> width"
  shows "int (disp_width (panel_top title width color)) = width \<and>
    int (disp_width (panel_bottom width color)) = width \<and>
    int (disp_width (panel_line s width color)) = width - 1"
proof -
  have t: "disp_width title = length title" and l: "disp_width s = length s"
    using disp_width_plain [of title "[]"] disp_width_plain [of s "[]"] assms(1,2) by simp_all
  have "int (disp_width (panel_top title width color)) = width"
    using assms(1,3) by (simp add: panel_top_def Let_def t disp_width_parts disp_width_horz)
  moreover have "int (disp_width (panel_bottom width color)) = width"
    using assms(3) by (simp add: panel_bottom_def disp_width_parts disp_width_horz)
  moreover have "int (disp_width (panel_line s width color)) = width - 1"
  proof (cases "int (length s) \<le> width - 4")
    case True
    with assms(2,3) show ?thesis
      by (simp add: panel_line_def Let_def clip_cols_def l disp_width_parts)
  next
    case False
    define b where "b = take (nat (width - 5)) s"
    have b: "plain b" "length b = nat (width - 5)" using False assms by (auto simp: b_def plain_take)
    have "clip_cols s (max (width - 4) 1) = b @ dots"
      using False assms by (simp add: clip_cols_def l take_glyphs_plain b_def)
    moreover have "disp_width (b @ dots) = nat (width - 4)"
      using disp_width_plain [OF b(1), of dots] disp_width_glyphs(7) [of "[]"] b(2) assms(3) by simp
    ultimately show ?thesis
      using b assms(3) by (simp add: panel_line_def Let_def disp_width_parts)
  qed
  ultimately show ?thesis by simp
qed

theorem panel_edges_witness:
  "disp_width (panel_top ''cpu'' 40 True) = 40 \<and> disp_width (panel_line ''3.0%'' 40 True) = 39"
proof -
  have "plain ''cpu''" "plain ''3.0%''" by (simp_all add: plain_def)
  then show ?thesis using panel_edges [of "''cpu''" "''3.0%''" 40 True] by simp
qed

end
