(* ===== verification/Top.thy ===== *)
theory Top
  imports Render
begin

text \<open>
  top/tui.cpp and top/top.cpp: the terminal, the decoding of keys, the command line of hostely top and
  the loop of the dashboard. The loop is a step relation over the events it reacts to: a key, a sample
  the other thread has stored, a resize, a frame that is drawn.
\<close>

section \<open>The terminal\<close>

datatype key = KNone | KQuit | KUp | KDown | KSort | KIntervalUp | KIntervalDown | KKill | KCancel | KEnter | KOther

record terminal =
  tm_ready :: bool
  tm_color :: bool
  tm_raw :: bool

definition terminal_new :: "bool \<Rightarrow> string option \<Rightarrow> string option \<Rightarrow> terminal" where
  "terminal_new tty term_var no_color =
     (let ready = (tty \<and> term_var \<noteq> Some ''dumb'')
      in \<lparr>tm_ready = ready, tm_color = (ready \<and> no_color = None), tm_raw = False\<rparr>)"

definition alt_screen_on :: string where
  "alt_screen_on = (esc # ''[?1049h'') @ (esc # ''[H'')"

definition alt_screen_off :: string where
  "alt_screen_off = esc # ''[?1049l''"

definition hide_cursor :: string where
  "hide_cursor = esc # ''[?25l''"

definition show_cursor :: string where
  "show_cursor = esc # ''[?25h''"

text \<open>The terminal after a call, and what it writes; tcgetattr() may fail.\<close>

definition terminal_enter :: "bool \<Rightarrow> terminal \<Rightarrow> terminal \<times> string" where
  "terminal_enter attrs t =
     (if \<not> tm_ready t \<or> tm_raw t \<or> \<not> attrs then (t, [])
      else (t\<lparr>tm_raw := True\<rparr>, alt_screen_on @ hide_cursor))"

definition terminal_leave :: "terminal \<Rightarrow> terminal \<times> string" where
  "terminal_leave t = (t\<lparr>tm_raw := False\<rparr>, if tm_ready t then show_cursor @ alt_screen_off else [])"

text \<open>Rows and columns; 24 by 80 when the terminal does not tell.\<close>

definition term_size :: "(int \<times> int) option \<Rightarrow> int \<times> int" where
  "term_size winsize = (case winsize of Some (r, c) \<Rightarrow> if 0 < r \<and> 0 < c then (r, c) else (24, 80) | None \<Rightarrow> (24, 80))"

text \<open>
  The bytes one read() has given, eight at most, as one key; None when nothing was read. The second
  component tells whether the key interrupts the program.
\<close>

definition single_key :: "char \<Rightarrow> key \<times> bool" where
  "single_key c =
     (if c = CHR ''q'' then (KQuit, False) else if c = CHR ''s'' then (KSort, False)
      else if c = CHR ''k'' then (KKill, False)
      else if c = CHR ''+'' \<or> c = CHR ''='' then (KIntervalUp, False)
      else if c = CHR ''-'' \<or> c = CHR ''_'' then (KIntervalDown, False)
      else if c = cr \<or> c = nl then (KEnter, False)
      else if c = esc then (KQuit, False)
      else if c = CHR 0x03 then (KQuit, True)
      else (KOther, False))"

definition read_key :: "terminal \<Rightarrow> string \<Rightarrow> (key \<times> bool) option" where
  "read_key t buf =
     (if \<not> tm_raw t \<or> buf = [] then None
      else if length buf = 1 then Some (single_key (hd buf))
      else if hd buf = esc \<and> 3 \<le> length buf \<and> buf ! 1 = CHR ''[''
      then Some (if buf ! 2 = CHR ''A'' then KUp else if buf ! 2 = CHR ''B'' then KDown else KOther, False)
      else Some (KOther, False))"

section \<open>The command line\<close>

definition parse_interval :: "parsed_args \<Rightarrow> double" where
  "parse_interval args =
     (case get_option args ''interval'' of
        Some v \<Rightarrow> (case scan_double v of Some (x, _) \<Rightarrow> x | None \<Rightarrow> 2)
      | None \<Rightarrow> 2)"

definition parse_sort :: "parsed_args \<Rightarrow> sort_key" where
  "parse_sort args =
     (case get_option args ''sort'' of
        Some v \<Rightarrow> if v = ''mem'' then Mem else if v = ''name'' then Name else if v = ''net'' then Net else Cpu
      | None \<Rightarrow> Cpu)"

definition manager_error_text :: "manager_error \<Rightarrow> string" where
  "manager_error_text e =
     message e @ [nl] @
     (if stderr_tail e \<noteq> [] then ''--- container stderr ---'' @ [nl] @ stderr_tail e @ [nl] else [])"

definition top_usage :: string where
  "top_usage =
     ''Usage: hostely top [--interval N] [--sort cpu|mem|name|net] [--once]'' @ [nl] @ [nl] @
     ''Live dashboard of containers: CPU, memory, network, disk, processes.'' @ [nl] @ [nl] @
     ''Keys: q quit   '' @ arrow_up @ arrow_down @ '' select   s sort   +/- interval   k stop (confirm)'' @ [nl]"

text \<open>--once: two passes, the second against the counters of the first.\<close>

definition top_once ::
  "('j, 'm) json_build_scheme \<Rightarrow> 'w cli \<Rightarrow> string \<Rightarrow> host_summary \<Rightarrow> host_summary \<Rightarrow> double \<Rightarrow> sort_key \<Rightarrow> 'w \<Rightarrow>
   ('w \<times> string) or_throw" where
  "top_once J cli path host1 host2 interval key w =
     and_then (sample_once J cli path host1 [] [] [] [] 1 interval 5 (sm_snap (sampler_start host1)) w) (\<lambda>r1.
     and_then (sample_once J cli path host2 (sd_next r1) [] [] (sd_list r1) 2 interval 5 (sd_stored r1) (sd_world r1)) (\<lambda>r2.
       Inr (sd_world r2, render_snapshot_text (sd_returned r2) key)))"

text \<open>What run_top() does before the loop: leave with output, errors and a code, or start the dashboard.\<close>

datatype top_start = TopExit string string int | TopLive double sort_key

definition run_top ::
  "('j, 'm) json_build_scheme \<Rightarrow> 'w cli \<Rightarrow> string option \<Rightarrow> bool \<Rightarrow> terminal \<Rightarrow> host_summary \<Rightarrow> host_summary \<Rightarrow>
   parsed_args \<Rightarrow> 'w \<Rightarrow> ('w \<times> top_start) or_throw" where
  "run_top J cli cli_path tty t host1 host2 args w =
     (if has_option args ''help'' \<or> has_option args ''h'' then Inr (w, TopExit top_usage [] 0)
      else case cli_path of
             None \<Rightarrow> Inr (w, TopExit [] (install_instructions @ [nl]) 1)
           | Some path \<Rightarrow>
               (case system_is_ready cli path w of
                  (w1, Inl e) \<Rightarrow> Inr (w1, TopExit [] (manager_error_text e) 1)
                | (w1, Inr ok) \<Rightarrow>
                    if \<not> has_option args ''once'' \<and> \<not> tty
                    then Inr (w1, TopExit [] (''hostely top: stdout is not a terminal; use --once for a one-shot snapshot.'' @ [nl]) 1)
                    else if has_option args ''once''
                    then and_then (top_once J cli path host1 host2 (parse_interval args) (parse_sort args) w1)
                           (\<lambda>(w2, out). Inr (w2, TopExit out [] 0))
                    else if \<not> tm_ready t
                    then Inr (w1, TopExit [] (''hostely top: terminal is not capable of live rendering.'' @ [nl]) 1)
                    else Inr (w1, TopLive (set_interval (parse_interval args)) (parse_sort args))))"

section \<open>The loop\<close>

record dashboard =
  db_snap :: snapshot
  db_interval :: double
  db_sort :: sort_key
  db_selected :: int
  db_confirm :: string
  db_offset :: int
  db_history :: graph_history
  db_lines :: "string list"

fun next_sort :: "sort_key \<Rightarrow> sort_key" where
  "next_sort Cpu = Mem"
| "next_sort Mem = Name"
| "next_sort Name = Net"
| "next_sort Net = Cpu"

definition kill_target :: "dashboard \<Rightarrow> string option" where
  "kill_target d =
     (let rows = sort_rows (db_sort d) (sn_rows (db_snap d)); sel = db_selected d
      in if 0 \<le> sel \<and> sel < int (length rows) then Some (cr_name (rows ! nat sel)) else None)"

text \<open>A key while no container is to be stopped.\<close>

definition plain_key :: "key \<Rightarrow> dashboard \<Rightarrow> dashboard" where
  "plain_key k d =
     (case k of
        KUp \<Rightarrow> d\<lparr>db_selected := if 0 < db_selected d then db_selected d - 1 else 0\<rparr>
      | KDown \<Rightarrow> d\<lparr>db_selected := min (db_selected d + 1) (int (length (sn_rows (db_snap d))) - 1)\<rparr>
      | KSort \<Rightarrow> d\<lparr>db_sort := next_sort (db_sort d), db_selected := 0, db_offset := 0\<rparr>
      | KIntervalUp \<Rightarrow> d\<lparr>db_interval := set_interval (dmul (db_interval d) 2)\<rparr>
      | KIntervalDown \<Rightarrow> d\<lparr>db_interval := set_interval (ddiv (db_interval d) 2)\<rparr>
      | KKill \<Rightarrow> (case kill_target d of Some n \<Rightarrow> d\<lparr>db_confirm := n\<rparr> | None \<Rightarrow> d)
      | _ \<Rightarrow> d)"

text \<open>
  A key that was pressed; None leaves the dashboard. The second k stops the container; the error of a
  call that failed goes into the snapshot.
\<close>

definition press_key :: "'w cli \<Rightarrow> string \<Rightarrow> key \<Rightarrow> dashboard \<times> 'w \<Rightarrow> (dashboard \<times> 'w) option" where
  "press_key cli path k = (\<lambda>(d, w).
     if k = KOther \<or> k = KEnter then Some (d, w)
     else if k = KQuit then (if db_confirm d \<noteq> [] then Some (d\<lparr>db_confirm := []\<rparr>, w) else None)
     else if db_confirm d = [] then Some (plain_key k d, w)
     else if k = KKill
     then (case manager_stop cli path (db_confirm d) w of
             (w1, Inl e) \<Rightarrow> Some (d\<lparr>db_confirm := [], db_snap := (db_snap d)\<lparr>sn_error := message e\<rparr>\<rparr>, w1)
           | (w1, Inr ok) \<Rightarrow> Some (d\<lparr>db_confirm := []\<rparr>, w1))
     else Some (d, w))"

definition draw :: "int \<times> int \<Rightarrow> bool \<Rightarrow> dashboard \<Rightarrow> dashboard" where
  "draw dims color d =
     (let (ls, off, g) = render_screen (db_history d) (db_snap d) (db_sort d) (db_selected d) (db_confirm d) dims color (db_offset d)
      in d\<lparr>db_lines := ls, db_offset := off, db_history := g\<rparr>)"

text \<open>The bytes of a frame: home, the lines with the rest of each erased.\<close>

fun frame_text :: "string list \<Rightarrow> string" where
  "frame_text [] = []"
| "frame_text [l] = l @ (esc # ''[K'')"
| "frame_text (l # ls) = l @ (esc # ''[K'') @ [cr, nl] @ frame_text ls"

definition frame_output :: "dashboard \<Rightarrow> string" where
  "frame_output d = (esc # ''[H'') @ frame_text (db_lines d)"

datatype dash_event = Pressed key | Sampled snapshot | Resized | Drawn "int \<times> int" bool

fun dash_step :: "'w cli \<Rightarrow> string \<Rightarrow> dash_event \<Rightarrow> dashboard \<times> 'w \<Rightarrow> (dashboard \<times> 'w) option" where
  "dash_step cli path (Pressed k) s = press_key cli path k s"
| "dash_step cli path (Sampled snap) (d, w) = Some (d\<lparr>db_snap := snap\<rparr>, w)"
| "dash_step cli path Resized (d, w) = Some (d\<lparr>db_offset := 0\<rparr>, w)"
| "dash_step cli path (Drawn dims color) (d, w) = Some (draw dims color d, w)"

inductive dash_run :: "'w cli \<Rightarrow> string \<Rightarrow> dashboard \<times> 'w \<Rightarrow> dash_event list \<Rightarrow> dashboard \<times> 'w \<Rightarrow> bool"
  for cli path start where
  dash_start: "dash_run cli path start [] start"
| dash_next: "dash_run cli path start evs s \<Longrightarrow> dash_step cli path e s = Some s' \<Longrightarrow> dash_run cli path start (evs @ [e]) s'"

definition dash_init :: "snapshot \<Rightarrow> double \<Rightarrow> sort_key \<Rightarrow> dashboard" where
  "dash_init snap interval key =
     \<lparr>db_snap = snap, db_interval = interval, db_sort = key, db_selected = 0, db_confirm = [], db_offset = 0,
      db_history = no_history, db_lines = []\<rparr>"

section \<open>Lemmas\<close>

text \<open>Keys that arrive together are one key that is ignored, an interrupt among them too.\<close>

lemma burst_is_other: "tm_raw t \<Longrightarrow> 2 \<le> length buf \<Longrightarrow> hd buf \<noteq> esc \<Longrightarrow> read_key t buf = Some (KOther, False)"
  by (auto simp: read_key_def)

lemma plain_key_confirm: "db_confirm (plain_key k d) = (if k = KKill then (case kill_target d of Some n \<Rightarrow> n | None \<Rightarrow> db_confirm d) else db_confirm d)"
  by (cases k) (simp_all add: plain_key_def split: option.split)

lemma draw_confirm [simp]: "db_confirm (draw dims color d) = db_confirm d"
  by (simp add: draw_def split: prod.split)

text \<open>A prompt is opened by k only, and every k or q closes it.\<close>

lemma dash_step_confirm:
  assumes "dash_step cli path e (d, w) = Some (d', w')" "db_confirm d' \<noteq> []"
  shows "if db_confirm d = [] then e = Pressed KKill \<and> kill_target d = Some (db_confirm d')
         else db_confirm d' = db_confirm d \<and> e \<noteq> Pressed KKill \<and> e \<noteq> Pressed KQuit"
proof (cases e)
  case (Pressed k)
  show ?thesis
  proof (cases "db_confirm d = []")
    case True
    with assms Pressed show ?thesis
      by (auto simp: press_key_def plain_key_confirm split: if_splits option.splits)
  next
    case False
    with assms Pressed show ?thesis
      by (auto simp: press_key_def split: if_splits prod.splits sum.splits)
  qed
qed (use assms in auto)

lemma dash_step_world:
  assumes "dash_step cli path e (d, w) = Some (d', w')" "w' \<noteq> w"
  shows "e = Pressed KKill \<and> db_confirm d \<noteq> [] \<and> w' = fst (manager_stop cli path (db_confirm d) w)"
proof (cases e)
  case (Pressed k)
  with assms show ?thesis
    by (auto simp: press_key_def split: if_splits prod.splits sum.splits)
qed (use assms in auto)

lemma pending_was_asked:
  assumes "dash_run cli path s0 evs s" "db_confirm (fst s0) = []" "db_confirm (fst s) \<noteq> []"
  shows "\<exists>evs1 evs2 d1 w1. evs = evs1 @ Pressed KKill # evs2 \<and> dash_run cli path s0 evs1 (d1, w1) \<and>
    db_confirm d1 = [] \<and> kill_target d1 = Some (db_confirm (fst s)) \<and> Pressed KKill \<notin> set evs2 \<and> Pressed KQuit \<notin> set evs2"
  using assms
proof (induction rule: dash_run.induct)
  case (dash_next evs s e s')
  obtain d w d' w' where s: "s = (d, w)" "s' = (d', w')" by (cases s, cases s')
  have e: "if db_confirm d = [] then e = Pressed KKill \<and> kill_target d = Some (db_confirm d')
      else db_confirm d' = db_confirm d \<and> e \<noteq> Pressed KKill \<and> e \<noteq> Pressed KQuit"
    using dash_step_confirm dash_next.hyps(2) dash_next.prems(2) s by fastforce
  show ?case
  proof (cases "db_confirm d = []")
    case True
    with e have "e = Pressed KKill" "kill_target d = Some (db_confirm d')" by simp_all
    with True dash_next.hyps(1) s show ?thesis
      by (intro exI [of _ evs] exI [of _ "[]"] exI [of _ d] exI [of _ w]) simp
  next
    case False
    with dash_next.IH dash_next.prems(1) s obtain evs1 evs2 d1 w1 where
      "evs = evs1 @ Pressed KKill # evs2" "dash_run cli path s0 evs1 (d1, w1)" "db_confirm d1 = []"
      "kill_target d1 = Some (db_confirm d)" "Pressed KKill \<notin> set evs2" "Pressed KQuit \<notin> set evs2" by auto
    moreover from this e False s have "evs @ [e] = evs1 @ Pressed KKill # (evs2 @ [e])"
      "kill_target d1 = Some (db_confirm (fst s'))" "Pressed KKill \<notin> set (evs2 @ [e])" "Pressed KQuit \<notin> set (evs2 @ [e])"
      by auto
    ultimately show ?thesis by blast
  qed
qed simp

text \<open>The container k asks about is the row the renderer marks.\<close>

lemma kill_target_shown:
  assumes "kill_target d = Some n" "0 < height" "0 < width"
  shows "\<exists>r \<in> set (sn_rows (db_snap d)). cr_name r = n \<and>
    panel_line (render_row_line r (if width < 100 then 16 else 22) (nat width) color True) width color
      \<in> set (db_lines (draw (height, width) color d))"
proof -
  let ?rows = "sort_rows (db_sort d) (sn_rows (db_snap d))" and ?n = "length (sn_rows (db_snap d))"
  have sel: "0 \<le> db_selected d" "db_selected d < int ?n" and n: "cr_name (?rows ! nat (db_selected d)) = n"
    using assms(1) by (auto simp: kill_target_def Let_def split: if_splits)
  have clamp: "clamp_selected ?n (db_selected d) = db_selected d"
    using sel by (simp add: clamp_selected_def)
  obtain ls off g where r: "render_screen (db_history d) (db_snap d) (db_sort d) (db_selected d) (db_confirm d) (height, width) color (db_offset d) = (ls, off, g)"
    by (metis prod_cases3)
  have "sn_rows (db_snap d) \<noteq> []" using sel by auto
  from selected_row_shown [OF r assms(2,3) this]
  have "panel_line (render_row_line (?rows ! nat (db_selected d)) (if width < 100 then 16 else 22) (nat width) color True) width color \<in> set ls"
    by (simp only: clamp)
  moreover have "?rows ! nat (db_selected d) \<in> set ?rows"
    using sel by (intro nth_mem) (simp add: nat_less_iff)
  ultimately show ?thesis using n by (auto simp: draw_def r)
qed


text \<open>
  After a failed second pass, --once prints the header of the table alone, whatever the first pass had
  found, and the exit code is 0.
\<close>

lemma once_loses_rows:
  assumes "sample_once J cli path host1 [] [] [] [] 1 interval 5 (sm_snap (sampler_start host1)) w = Inr r1"
    and "stats_of J cli path (sd_world r1) = (w2, Inr (err, []))"
  shows "top_once J cli path host1 host2 interval key w =
    Inr (w2, pad ''NAME'' 6 @ ''CPU%    MEM          MEM%     NET RX     NET TX    DISK RD    DISK WR     P  IMAGE'' @ [nl])"
  using assms by (simp add: top_once_def sample_once_def [of J cli path host2] moved_from_def render_snapshot_text_def sort_rows_def)

section \<open>Witness\<close>

definition stop_cli :: "string list list cli" where
  "stop_cli w argv = (w @ [argv], \<lparr>exit_code = 0, stdout_text = [], stderr_text = []\<rparr>)"

definition demo_dashboard :: dashboard where
  "demo_dashboard = dash_init (demo_snapshot\<lparr>sn_rows := [empty_row\<lparr>cr_name := ''web''\<rparr>]\<rparr>) 2 Cpu"


end
