(* ===== verification/Commands.thy ===== *)
theory Commands
  imports Apps Exposure Top Logger
begin

text \<open>
  main.cpp: the commands of hostely and the dispatch. A command gives the lines it prints and logs and
  its exit code; main() has no handler, so an exception that leaves a command ends the process and is
  the value Terminates. The commands of other components (models, top, the exposure commands) are in
  their theories.
\<close>

section \<open>Shared helpers\<close>

definition make_manager :: "string option \<Rightarrow> cli_line list + string" where
  "make_manager cli_path =
     (case cli_path of None \<Rightarrow> Inl [ErrLine install_instructions] | Some path \<Rightarrow> Inr path)"

definition print_manager_error :: "manager_error \<Rightarrow> cli_line list" where
  "print_manager_error e =
     (let tail_lines = (if stderr_tail e \<noteq> [] then [ErrorLine ''--- container stderr ---'', ErrorLine (stderr_tail e)] else [])
      in case kind e of
           CliNotFound \<Rightarrow> ErrorLine (message e) # tail_lines
         | SystemNotStarted \<Rightarrow> [WarnLine (message e)]
         | BadInvocation \<Rightarrow> [ErrorLine (message e)]
         | NonZeroExit \<Rightarrow> ErrorLine (message e) # tail_lines)"

section \<open>init\<close>

definition run_init :: "toml_api \<Rightarrow> settings_os \<Rightarrow> string option \<Rightarrow> files \<Rightarrow> files \<times> cli_line list \<times> int" where
  "run_init T os home fs =
     (let start = InfoLine ''hostely init''; cfg = config_file home
      in if \<not> ensure_dir os (state_dir home) then (fs, [start, ErrorLine ''could not create state directory''], 1)
         else if \<not> ensure_dir os (log_dir home) then (fs, [start, ErrorLine ''could not create log directory''], 1)
         else if fs cfg \<noteq> None
         then (fs, [start, InfoLine ''config already exists, leaving it untouched:'', InfoLine (''  '' @ cfg)], 0)
         else case config_save T os (config_defaults home) cfg fs of
                (fs1, False) \<Rightarrow> (fs1, [start, ErrorLine (''failed to write config file at '' @ cfg)], 1)
              | (fs1, True) \<Rightarrow>
                  (fs1, [start, InfoLine ''wrote default config:'', InfoLine (''  '' @ cfg),
                         InfoLine ''state directory:'', InfoLine (''  '' @ state_dir home),
                         InfoLine ''log directory:'', InfoLine (''  '' @ log_dir home)], 0))"

section \<open>run, ps, stop and logs\<close>

text \<open>The limits run applies to hostely itself; a number std::stoi() refuses is an exception.\<close>

definition run_limits :: "limit_os \<Rightarrow> parsed_args \<Rightarrow> cli_line list or_ub" where
  "run_limits os args =
     and_then (case get_option args ''mem-gb'' of
                 None \<Rightarrow> Inr (-1) | Some v \<Rightarrow> (case stoi v of None \<Rightarrow> Inl Terminates | Some i \<Rightarrow> Inr i)) (\<lambda>mem_gb.
       if 0 < mem_gb
       then and_then (apply_process_limits os mem_gb (-1) 65536) (\<lambda>r.
              Inr (if \<not> jetsam_attempted r then []
                   else if jetsam_applied r then [InfoLine (''applied Jetsam memlimit: '' @ string_of_int mem_gb @ '' GB'')]
                   else WarnLine (''Jetsam memlimit not applied: '' @ jetsam_error r) #
                        (if running_as_root r then [] else [WarnLine ''(this usually requires running hostely as root)''])))
       else Inr [])"

definition run_run :: "'w cli \<Rightarrow> string option \<Rightarrow> limit_os \<Rightarrow> parsed_args \<Rightarrow> 'w \<Rightarrow> ('w \<times> cli_line list \<times> int) or_ub" where
  "run_run cli cli_path os args w =
     (case run_request args of
        Inl e \<Rightarrow> Inr (w, [if operands args = [] then ErrLine e else ErrorLine e], 2)
      | Inr opts \<Rightarrow>
          and_then (run_limits os args) (\<lambda>ls.
            case make_manager cli_path of
              Inl ms \<Rightarrow> Inr (w, ls @ ms, 1)
            | Inr path \<Rightarrow>
                (case manager_run cli path opts w of
                   (w1, Inl e) \<Rightarrow> Inr (w1, ls @ print_manager_error e, 1)
                 | (w1, Inr cid) \<Rightarrow>
                     Inr (w1, ls @ [InfoLine (''started '' @ [squote] @ opt_name opts @ [squote] @ '' as '' @ cid), OutLine cid], 0))))"

definition column_width :: "nat \<Rightarrow> (service_info \<Rightarrow> string) \<Rightarrow> service_info list \<Rightarrow> nat" where
  "column_width w f rows = foldl (\<lambda>w r. max w (length (f r))) w rows"

definition ps_row :: "service_info list \<Rightarrow> string \<Rightarrow> string \<Rightarrow> string \<Rightarrow> string \<Rightarrow> string \<Rightarrow> cli_line" where
  "ps_row rows a b c d e =
     OutLine (pad_right (column_width 4 si_name rows) a @ ''  '' @ pad_right (column_width 5 si_image rows) b @ ''  '' @
              pad_right (column_width 6 si_status rows) c @ ''  '' @ pad_right (column_width 5 si_ports rows) d @ ''  '' @
              pad_right (column_width 2 si_id rows) e)"

definition run_ps :: "'w cli \<Rightarrow> string option \<Rightarrow> 'w \<Rightarrow> 'w \<times> cli_line list \<times> int" where
  "run_ps cli cli_path w =
     (case make_manager cli_path of
        Inl ms \<Rightarrow> (w, ms, 1)
      | Inr path \<Rightarrow>
          (case manager_list cli path w of
             (w1, Inl e) \<Rightarrow> (w1, print_manager_error e, 1)
           | (w1, Inr rows) \<Rightarrow>
               (w1, if rows = [] then [OutLine ''(no services running)'']
                    else ps_row rows ''NAME'' ''IMAGE'' ''STATUS'' ''PORTS'' ''ID'' #
                         map (\<lambda>r. ps_row rows (si_name r) (si_image r) (si_status r) (si_ports r) (si_id r)) rows, 0)))"

fun stop_names :: "'w cli \<Rightarrow> string \<Rightarrow> string list \<Rightarrow> 'w \<Rightarrow> 'w \<times> cli_line list \<times> int" where
  "stop_names cli path [] w = (w, [], 0)"
| "stop_names cli path (n # ns) w =
     (case manager_stop cli path n w of
        (w1, Inl e) \<Rightarrow> (w1, WarnLine (''stop('' @ n @ '') failed:'') # print_manager_error e, 1)
      | (w1, Inr ok) \<Rightarrow>
          (case stop_names cli path ns w1 of (w2, ls, code) \<Rightarrow> (w2, InfoLine (''stopped '' @ n) # ls, code)))"

definition run_stop :: "'w cli \<Rightarrow> string option \<Rightarrow> parsed_args \<Rightarrow> 'w \<Rightarrow> 'w \<times> cli_line list \<times> int" where
  "run_stop cli cli_path args w =
     (if operands args = [] then (w, [ErrLine ''Usage: hostely stop <name>''], 2)
      else case make_manager cli_path of
             Inl ms \<Rightarrow> (w, ms, 1)
           | Inr path \<Rightarrow> stop_names cli path (operands args) w)"

definition run_logs :: "'w cli \<Rightarrow> string option \<Rightarrow> parsed_args \<Rightarrow> 'w \<Rightarrow> 'w \<times> cli_line list \<times> int" where
  "run_logs cli cli_path args w =
     (case operands args of
        [] \<Rightarrow> (w, [ErrLine ''Usage: hostely logs <name> [--follow]''], 2)
      | name # _ \<Rightarrow>
          (case make_manager cli_path of
             Inl ms \<Rightarrow> (w, ms, 1)
           | Inr path \<Rightarrow>
               (case manager_logs cli path name (has_option args ''follow'' \<or> has_option args ''f'') w of
                  (w1, Inl e) \<Rightarrow> (w1, print_manager_error e, 1)
                | (w1, Inr s) \<Rightarrow> (w1, [OutText (s @ (if s \<noteq> [] \<and> last s \<noteq> nl then [nl] else []))], 0))))"

section \<open>serve\<close>

record serve_options =
  sv_model_path :: string
  sv_port :: int
  sv_ctx_size :: int
  sv_gpu_layers :: int
  sv_threads :: int
  sv_no_fit_check :: bool
  sv_chat_template :: string

definition serve_usage :: "config \<Rightarrow> string" where
  "serve_usage cfg =
     ''Usage: hostely serve <name|model.gguf> [options]'' @ [nl] @ [nl] @
     ''Options:'' @ [nl] @
     ''  --port N           listening port (default: '' @ string_of_int (cf_default_port cfg) @ '')'' @ [nl] @
     ''  --ctx-size N       context size in tokens (default: '' @ string_of_int (cf_ctx_size cfg) @ '')'' @ [nl] @
     ''  --gpu-layers N     layers to offload to Metal (-1 = all)'' @ [nl] @
     ''  --threads N        CPU threads (0 = auto)'' @ [nl] @
     ''  --engine NAME      llama (only one supported on this build)'' @ [nl] @
     ''  --no-fit-check     skip the Phase 7b pre-load memory check'' @ [nl] @
     ''  --chat-template T  jinja chat template override (e.g. for tool'' @ [nl] @
     ''                     support on models with bare GGUF metadata)''"

text \<open>The file of the operand: a path that exists, or a model of the registry.\<close>

definition serve_path :: "fs_env \<Rightarrow> string \<Rightarrow> string \<Rightarrow> (string \<times> cli_line list) option" where
  "serve_path E dir name =
     (if fe_exists E name then Some (name, [])
      else case resolve_model E dir name of
             Inl e \<Rightarrow> None
           | Inr m \<Rightarrow> if mf_path m = [] then None
               else Some (mf_path m, [InfoLine (''resolved '' @ [squote] @ name @ [squote] @ '' -> '' @ mf_path m)]))"

definition stoi_option :: "parsed_args \<Rightarrow> string \<Rightarrow> int \<Rightarrow> int or_ub" where
  "stoi_option args name d =
     (case get_option args name of
        None \<Rightarrow> Inr d | Some v \<Rightarrow> (case stoi v of None \<Rightarrow> Inl Terminates | Some i \<Rightarrow> Inr i))"

definition engine_lines :: "string \<Rightarrow> cli_line list" where
  "engine_lines engine =
     [ErrorLine (''engine '' @ [squote] @ engine @ [squote] @ '' is not supported on this build.''),
      ErrorLine ''on Apple Silicon, hostely uses llama.cpp + ggml-metal,'',
      ErrorLine ''which is the recommended Apple-native inference path.'',
      ErrorLine ''if you need a separate MLX server, run mlx-lm externally'',
      ErrorLine ''and point your client at its port.'']"

text \<open>run_serve() up to the start of the server: an exit, or the lines and the options it is given.\<close>

definition serve_request ::
  "fs_env \<Rightarrow> string \<Rightarrow> config \<Rightarrow> parsed_args \<Rightarrow> ((cli_line list \<times> int) + (cli_line list \<times> serve_options)) or_ub" where
  "serve_request E dir cfg args =
     (case operands args of
        [] \<Rightarrow> Inr (Inl ([ErrLine (serve_usage cfg)], 2))
      | name # _ \<Rightarrow>
          (case serve_path E dir name of
             None \<Rightarrow> Inr (Inl ([ErrorLine (''model file not found: '' @ name),
               ErrorLine ''(use `hostely models list` to see pulled models, or pass an absolute path)''], 1))
           | Some (path, ls) \<Rightarrow>
               let engine = (case get_option args ''engine'' of None \<Rightarrow> ''llama'' | Some v \<Rightarrow> v)
               in if engine \<noteq> ''llama'' then Inr (Inl (ls @ engine_lines engine, 2))
                  else and_then (stoi_option args ''port'' (cf_default_port cfg)) (\<lambda>port.
                       and_then (stoi_option args ''ctx-size'' (cf_ctx_size cfg)) (\<lambda>ctx.
                       and_then (stoi_option args ''gpu-layers'' (cf_gpu_layers cfg)) (\<lambda>gpu.
                       and_then (stoi_option args ''threads'' 0) (\<lambda>threads.
                         Inr (Inr (ls @
                           [InfoLine ''starting inference server (engine=llama / ggml-metal)'',
                            InfoLine (''  model     : '' @ path),
                            InfoLine (''  port      : '' @ string_of_int port),
                            InfoLine (''  ctx_size  : '' @ string_of_int ctx),
                            InfoLine (''  gpu_layers: '' @ string_of_int gpu),
                            InfoLine (''  threads   : '' @ string_of_int threads)],
                           \<lparr>sv_model_path = path, sv_port = port, sv_ctx_size = ctx, sv_gpu_layers = gpu,
                            sv_threads = threads, sv_no_fit_check = has_option args ''no-fit-check'',
                            sv_chat_template = (case get_option args ''chat-template'' of None \<Rightarrow> [] | Some v \<Rightarrow> v)\<rparr>))))))))"

section \<open>status\<close>

text \<open>What the kernel and Metal report; the load averages as the stream prints them.\<close>

record cpu_stats =
  cs_valid :: bool
  cs_logical :: int
  cs_physical :: int
  cs_load :: "string \<times> string \<times> string"
  cs_rss :: u64
  cs_virtual :: u64

record metal_device =
  md_name :: string
  md_current :: u64
  md_max :: u64

definition u64_int :: "u64 \<Rightarrow> int" where
  "u64_int w = sint (ucast w :: 32 word)"

definition status_memory :: "memory_stats \<Rightarrow> cli_line list" where
  "status_memory m =
     (if mem_valid m
      then [OutLine ''memory'',
            OutLine (''  total     : '' @ human_bytes (total_bytes m)),
            OutLine (''  free      : '' @ human_bytes (free_bytes m)),
            OutLine (''  active    : '' @ human_bytes (active_bytes m)),
            OutLine (''  inactive  : '' @ human_bytes (inactive_bytes m)),
            OutLine (''  wired     : '' @ human_bytes (wired_bytes m)),
            OutLine (''  compressed: '' @ human_bytes (compressed_bytes m))] @
           (if 0 < total_bytes m
            then [OutLine (''  used%     : '' @
                    string_of_int (u64_int ((active_bytes m + wired_bytes m + compressed_bytes m) * 100 div total_bytes m)) @ ''%'')]
            else [])
      else [WarnLine ''could not read memory stats''])"

definition status_cpu :: "cpu_stats \<Rightarrow> cli_line list" where
  "status_cpu c =
     (if cs_valid c
      then let (l1, l5, l15) = cs_load c
           in [OutLine ''cpu'',
               OutLine (''  logical cores  : '' @ string_of_int (cs_logical c)),
               OutLine (''  physical cores : '' @ string_of_int (cs_physical c)),
               OutLine (''  load (1/5/15m) : '' @ l1 @ '' / '' @ l5 @ '' / '' @ l15),
               OutLine (''  self rss       : '' @ human_bytes (cs_rss c)),
               OutLine (''  self virtual   : '' @ human_bytes (cs_virtual c))]
      else [WarnLine ''could not read cpu stats''])"

definition status_headroom :: "memory_stats \<Rightarrow> cpu_stats \<Rightarrow> cli_line list" where
  "status_headroom m c =
     (if mem_valid m
      then [OutLine ''memory model headroom'',
            OutLine (''  available for serve : '' @ human_bytes (available_of m (push_bit 31 1)) @
              ''   (= free + inactive - 2 GiB safety)''),
            OutLine (''  hostely process rss : '' @ human_bytes (if cs_valid c then cs_rss c else 0))]
      else [])"

definition human_params :: "u64 \<Rightarrow> string" where
  "human_params n =
     (if 1000000000 \<le> n then fixed_point 2 (ddiv (of_u64 n) 1000000000) @ '' B''
      else if 1000000 \<le> n then fixed_point 1 (ddiv (of_u64 n) 1000000) @ '' M''
      else digits_of (unat n))"

definition status_served :: "serve_lock option \<times> string \<times> bool \<Rightarrow> cli_line list" where
  "status_served r =
     (case r of
        (Some l, err, stale) \<Rightarrow>
          if stale then [WarnLine (''served model : '' @ err)]
          else [OutLine ''served model'',
                OutLine (''  name   : '' @ lk_display_name l),
                OutLine (''  quant  : '' @ (if lk_quant_name l = [] then ''-'' else lk_quant_name l)),
                OutLine (''  params : '' @ human_params (lk_params l)),
                OutLine (''  ctx    : '' @ string_of_int (sint (lk_ctx_size l)) @ '' / '' @
                  string_of_int (sint (lk_ctx_train l)) @ '' trained''),
                OutLine (''  ram    : '' @ human_bytes (lk_peak_rss_bytes l) @ '' peak (estimated)''),
                OutLine (''  port   : '' @ string_of_int (sint (lk_port l))),
                OutLine (''  pid    : '' @ string_of_int (sint (lk_pid l))),
                OutLine (''  since  : '' @ lk_started_at l)]
      | (None, err, stale) \<Rightarrow> if err \<noteq> [] then [WarnLine (''served model : '' @ err)] else [])"

definition status_metal :: "metal_device option \<Rightarrow> cli_line list" where
  "status_metal dev =
     (case dev of
        Some d \<Rightarrow>
          [OutLine ''metal'',
           OutLine (''  device              : '' @ md_name d),
           OutLine (''  recommended max     : '' @ human_bytes (md_max d)),
           OutLine (''  current (pub. API)  : '' @ human_bytes (md_current d))] @
          (if 0 < md_max d
           then [OutLine (''  utilisation         : '' @ string_of_int (u64_int (md_current d * 100 div md_max d)) @
                   ''% (public-API only)'')] else []) @
          (if 0 < md_max d \<and> md_max d < md_current d
           then [WarnLine (''Metal public-API allocation exceeds recommended maximum; '' @
                   ''OS may evict and degrade inference speed.'')] else [])
      | None \<Rightarrow> [OutLine ''metal'', OutLine ''  device : (none / Metal unavailable)''])"

definition run_status ::
  "memory_stats \<Rightarrow> cpu_stats \<Rightarrow> serve_lock option \<times> string \<times> bool \<Rightarrow> metal_device option \<Rightarrow> cli_line list \<times> int" where
  "run_status m c lock dev =
     (InfoLine ''hostely status'' # status_memory m @ status_cpu c @ status_headroom m c @ status_served lock @
      status_metal dev, 0)"

section \<open>doctor\<close>

definition made_note :: "bool \<Rightarrow> string" where
  "made_note ok = (if ok then [] else '' (created)'')"

definition doctor_paths :: "settings_os \<Rightarrow> string option \<Rightarrow> files \<Rightarrow> cli_line list" where
  "doctor_paths os home fs =
     [if home_dir home = [] then WarnLine ''$HOME is not set; hostely cannot resolve state/log directories.''
      else InfoLine (''HOME                : '' @ home_dir home),
      InfoLine (''state dir           : '' @ state_dir home @ made_note (ensure_dir os (state_dir home))),
      InfoLine (''log dir             : '' @ log_dir home @ made_note (ensure_dir os (log_dir home))),
      InfoLine (''config file         : '' @ config_file home @
        (if fs (config_file home) \<noteq> None then '' (exists)''
         else '' (missing; run '' @ [squote] @ ''hostely init'' @ [squote] @ '')''))]"

definition doctor_container :: "'w cli \<Rightarrow> string option \<Rightarrow> string \<Rightarrow> 'w \<Rightarrow> 'w \<times> cli_line list" where
  "doctor_container cli cli_path tool w =
     (case cli_path of
        Some path \<Rightarrow>
          (case system_is_ready cli path w of
             (w1, Inr ok) \<Rightarrow> (w1, InfoLine (''container CLI       : '' @ path) #
               (if ok then [InfoLine ''container system    : ready''] else []))
           | (w1, Inl e) \<Rightarrow> (w1, [InfoLine (''container CLI       : '' @ path),
               WarnLine (''container system    : not ready '' @ em_dash @ '' '' @ message e)]))
      | None \<Rightarrow> (w, [WarnLine (''container CLI       : not on PATH (looking for `'' @ tool @ ''`)''),
                    InfoLine install_instructions]))"

definition doctor_metal :: "metal_device option \<Rightarrow> cli_line" where
  "doctor_metal dev =
     (case dev of
        Some d \<Rightarrow> InfoLine (''Metal device        : '' @ md_name d @ '' (recommended max '' @ human_bytes (md_max d) @ '')'')
      | None \<Rightarrow> WarnLine ''Metal device        : not available'')"

definition doctor_cert :: "int \<Rightarrow> cert_info \<Rightarrow> cli_line" where
  "doctor_cert now c =
     (let days = cert_days_remaining now c;
          note = (if days < 0 then ''  [EXPIRED]''
                  else if days < 30 then ''  [expires soon: '' @ string_of_int days @ ''d]'' else [])
      in OutLine (''  '' @ ci_domain c @ '' expires_in='' @ (if 0 \<le> days then string_of_int days @ ''d'' else ''expired'') @ note))"

definition doctor_route :: "route \<Rightarrow> cli_line" where
  "doctor_route r =
     OutLine (''  '' @ rt_host r @ '' -> '' @ rt_target r @ '':'' @ string_of_int (rt_port r) @ (if rt_tls r then '' (tls)'' else '' (plain)''))"

definition doctor_exposure :: "string \<Rightarrow> bool \<Rightarrow> route list \<Rightarrow> int \<Rightarrow> cert_info list \<Rightarrow> string \<Rightarrow> cli_line list" where
  "doctor_exposure dir dns rs now cs ip =
     [OutLine [], OutLine ''--- exposure ---'', OutLine (''exposure dir        : '' @ dir),
      OutLine (if dns then ''DNS provider        : cloudflare (HOSTELY_CF_API_TOKEN set)''
               else ''DNS provider        : none '' @ em_dash @ '' set HOSTELY_CF_API_TOKEN to enable DNS automation'')] @
     (if rs = [] then [OutLine ''routes              : none''] else OutLine ''routes:'' # map doctor_route rs) @
     (if cs = [] then [OutLine (''certificates        : none (run '' @ [squote] @ ''hostely certs issue'' @ [squote] @ '')'')]
      else OutLine ''certificates:'' # map (doctor_cert now) cs) @
     [OutLine (if ip = [] then ''public IP           : unknown (NAT-PMP unavailable on this router)''
               else ''public IP           : '' @ ip)]"

text \<open>The configuration that is used: a file that cannot be parsed counts as none.\<close>

definition effective_config :: "toml_api \<Rightarrow> settings_os \<Rightarrow> string option \<Rightarrow> files \<Rightarrow> config" where
  "effective_config T os home fs =
     (case config_load T os home (config_file home) fs of Some c \<Rightarrow> c | None \<Rightarrow> config_defaults home)"

definition run_doctor ::
  "toml_api \<Rightarrow> settings_os \<Rightarrow> 'w cli \<Rightarrow> (string \<Rightarrow> string option) \<Rightarrow> 'w gateway \<Rightarrow> metal_device option \<Rightarrow> string option \<Rightarrow>
   files \<Rightarrow> bool \<Rightarrow> route list \<Rightarrow> int \<Rightarrow> cert_info list \<Rightarrow> parsed_args \<Rightarrow> 'w \<Rightarrow> 'w \<times> cli_line list \<times> int" where
  "run_doctor T os cli which_cli gw dev home fs dns rs now cs args w =
     (let tool = cf_container_cli (effective_config T os home fs);
          (w1, cl) = doctor_container cli (which_cli tool) tool w;
          base = InfoLine ''hostely doctor'' # doctor_paths os home fs @ cl @
            [InfoLine ''llama.cpp build     : linked (ggml-metal enabled)'', doctor_metal dev,
             InfoLine ''Jetsam memlimit     : requires root + entitlement'']
      in if has_option args ''exposure''
         then (case router_public_ip gw w1 of
                 (w2, ip) \<Rightarrow> (w2, base @ doctor_exposure (path_join (state_dir home) ''exposure'') dns rs now cs ip @
                               [InfoLine ''doctor complete.''], 0))
         else (w1, base @ [InfoLine ''doctor complete.''], 0))"

end
