(* ===== verification/Dispatch.thy ===== *)
theory Dispatch
  imports Commands
begin

text \<open>
  main.cpp: the command app over the operations of the app manager, and main() itself: what it does
  before a command, the logging it sets up and the command it calls.
\<close>

section \<open>hostely app\<close>

definition app_usage :: cli_line where
  "app_usage = ErrLine (
     ''Usage: hostely app up <dir> [--name app] [--env K=V]...'' @ [nl] @
     ''       hostely app stop <app>'' @ [nl] @
     ''       hostely app ps'' @ [nl] @
     ''       hostely app logs <app> [service] [--follow]'' @ [nl] @
     ''       hostely app rm <app>'' @ [nl] @ [nl] @
     ''`up` finds a compose.yaml / docker-compose.yml in <dir> (depth 2),'' @ [nl] @
     ''translates it for Apple'' @ [squote] @ ''s container runtime, and launches it.'' @ [nl] @
     ''Re-running `up` reconciles: unchanged services stay up, changed'' @ [nl] @
     ''ones are recreated.'')"

fun app_env :: "cli_option list \<Rightarrow> string + (string \<times> string) list" where
  "app_env [] = Inr []"
| "app_env (f # fs) =
     (if co_name f \<noteq> ''env'' \<or> co_value f = [] then app_env fs
      else case split_first (CHR ''='') (co_value f) of
             None \<Rightarrow> Inl (''--env expects KEY=VALUE, got '' @ [squote] @ co_value f @ [squote])
           | Some kv \<Rightarrow> and_then (app_env fs) (\<lambda>kvs. Inr (kv # kvs)))"

definition run_app_up ::
  "('j, 'm) json_build_scheme \<Rightarrow> ('w, 'o) app_os_scheme \<Rightarrow> string \<Rightarrow> string list \<Rightarrow> parsed_args \<Rightarrow> 'w \<Rightarrow>
   ('w \<times> cli_line list \<times> int) or_ub" where
  "run_app_up J os path rest args w =
     (case rest of
        [] \<Rightarrow> Inr (w, [ErrLine ''Usage: hostely app up <dir> [--name app] [--env K=V]...''], 2)
      | dir # _ \<Rightarrow>
          (case app_env (pa_options args) of
             Inl e \<Rightarrow> Inr (w, [ErrorLine e], 2)
           | Inr env \<Rightarrow>
               let name = get_option args ''name''
               in and_then (app_up J os path dir name env w) (\<lambda>(w1, ms, r).
                    case r of
                      Inl t \<Rightarrow> Inl Terminates
                    | Inr (Inl e) \<Rightarrow> Inr (w1, map OutLine ms @ [OutLine [], ErrorLine e], 1)
                    | Inr (Inr _) \<Rightarrow> Inr (w1, map OutLine ms @ [OutLine [], OutLine (''app '' @ [squote] @
                        (case name of Some n \<Rightarrow> n | None \<Rightarrow> app_name_from_dir dir) @ [squote] @ '' is up.'')], 0))))"

definition run_app_stop ::
  "('j, 'm) json_build_scheme \<Rightarrow> ('w, 'o) app_os_scheme \<Rightarrow> string \<Rightarrow> string list \<Rightarrow> 'w \<Rightarrow> 'w \<times> cli_line list \<times> int" where
  "run_app_stop J os path rest w =
     (case rest of
        [] \<Rightarrow> (w, [ErrLine ''Usage: hostely app stop <app>''], 2)
      | app # _ \<Rightarrow>
          (case app_stop J os path app w of
             (w1, ms, Inl e) \<Rightarrow> (w1, map OutLine ms @ [ErrorLine e], 1)
           | (w1, ms, Inr _) \<Rightarrow> (w1, map OutLine ms, 0)))"

definition run_app_ps ::
  "('j, 'm) json_build_scheme \<Rightarrow> ('w, 'o) app_os_scheme \<Rightarrow> string \<Rightarrow> 'w \<Rightarrow> 'w \<times> cli_line list \<times> int" where
  "run_app_ps J os path w =
     (case app_ps J os path w of
        (w1, apps) \<Rightarrow>
          (w1, if apps = [] then [OutLine ''no apps (run `hostely app up <dir>`)'']
               else concat (map (\<lambda>(app, lines). OutLine app # map (\<lambda>l. OutLine (''  '' @ l)) lines) apps), 0))"

definition run_app_logs ::
  "('j, 'm) json_build_scheme \<Rightarrow> ('w, 'o) app_os_scheme \<Rightarrow> string \<Rightarrow> string list \<Rightarrow> parsed_args \<Rightarrow> 'w \<Rightarrow> 'w \<times> cli_line list \<times> int" where
  "run_app_logs J os path rest args w =
     (case rest of
        [] \<Rightarrow> (w, [ErrLine ''Usage: hostely app logs <app> [service] [--follow]''], 2)
      | app # others \<Rightarrow>
          (case app_logs J os path app (case others of [] \<Rightarrow> None | svc # _ \<Rightarrow> Some svc) (has_option args ''follow'') w of
             (w1, Inl e) \<Rightarrow> (w1, [ErrorLine e], 1)
           | (w1, Inr s) \<Rightarrow> (w1, [OutText s], 0)))"

definition run_app_rm ::
  "('j, 'm) json_build_scheme \<Rightarrow> ('w, 'o) app_os_scheme \<Rightarrow> string \<Rightarrow> string list \<Rightarrow> 'w \<Rightarrow> 'w \<times> cli_line list \<times> int" where
  "run_app_rm J os path rest w =
     (case rest of
        [] \<Rightarrow> (w, [ErrLine ''Usage: hostely app rm <app>''], 2)
      | app # _ \<Rightarrow>
          (case app_rm J os path app w of
             (w1, ms, Inl e) \<Rightarrow> (w1, map OutLine ms @ [ErrorLine e], 1)
           | (w1, ms, Inr _) \<Rightarrow> (w1, map OutLine ms @ [OutLine (''app '' @ [squote] @ app @ [squote] @ '' removed.'')], 0)))"

definition run_app ::
  "('j, 'm) json_build_scheme \<Rightarrow> ('w, 'o) app_os_scheme \<Rightarrow> string option \<Rightarrow> parsed_args \<Rightarrow> 'w \<Rightarrow>
   ('w \<times> cli_line list \<times> int) or_ub" where
  "run_app J os cli_path args w =
     (case operands args of
        [] \<Rightarrow> Inr (w, [app_usage], 2)
      | sub # rest \<Rightarrow>
          (case make_manager cli_path of
             Inl ms \<Rightarrow> Inr (w, ms, 1)
           | Inr path \<Rightarrow>
               if sub = ''up'' then run_app_up J os path rest args w
               else if sub = ''stop'' then Inr (run_app_stop J os path rest w)
               else if sub = ''ps'' then Inr (run_app_ps J os path w)
               else if sub = ''logs'' then Inr (run_app_logs J os path rest args w)
               else if sub = ''rm'' then Inr (run_app_rm J os path rest w)
               else Inr (w, [ErrLine (''hostely app: unknown subcommand '' @ [squote] @ sub @ [squote]),
                             ErrLine ''Expected up | stop | ps | logs | rm.''], 2)))"

section \<open>main\<close>

definition banner :: string where
  "banner = ''hostely 0.1.0 (phase 2 '' @ em_dash @ '' services)''"

definition parse_level :: "string \<Rightarrow> level" where
  "parse_level s =
     (if s = ''debug'' then Debug else if s = ''info'' then Info else if s = ''warn'' then Warn
      else if s = ''error'' then Error else Info)"

definition help_lines :: "string list" where
  "help_lines =
     [''Usage: hostely <command> [options]'', [],
      ''Commands:'',
      ''  init        create config dir + default config.toml'',
      ''  run         run a service from an OCI image'',
      ''  app         run a compose-defined stack (up/stop/ps/logs/rm)'',
      ''  ps          list running services'',
      ''  stop        stop a service'',
      ''  logs        show logs for a service'',
      ''  serve       serve an LLM (llama.cpp / ggml-metal backend)'',
      ''  models      pull/list/path/rm local GGUF models from Hugging Face'',
      ''  status      system-wide CPU/RAM/GPU memory pressure'',
      ''  top         live htop-style dashboard of containers + resources'',
      ''  resources   detailed per-service resource accounting'',
      ''  doctor      verify hostely can run on this machine'', [],
      ''Exposure (requires OpenSSL):'',
      ''  proxy       reverse proxy for exposed containers (proxy serve)'',
      ''  certs       manage TLS certs: list / issue / rm'',
      ''  expose      expose <host> <container> [--port N] | route list|rm'',
      ''  tunnel      outbound tunnel to a hostely-relay (token via env)'',
      ''  router      router port maps + public-IP DNS watcher'', [],
      ''Global options:'',
      ''  --log-level LEVEL   debug | info | warn | error (default: info)'',
      ''  --no-log-file       disable the rotating logfile sink'',
      ''  --help              print this message and exit'',
      ''  --version           print version and exit'', [],
      ''Run '' @ [squote] @ ''hostely <command> --help'' @ [squote] @ '' for command-specific options.'']"

text \<open>The sinks of the logger: stderr at a level, a file, or the file alone.\<close>

datatype sinks = StderrOnly level bool | Both level string | FileOnly level string

definition choose_sinks :: "settings_os \<Rightarrow> string option \<Rightarrow> parsed_args \<Rightarrow> sinks" where
  "choose_sinks os home args =
     (let lv = (case get_option args ''log-level'' of Some v \<Rightarrow> parse_level v | None \<Rightarrow> Info);
          quiet = command args \<in> {''top'', ''proxy'', ''tunnel''};
          path = path_join (log_dir home) ''hostely.log''
      in if has_option args ''no-log-file'' then StderrOnly lv False
         else if \<not> ensure_dir os (log_dir home) then StderrOnly lv True
         else if quiet then FileOnly lv path else Both lv path)"

text \<open>The second component of StderrOnly: the directory of the log could not be made, which is warned of.\<close>

definition apply_sinks :: "(string \<Rightarrow> bool) \<Rightarrow> sinks \<Rightarrow> logger \<Rightarrow> logger" where
  "apply_sinks opens s l =
     (case s of
        StderrOnly lv failed \<Rightarrow> log_init opens lv [] (2 ^ 20) 3 l
      | Both lv path \<Rightarrow> log_init opens lv path (2 ^ 20) 3 l
      | FileOnly lv path \<Rightarrow> log_init_file_only opens lv path (2 ^ 20) 3 l)"

datatype command_name =
  CmdInit | CmdDoctor | CmdRun | CmdApp | CmdPs | CmdStop | CmdLogs | CmdServe | CmdStatus | CmdTop | CmdModels |
  CmdProxy | CmdCerts | CmdExpose | CmdTunnel | CmdRouter

definition commands :: "(string \<times> command_name) list" where
  "commands =
     [(''init'', CmdInit), (''doctor'', CmdDoctor), (''run'', CmdRun), (''app'', CmdApp), (''ps'', CmdPs),
      (''stop'', CmdStop), (''logs'', CmdLogs), (''serve'', CmdServe), (''status'', CmdStatus), (''top'', CmdTop),
      (''models'', CmdModels)]"

definition exposure_commands :: "(string \<times> command_name) list" where
  "exposure_commands =
     [(''proxy'', CmdProxy), (''certs'', CmdCerts), (''expose'', CmdExpose), (''tunnel'', CmdTunnel), (''router'', CmdRouter)]"

text \<open>main() ends at once, or sets up the log and calls a command; openssl tells how it was built.\<close>

datatype main_plan =
  Finish "cli_line list" int
| Refuse sinks "cli_line list" int
| Call sinks command_name

definition main_plan_of :: "bool \<Rightarrow> string \<Rightarrow> settings_os \<Rightarrow> string option \<Rightarrow> string list \<Rightarrow> main_plan" where
  "main_plan_of openssl version os home argv =
     (let args = from_argv argv; cmd = command args
      in if has_option args ''version'' \<or> has_option args ''v'' then Finish [OutLine (''hostely '' @ version)] 0
         else if has_option args ''help'' \<or> has_option args ''h'' \<or> cmd = [] then Finish (map OutLine help_lines) 0
         else let s = choose_sinks os home args
              in case map_of (commands @ (if openssl then exposure_commands else [])) cmd of
                   Some c \<Rightarrow> Call s c
                 | None \<Rightarrow>
                     if cmd = ''resources''
                     then Refuse s [WarnLine (squote # ''resources'' @ [squote] @ '' is not implemented yet (planned for a later phase).'')] 1
                     else Refuse s [ErrLine (''hostely: unknown command '' @ [squote] @ cmd @ [squote]),
                                    ErrLine (''Run '' @ [squote] @ ''hostely --help'' @ [squote] @ '' for usage.'')] 2)"

definition start_lines :: "sinks \<Rightarrow> string \<Rightarrow> cli_line list" where
  "start_lines s cmd =
     (case s of StderrOnly lv failed \<Rightarrow> if failed then [WarnLine ''could not create log directory; file logging disabled.''] else []
      | _ \<Rightarrow> []) @
     (if cmd \<in> {''top'', ''proxy'', ''tunnel''} then [] else [InfoLine banner])"

section \<open>Lemmas\<close>

text \<open>A refused or called command has neither --help nor -h anywhere on its line.\<close>

lemma call_without_help:
  "main_plan_of openssl version os home argv = Call s c \<Longrightarrow>
   \<not> has_option (from_argv argv) ''help'' \<and> \<not> has_option (from_argv argv) ''h''"
  by (auto simp: main_plan_of_def Let_def split: if_splits option.splits)

text \<open>The usage of top is therefore never printed.\<close>

lemma top_usage_unreachable:
  assumes "main_plan_of openssl version os home argv = Call s CmdTop"
    and "run_top J cli cli_path tty t host1 host2 (from_argv argv) w = Inr (w', TopExit out err code)"
  shows "out \<noteq> top_usage"
proof -
  have header: "hd (render_snapshot_text snap key) = CHR ''N''" for snap key
    by (simp add: render_snapshot_text_def Let_def pad_def)
  have usage: "hd top_usage = CHR ''U''" "top_usage \<noteq> []" by (simp_all add: top_usage_def)
  have printed: "render_snapshot_text snap key \<noteq> top_usage" for snap key
  proof
    assume "render_snapshot_text snap key = top_usage"
    then have "hd (render_snapshot_text snap key) = hd top_usage" by simp
    then show False by (simp add: header usage(1))
  qed
  have once: "\<exists>snap. out = render_snapshot_text snap key"
    if "top_once J cli path host1 host2 itv key w1 = Inr (w', out)" for path itv key w1
    using that by (auto simp: top_once_def and_then_Inr)
  show ?thesis
  proof (cases cli_path)
    case None
    then show ?thesis using assms(2) call_without_help [OF assms(1)] usage(2) by (auto simp: run_top_def)
  next
    case (Some path)
    obtain w1 r where ready: "system_is_ready cli path w = (w1, r)" by (cases "system_is_ready cli path w")
    have "out = [] \<or> (\<exists>itv key. top_once J cli path host1 host2 itv key w1 = Inr (w', out))"
      using assms(2) call_without_help [OF assms(1)] Some ready
      by (auto simp: run_top_def and_then_Inr split: if_splits sum.splits)
    with once usage(2) printed show ?thesis by metis
  qed
qed

lemma stop_names_append:
  "stop_names cli path (as @ bs) w =
     (case stop_names cli path as w of
        (w1, ls, code) \<Rightarrow> if code = 0 then (case stop_names cli path bs w1 of (w2, ls2, c) \<Rightarrow> (w2, ls @ ls2, c))
                          else (w1, ls, code))"
  by (induction as arbitrary: w) (auto split: prod.splits sum.splits)

text \<open>
  C32. After a successful init the configuration every command uses is the default one, unless there was
  a file before, which is left as it was; a second init succeeds and changes nothing.
\<close>

theorem init_then_config:
  assumes "toml_ok T" "so_readable os (config_file home)" "run_init T os home fs = (fs', ls, 0)"
  shows "run_init T os home fs' =
      (fs', [InfoLine ''hostely init'', InfoLine ''config already exists, leaving it untouched:'',
             InfoLine (''  '' @ config_file home)], 0) \<and>
    (if fs (config_file home) = None
     then effective_config T os home fs' = (config_defaults home)\<lparr>cf_source_path := config_file home\<rparr>
     else fs' = fs)"
proof -
  let ?cfg = "config_file home" and ?c = "config_defaults home"
  have dirs: "ensure_dir os (state_dir home)" "ensure_dir os (log_dir home)"
    using assms(3) by (auto simp: run_init_def Let_def split: if_splits)
  show ?thesis
  proof (cases "fs ?cfg = None")
    case True
    then have saved: "config_save T os ?c ?cfg fs = (fs', True)"
      using assms(3) dirs by (auto simp: run_init_def Let_def split: prod.splits bool.splits)
    then have "fs' ?cfg \<noteq> None"
      by (auto simp: config_save_def Let_def split: if_splits)
    moreover have "in_int32 (cf_default_port ?c)" "in_int32 (cf_ctx_size ?c)" "in_int32 (cf_gpu_layers ?c)"
      by (simp_all add: config_defaults_def in_int32_def)
    note config_roundtrip [OF assms(1) this saved assms(2), of home]
    ultimately show ?thesis
      using dirs True by (simp add: run_init_def effective_config_def)
  next
    case False
    then show ?thesis using assms(3) dirs by (auto simp: run_init_def Let_def)
  qed
qed

theorem init_then_config_witness:
  "\<exists>fs'. fst (run_init plain_toml open_os (Some ''/u'') Map.empty) = fs' \<and>
     effective_config plain_toml open_os (Some ''/u'') fs' =
       (config_defaults (Some ''/u''))\<lparr>cf_source_path := config_file (Some ''/u'')\<rparr>"
proof -
  have "state_dir (Some ''/u'') \<noteq> []" "log_dir (Some ''/u'') \<noteq> []"
    by (simp_all add: state_dir_def log_dir_def home_dir_def Let_def path_join_nonempty)
  then obtain fs' ls where run: "run_init plain_toml open_os (Some ''/u'') Map.empty = (fs', ls, 0)"
    by (simp add: run_init_def ensure_dir_def open_os_def config_save_def Let_def)
  have "so_readable open_os (config_file (Some ''/u''))" by (simp add: open_os_def)
  from init_then_config [OF plain_toml_ok this run] run show ?thesis by simp
qed

text \<open>A word that is no option: the parser takes it as the command, or as the value of the option before it.\<close>

definition bare_word :: "string \<Rightarrow> bool" where
  "bare_word s \<longleftrightarrow> s \<noteq> [] \<and> hd s \<noteq> CHR ''-''"

lemma bare_word_parse:
  assumes "bare_word s"
  shows "strip_dashes s = None" "\<not> is_option_token s" "s \<noteq> ''--''"
  using assms by (cases s; auto simp: bare_word_def strip_dashes_def is_option_token_def starts_with_def)+

lemma no_log_file_token:
  "strip_dashes ''--no-log-file'' = Some ''no-log-file''" "find_char (CHR ''='') ''no-log-file'' = None"
  "''--no-log-file'' \<noteq> ''--''"
  by (simp_all add: strip_dashes_def starts_with_def find_char_def)

lemma parse_command_first:
  "bare_word cmd \<Longrightarrow> parse_tokens [cmd, ''--no-log-file''] =
     \<lparr>pa_options = [\<lparr>co_name = ''no-log-file'', co_value = []\<rparr>], pa_positionals = [cmd]\<rparr>"
  using bare_word_parse [of cmd] no_log_file_token by (simp add: add_positional_def add_option_def)

lemma parse_flag_first:
  "bare_word cmd \<Longrightarrow> parse_tokens [''--no-log-file'', cmd] =
     \<lparr>pa_options = [\<lparr>co_name = ''no-log-file'', co_value = cmd\<rparr>], pa_positionals = []\<rparr>"
  using bare_word_parse [of cmd] no_log_file_token by (simp add: add_option_def)

lemma commands_bare: "map_of (commands @ exposure_commands) cmd = Some c \<Longrightarrow> bare_word cmd"
  by (auto simp: commands_def exposure_commands_def bare_word_def split: if_splits)

text \<open>
  The place of a global flag decides what is run. Behind the command --no-log-file turns the file
  off; before it the flag takes the command as its value, no command is left, and the help is printed
  with exit code 0, although the help lists it among the global options.
\<close>

theorem flag_swallows_command:
  assumes "map_of (commands @ exposure_commands) cmd = Some c"
  shows "main_plan_of True version os home [prog, cmd, ''--no-log-file''] = Call (StderrOnly Info False) c \<and>
    main_plan_of openssl version os home [prog, ''--no-log-file'', cmd] = Finish (map OutLine help_lines) 0"
proof -
  note bare = commands_bare [OF assms]
  have behind: "from_argv [prog, cmd, ''--no-log-file''] =
      \<lparr>pa_options = [\<lparr>co_name = ''no-log-file'', co_value = []\<rparr>], pa_positionals = [cmd]\<rparr>"
    by (simp only: from_argv_def drop_Suc_Cons One_nat_def drop0 parse_command_first [OF bare])
  have before: "from_argv [prog, ''--no-log-file'', cmd] =
      \<lparr>pa_options = [\<lparr>co_name = ''no-log-file'', co_value = cmd\<rparr>], pa_positionals = []\<rparr>"
    by (simp only: from_argv_def drop_Suc_Cons One_nat_def drop0 parse_flag_first [OF bare])
  have opts: "has_option p ''version'' = False" "has_option p ''v'' = False" "has_option p ''help'' = False"
    "has_option p ''h'' = False" "has_option p ''no-log-file'' = True" "get_option p ''log-level'' = None"
    if "pa_options p = [\<lparr>co_name = ''no-log-file'', co_value = v\<rparr>]" for p v
    using that by (simp_all add: has_option_def get_option_def)
  have "cmd \<noteq> []" using bare by (simp add: bare_word_def)
  then have "main_plan_of True version os home [prog, cmd, ''--no-log-file''] = Call (StderrOnly Info False) c"
    using assms unfolding main_plan_of_def behind choose_sinks_def by (simp add: Let_def opts command_def)
  moreover have "main_plan_of openssl version os home [prog, ''--no-log-file'', cmd] = Finish (map OutLine help_lines) 0"
    unfolding main_plan_of_def before by (simp add: Let_def opts command_def)
  ultimately show ?thesis by blast
qed

theorem flag_swallows_command_witness:
  "main_plan_of True ''0.1.0'' open_os None [''hostely'', ''ps'', ''--no-log-file''] = Call (StderrOnly Info False) CmdPs \<and>
   main_plan_of True ''0.1.0'' open_os None [''hostely'', ''--no-log-file'', ''ps''] = Finish (map OutLine help_lines) 0"
proof -
  have "map_of (commands @ exposure_commands) ''ps'' = Some CmdPs" by (simp add: commands_def)
  then show ?thesis by (rule flag_swallows_command)
qed

end
