(* ===== verification/Serving.thy ===== *)
theory Serving
  imports Completion Commands
begin

text \<open>
  inference/server.cpp around the completion: the model that is loaded with the numbers the fit advisor
  and the lock need, the plain prompt builder, the routes of the server and its life from start() to the
  end. llama.cpp, the HTTP library and the kernel are arguments.
\<close>

section \<open>Loading a model\<close>

record model_facts =
  mo_ftype :: string
  mo_params :: u64
  mo_size :: u64
  mo_ctx_train :: int
  mo_layers :: int
  mo_embd :: int
  mo_heads :: int
  mo_heads_kv :: int

record loaded_model =
  ld_path :: string
  ld_display_name :: string
  ld_quant_name :: string
  ld_params :: u64
  ld_tensor_bytes :: u64
  ld_ctx_train :: int
  ld_n_layer :: int
  ld_n_embd :: int
  ld_n_head :: int
  ld_n_head_kv :: int
  ld_kv_state_bytes :: u64

text \<open>Keys and values of two bytes each for every layer, cell and cached head.\<close>

definition kv_state_bytes_of :: "model_facts \<Rightarrow> int \<Rightarrow> u64" where
  "kv_state_bytes_of f ctx_size =
     (if 0 < mo_heads f \<and> 0 < mo_heads_kv f \<and> 0 < mo_layers f
      then let head_dim = word_of_int (mo_embd f) div word_of_int (mo_heads f)
           in 2 * 2 * word_of_int (mo_layers f) * word_of_int ctx_size * word_of_int (mo_heads_kv f) * head_dim
      else 0)"

definition thread_count :: "serve_options \<Rightarrow> nat \<Rightarrow> int" where
  "thread_count opts cores = (if 0 < sv_threads opts then sv_threads opts else max 1 (int (cores div 2)))"

definition load_model :: "serve_options \<Rightarrow> nat \<Rightarrow> model_facts option \<Rightarrow> bool \<Rightarrow> cli_line list \<times> loaded_model option" where
  "load_model opts cores facts ctx_ok =
     (let loading = InfoLine (''loading model: '' @ sv_model_path opts)
      in case facts of
           None \<Rightarrow> ([loading, ErrorLine ''llama_model_load_from_file failed''], None)
         | Some f \<Rightarrow>
             let ls = [loading, InfoLine (''context: n_ctx='' @ digits_of (unat (word_of_int (sv_ctx_size opts) :: u32)) @
                         '' n_threads='' @ string_of_int (thread_count opts cores))]
             in if \<not> ctx_ok then (ls @ [ErrorLine ''llama_new_context_with_model failed''], None)
                else (ls, Some \<lparr>ld_path = sv_model_path opts, ld_display_name = path_stem (sv_model_path opts),
                       ld_quant_name = mo_ftype f, ld_params = mo_params f, ld_tensor_bytes = mo_size f,
                       ld_ctx_train = mo_ctx_train f, ld_n_layer = mo_layers f, ld_n_embd = mo_embd f,
                       ld_n_head = mo_heads f, ld_n_head_kv = mo_heads_kv f,
                       ld_kv_state_bytes = kv_state_bytes_of f (sv_ctx_size opts)\<rparr>))"

section \<open>The prompt of a list of messages\<close>

definition message_parts :: "('j, 'm) json_api_scheme \<Rightarrow> 'j list \<Rightarrow> (string \<times> string) list or_throw" where
  "message_parts J ms =
     each_then (\<lambda>m. and_then (j_value_str J m ''role'' ''user'') (\<lambda>role.
                    and_then (j_value_str J m ''content'' []) (\<lambda>content. Inr (role, content)))) ms"

definition build_prompt_from_messages ::
  "('j, 'm) json_api_scheme \<Rightarrow> ((string \<times> string) list \<Rightarrow> nat \<Rightarrow> int \<times> string) option \<Rightarrow> 'j list \<Rightarrow> string or_throw" where
  "build_prompt_from_messages J tmpl ms =
     and_then (message_parts J ms) (\<lambda>parts.
       let manual = concat (map (\<lambda>(role, content). role @ '': '' @ content @ [nl]) parts) @ ''assistant:''
       in case tmpl of
            None \<Rightarrow> Inr manual
          | Some f \<Rightarrow>
              let view = map (\<lambda>(r, c). (c_str r, c_str c)) parts; needed = fst (f view 0)
              in if 0 < needed
                 then (case f view (nat needed + 1) of
                         (written, buf) \<Rightarrow> Inr (if 0 < written then take (nat written) buf else manual))
                 else Inr manual)"

text \<open>Ids of the wire formats: the clock and a counter that goes up with every id.\<close>

definition gen_id :: "string \<Rightarrow> int \<Rightarrow> u64 \<Rightarrow> string \<times> u64" where
  "gen_id stem clock counter = (stem @ string_of_int clock @ ''-'' @ digits_of (unat counter), counter + 1)"

section \<open>Routes\<close>

datatype endpoint = Models_List | Post_Completions | Post_Chat | Post_Messages | Health

definition registered_routes :: "((string \<times> string) \<times> endpoint) list" where
  "registered_routes =
     [((''GET'', ''/v1/models''), Models_List), ((''POST'', ''/v1/completions''), Post_Completions),
      ((''POST'', ''/v1/chat/completions''), Post_Chat), ((''POST'', ''/v1/messages''), Post_Messages),
      ((''GET'', ''/health''), Health)]"

definition handle_models :: "('j, 'm) json_build_scheme \<Rightarrow> serve_options \<Rightarrow> 'j" where
  "handle_models J opts =
     j_of_obj J [(''object'', j_of_str J ''list''),
       (''data'', j_of_arr J [j_of_obj J [(''id'', j_of_str J (path_stem (sv_model_path opts))),
          (''object'', j_of_str J ''model''), (''owned_by'', j_of_str J ''hostely'')]])]"

section \<open>The life of the server\<close>

definition fit_lines :: "fit_estimate \<Rightarrow> bool \<Rightarrow> cli_line list" where
  "fit_lines est no_fit_check =
     (let m = ''fit check : '' @ fit_message est
      in case fit_verdict est of
           Fits \<Rightarrow> [InfoLine m]
         | Tight \<Rightarrow> [WarnLine m]
         | WontFit \<Rightarrow>
             ErrorLine m # (if no_fit_check then [WarnLine (''--no-fit-check set; loading anyway at the user'' @ [squote] @ ''s request'')] else
               [ErrorLine ''refusing to load; pass --no-fit-check to override.'']))"

definition lock_of_model :: "64 word \<Rightarrow> loaded_model \<Rightarrow> u64 \<Rightarrow> serve_options \<Rightarrow> serve_lock" where
  "lock_of_model pid m peak opts =
     \<lparr>lk_pid = pid, lk_model_path = ld_path m, lk_display_name = ld_display_name m, lk_quant_name = ld_quant_name m,
      lk_params = ld_params m, lk_tensor_bytes = ld_tensor_bytes m, lk_kv_state_bytes = ld_kv_state_bytes m,
      lk_peak_rss_bytes = peak, lk_ctx_size = word_of_int (sv_ctx_size opts), lk_ctx_train = word_of_int (ld_ctx_train m),
      lk_port = word_of_int (sv_port opts), lk_started_at = []\<rparr>"

definition listening_lines :: "int \<Rightarrow> cli_line list" where
  "listening_lines port =
     [InfoLine (''listening on http://0.0.0.0:'' @ string_of_int port),
      InfoLine ''endpoints:'', InfoLine ''  GET  /v1/models'', InfoLine ''  POST /v1/completions'',
      InfoLine ''  POST /v1/chat/completions  (OpenAI-compatible, stream supported)'',
      InfoLine ''  POST /v1/messages           (Anthropic-compatible, stream supported)'',
      InfoLine ''  GET  /health'']"

text \<open>What llama.cpp and the machine give start(): the model, its context, the cores, the memory, the pid.\<close>

record serve_env =
  se_facts :: "model_facts option"
  se_ctx_ok :: bool
  se_cores :: nat
  se_memory :: memory_stats
  se_pid :: "64 word"

text \<open>
  start() up to listen(): the files, the lines, and the exit code when it returns before it listens. A
  lock that cannot be printed is an exception nobody catches.
\<close>

definition server_prepare ::
  "('j, 'm) json_build_scheme \<Rightarrow> settings_os \<Rightarrow> string option \<Rightarrow> string \<Rightarrow> serve_env \<Rightarrow> serve_options \<Rightarrow> files \<Rightarrow>
   (files \<times> cli_line list \<times> int option) or_ub" where
  "server_prepare J os home now env opts fs =
     (case load_model opts (se_cores env) (se_facts env) (se_ctx_ok env) of
        (ls, None) \<Rightarrow> Inr (fs, ls, Some 1)
      | (ls, Some m) \<Rightarrow>
          and_then (fit_check (se_memory env) (ld_tensor_bytes m) (ld_kv_state_bytes m) (push_bit 31 1)) (\<lambda>est.
            let ls1 = ls @ fit_lines est (sv_no_fit_check opts)
            in if \<not> should_proceed est (sv_no_fit_check opts) then Inr (fs, ls1, Some 1)
               else case write_serve_lock J os home now (lock_of_model (se_pid env) m (peak_rss_bytes est) opts) fs of
                      (fs1, Inl t) \<Rightarrow> Inl Terminates
                    | (fs1, Inr ok) \<Rightarrow>
                        Inr (fs1, ls1 @ (if ok then [] else [WarnLine (''could not write serve lockfile: '' @ serve_lock_file home)]) @
                               listening_lines (sv_port opts), None)))"

text \<open>The end: listen() has failed, or it has returned after a stop.\<close>

definition server_finish :: "string option \<Rightarrow> bool \<Rightarrow> bool \<Rightarrow> files \<Rightarrow> files \<times> cli_line list \<times> int" where
  "server_finish home listened stop_requested fs =
     (if \<not> listened \<and> \<not> stop_requested
      then (remove_serve_lock home fs, [ErrorLine ''server failed to bind''], 1)
      else (remove_serve_lock home fs, [InfoLine ''server stopped''], 0))"

definition server_start ::
  "('j, 'm) json_build_scheme \<Rightarrow> settings_os \<Rightarrow> string option \<Rightarrow> string \<Rightarrow> serve_env \<Rightarrow> serve_options \<Rightarrow> bool \<Rightarrow> bool \<Rightarrow> files \<Rightarrow>
   (files \<times> cli_line list \<times> int) or_ub" where
  "server_start J os home now env opts listened stop_requested fs =
     and_then (server_prepare J os home now env opts fs) (\<lambda>(fs1, ls, code).
       case code of
         Some c \<Rightarrow> Inr (fs1, ls, c)
       | None \<Rightarrow> (case server_finish home listened stop_requested fs1 of (fs2, ls2, c) \<Rightarrow> Inr (fs2, ls @ ls2, c)))"

definition server_stop :: "string option \<Rightarrow> bool \<Rightarrow> files \<Rightarrow> files \<times> bool" where
  "server_stop home has_impl fs = (if has_impl then (remove_serve_lock home fs, True) else (fs, False))"

section \<open>The lock of a run\<close>

lemma prepared_with_lock:
  assumes "server_prepare J os home now env opts fs = Inr (fs1, ls, None)"
    and "ensure_dir os (state_dir home)" "so_writable os (serve_lock_file home)" "so_flushed os (serve_lock_file home)"
  obtains m est where "snd (load_model opts (se_cores env) (se_facts env) (se_ctx_ok env)) = Some m"
    and "fit_check (se_memory env) (ld_tensor_bytes m) (ld_kv_state_bytes m) (push_bit 31 1) = Inr est"
    and "should_proceed est (sv_no_fit_check opts)"
    and "write_serve_lock J os home now (lock_of_model (se_pid env) m (peak_rss_bytes est) opts) fs = (fs1, Inr True)"
proof -
  obtain ls0 m where m: "load_model opts (se_cores env) (se_facts env) (se_ctx_ok env) = (ls0, Some m)"
    using assms(1) by (auto simp: server_prepare_def split: prod.splits option.splits)
  obtain est where est: "fit_check (se_memory env) (ld_tensor_bytes m) (ld_kv_state_bytes m) (push_bit 31 1) = Inr est"
    using assms(1) m
    by (cases "fit_check (se_memory env) (ld_tensor_bytes m) (ld_kv_state_bytes m) (push_bit 31 1)")
      (simp_all add: server_prepare_def)
  have go: "should_proceed est (sv_no_fit_check opts)"
    using assms(1) m est by (auto simp: server_prepare_def Let_def split: if_splits)
  have "write_serve_lock J os home now (lock_of_model (se_pid env) m (peak_rss_bytes est) opts) fs = (fs1, Inr True)"
    using assms m est go by (auto simp: server_prepare_def write_serve_lock_def Let_def split: if_splits sum.splits)
  with m est go show thesis by (intro that [of m est]) simp_all
qed

lemma loaded_path:
  assumes "snd (load_model opts cores facts ctx_ok) = Some m"
  shows "ld_path m = sv_model_path opts"
  using assms by (auto simp: load_model_def Let_def split: option.splits if_splits)

lemma lock_of_model_fields:
  "lk_pid (l\<lparr>lk_started_at := t\<rparr>) = lk_pid l" "lk_model_path (l\<lparr>lk_started_at := t\<rparr>) = lk_model_path l"
  "lk_port (l\<lparr>lk_started_at := t\<rparr>) = lk_port l"
  "lk_pid (lock_of_model pid m peak opts) = pid" "lk_model_path (lock_of_model pid m peak opts) = ld_path m"
  "lk_port (lock_of_model pid m peak opts) = word_of_int (sv_port opts)"
  by (simp_all add: lock_of_model_def)

lemma writing_a_lock_keeps_the_rest:
  assumes "write_serve_lock J os home now lock fs = (fs', r)" "q \<noteq> serve_lock_file home"
  shows "fs' q = fs q"
  using assms by (auto simp: write_serve_lock_def Let_def split: if_splits sum.splits)


definition demo_facts :: model_facts where
  "demo_facts = \<lparr>mo_ftype = ''Q4_K_M'', mo_params = 8, mo_size = 1024, mo_ctx_train = 8192, mo_layers = 2,
     mo_embd = 64, mo_heads = 8, mo_heads_kv = 2\<rparr>"

definition demo_env :: serve_env where
  "demo_env = \<lparr>se_facts = Some demo_facts, se_ctx_ok = True, se_cores = 8,
     se_memory = \<lparr>total_bytes = 2 ^ 34, free_bytes = 2 ^ 33, active_bytes = 0, wired_bytes = 0,
       inactive_bytes = 0, compressed_bytes = 0, mem_valid = True\<rparr>, se_pid = 7\<rparr>"

definition demo_serve :: serve_options where
  "demo_serve = \<lparr>sv_model_path = ''/m/a.gguf'', sv_port = 8080, sv_ctx_size = 4096, sv_gpu_layers = 99,
     sv_threads = 0, sv_no_fit_check = False, sv_chat_template = []\<rparr>"

definition demo_loaded :: loaded_model where
  "demo_loaded = \<lparr>ld_path = ''/m/a.gguf'', ld_display_name = ''a'', ld_quant_name = ''Q4_K_M'', ld_params = 8,
     ld_tensor_bytes = 1024, ld_ctx_train = 8192, ld_n_layer = 2, ld_n_embd = 64, ld_n_head = 8, ld_n_head_kv = 2,
     ld_kv_state_bytes = 524288\<rparr>"


end
