(* ===== verification/System.thy ===== *)
theory System
  imports Serving
begin

text \<open>
  resources/system.cpp: the figures of the kernel as memory and processor statistics, and the status
  command over them. The sysctl, mach and getloadavg() calls are arguments: what they give, or None.
\<close>

section \<open>Memory\<close>

record vm_counts =
  vm_free :: u32
  vm_active :: u32
  vm_wire :: u32
  vm_inactive :: u32
  vm_compressor :: u32

text \<open>Pages of a 32-bit counter in bytes.\<close>

definition page_bytes :: "u64 \<Rightarrow> u32 \<Rightarrow> u64" where
  "page_bytes page n = ucast n * page"

definition read_memory :: "u64 option \<Rightarrow> u64 option \<Rightarrow> vm_counts option \<Rightarrow> memory_stats" where
  "read_memory memsize page_size vm =
     (let m = \<lparr>total_bytes = (case memsize of None \<Rightarrow> 0 | Some t \<Rightarrow> t), free_bytes = 0, active_bytes = 0, wired_bytes = 0,
                inactive_bytes = 0, compressed_bytes = 0, mem_valid = False\<rparr>
      in case page_size of
           None \<Rightarrow> m
         | Some page \<Rightarrow>
             if page = 0 then m
             else (case vm of
                     None \<Rightarrow> m
                   | Some v \<Rightarrow>
                       m\<lparr>free_bytes := page_bytes page (vm_free v), active_bytes := page_bytes page (vm_active v),
                         wired_bytes := page_bytes page (vm_wire v), inactive_bytes := page_bytes page (vm_inactive v),
                         compressed_bytes := page_bytes page (vm_compressor v), mem_valid := True\<rparr>))"

section \<open>Processor\<close>

record task_times =
  tt_user :: "int \<times> int"
  tt_system :: "int \<times> int"

definition time_us :: "int \<times> int \<Rightarrow> u64" where
  "time_us t = word_of_int (fst t) * 1000000 + word_of_int (snd t)"

record self_stats = cpu_stats +
  cs_user_us :: u64
  cs_system_us :: u64

text \<open>The loads as they are printed; a figure that cannot be read stays 0, and the statistics are always valid.\<close>

definition read_cpu ::
  "int option \<Rightarrow> int option \<Rightarrow> (string \<times> string \<times> string) option \<Rightarrow> (u64 \<times> u64) option \<Rightarrow> task_times option \<Rightarrow> self_stats" where
  "read_cpu logical physical loads basic ttimes =
     \<lparr>cs_valid = True, cs_logical = (case logical of None \<Rightarrow> 0 | Some n \<Rightarrow> n),
      cs_physical = (case physical of None \<Rightarrow> 0 | Some n \<Rightarrow> n),
      cs_load = (case loads of None \<Rightarrow> (''0'', ''0'', ''0'') | Some l \<Rightarrow> l),
      cs_rss = (case basic of None \<Rightarrow> 0 | Some b \<Rightarrow> fst b), cs_virtual = (case basic of None \<Rightarrow> 0 | Some b \<Rightarrow> snd b),
      cs_user_us = (case ttimes of None \<Rightarrow> 0 | Some t \<Rightarrow> time_us (tt_user t)),
      cs_system_us = (case ttimes of None \<Rightarrow> 0 | Some t \<Rightarrow> time_us (tt_system t))\<rparr>"

section \<open>Metal\<close>

text \<open>The Metal probe of the resources directory: the default device, with the figures it gives where the call does not throw.\<close>

record metal_gpu =
  mg_name :: "string option"
  mg_current :: "u64 option"
  mg_max :: "u64 option"

definition metal_bytes :: "('g \<Rightarrow> u64 option) \<Rightarrow> 'g option \<Rightarrow> u64" where
  "metal_bytes figure gpu = (case gpu of None \<Rightarrow> 0 | Some g \<Rightarrow> (case figure g of None \<Rightarrow> 0 | Some n \<Rightarrow> n))"

definition metal_device_name :: "metal_gpu option \<Rightarrow> nat \<Rightarrow> string" where
  "metal_device_name gpu out_len =
     (if out_len = 0 then []
      else case gpu of None \<Rightarrow> [] | Some g \<Rightarrow> (case mg_name g of None \<Rightarrow> [] | Some n \<Rightarrow> take (out_len - 1) (c_str n)))"

text \<open>What status asks for, with a buffer of 64 characters for the name.\<close>

definition read_metal :: "metal_gpu option \<Rightarrow> metal_device option" where
  "read_metal gpu =
     (if gpu = None then None
      else Some \<lparr>md_name = metal_device_name gpu 64, md_current = metal_bytes mg_current gpu, md_max = metal_bytes mg_max gpu\<rparr>)"

section \<open>hostely serve\<close>

text \<open>run_serve() as a whole: the request, then the server until it ends.\<close>

definition run_serve ::
  "('j, 'm) json_build_scheme \<Rightarrow> settings_os \<Rightarrow> fs_env \<Rightarrow> string \<Rightarrow> config \<Rightarrow> parsed_args \<Rightarrow> string option \<Rightarrow> string \<Rightarrow>
   serve_env \<Rightarrow> bool \<Rightarrow> bool \<Rightarrow> files \<Rightarrow> (files \<times> cli_line list \<times> int) or_ub" where
  "run_serve J os E dir cfg args home now env listened stop_requested fs =
     and_then (serve_request E dir cfg args) (\<lambda>r.
       case r of
         Inl (ls, code) \<Rightarrow> Inr (fs, ls, code)
       | Inr (ls, opts) \<Rightarrow>
           and_then (server_start J os home now env opts listened stop_requested fs) (\<lambda>(fs1, ls1, code).
             Inr (fs1, ls @ ls1, code)))"

section \<open>Exactness\<close>

lemma page_bytes_exact:
  assumes "unat page \<le> 2 ^ 32"
  shows "unat (page_bytes page n) = unat n * unat page"
proof -
  have "unat n \<le> 2 ^ 32 - 1" using unsigned_less [of n, where ?'a = nat] by simp
  then have "unat n * unat page \<le> (2 ^ 32 - 1) * 2 ^ 32"
    using assms by (rule mult_le_mono)
  then have "unat n * unat page < 2 ^ 64" by simp
  moreover have "unat (ucast n :: u64) = unat n"
    using \<open>unat n \<le> 2 ^ 32 - 1\<close> by (simp add: unsigned_ucast_eq take_bit_nat_eq_self_iff)
  ultimately show ?thesis by (simp add: page_bytes_def unat_word_ariths)
qed

text \<open>Pages of up to 4 GiB: no count wraps around, and the figures are valid when both mach calls succeed.\<close>

lemma read_memory_exact:
  assumes "page \<noteq> 0" "unat page \<le> 2 ^ 32"
  shows "mem_valid (read_memory t (Some page) (Some v))"
    and "unat (free_bytes (read_memory t (Some page) (Some v))) = unat (vm_free v) * unat page"
    and "unat (inactive_bytes (read_memory t (Some page) (Some v))) = unat (vm_inactive v) * unat page"
    and "unat (active_bytes (read_memory t (Some page) (Some v))) = unat (vm_active v) * unat page"
    and "unat (wired_bytes (read_memory t (Some page) (Some v))) = unat (vm_wire v) * unat page"
  using assms(1) page_bytes_exact [OF assms(2)] by (simp_all add: read_memory_def Let_def)

end
