(* ===== verification/Tunnel.thy ===== *)
theory Tunnel
  imports Exposure
begin

text \<open>
  The loops of tunnel/relay.cpp and tunnel/client.cpp over the sessions of \<open>Yamux\<close>: connecting, the
  two pumps between a stream and a socket, the bridge of the client, its reconnect loop, and the relay
  as a machine of origins and public requests.

  A round of a pump is what poll(), recv(), the reader thread of the session and send() gave while it
  ran; a pump that has no more rounds is still in its loop.
\<close>

section \<open>Sockets\<close>

text \<open>The addresses of a name, each with the descriptor socket() gives and whether connect() succeeds.\<close>

fun try_addrs :: "(int \<times> bool) list \<Rightarrow> int" where
  "try_addrs [] = - 1"
| "try_addrs ((fd, ok) # as) = (if fd < 0 then try_addrs as else if ok then fd else try_addrs as)"

definition tcp_connect :: "(int \<times> bool) list option \<Rightarrow> int" where
  "tcp_connect res = (case res of None \<Rightarrow> - 1 | Some as \<Rightarrow> if as = [] then - 1 else try_addrs as)"

text \<open>A port is cut to 16 bits; socket(), bind() and listen() are those of that port.\<close>

definition tcp_listen :: "(u16 \<Rightarrow> int \<times> bool \<times> bool) \<Rightarrow> int \<Rightarrow> int" where
  "tcp_listen os port =
     (case os (word_of_int port) of
        (fd, bound, listening) \<Rightarrow> if fd < 0 then - 1 else if \<not> bound \<or> \<not> listening then - 1 else fd)"

section \<open>Pumps\<close>

record pump_round =
  pr_stop :: bool
  pr_chunks :: "byte list option list"
  pr_recv :: "byte list option"
  pr_hup :: bool
  pr_sends :: "int list"

text \<open>What the reader thread of the session does with the chunks it receives.\<close>

fun read_chunks :: "byte list option list \<Rightarrow> mux \<Rightarrow> mux or_ub" where
  "read_chunks [] m = Inr m"
| "read_chunks (c # cs) m = and_then (read_step c m) (read_chunks cs)"

text \<open>The inner loop: buffered stream data in pieces of 32 KiB, until there is none or a send() fails.\<close>

function drain :: "nat \<Rightarrow> int list \<Rightarrow> mux \<Rightarrow> bool \<times> byte list \<times> mux" where
  "drain i net m =
     (case try_read i (32 * 1024) m of
        (n, bs, m1) \<Rightarrow>
          if n \<le> 0 \<or> length (mx_objs m) \<le> i then (True, [], m1)
          else (case send_loop net bs of
                  (ok, sent, net1) \<Rightarrow>
                    if \<not> ok then (False, sent, m1)
                    else (case drain i net1 m1 of (ok2, sent2, m2) \<Rightarrow> (ok2, sent @ sent2, m2))))"
  by pat_completeness auto
termination
  by (relation "measure (\<lambda>(i, net, m). length (st_buffer (mx_objs m ! i)))")
     (auto simp: try_read_def Let_def split: if_splits)

declare drain.simps [simp del]

text \<open>A round after the test of the loop: whether the loop goes on, and the bytes sent to the socket.\<close>

definition pump_body :: "nat \<Rightarrow> pump_round \<Rightarrow> mux \<Rightarrow> (bool \<times> byte list \<times> mux) or_ub" where
  "pump_body i e m =
     and_then (read_chunks (pr_chunks e) m) (\<lambda>m1.
     and_then (case pr_recv e of
                 None \<Rightarrow> Inr (True, m1)
               | Some bs \<Rightarrow> if bs = [] then Inr (False, m1) else stream_write i bs m1) (\<lambda>(go, m2).
       if \<not> go \<or> pr_hup e then Inr (False, [], m2)
       else Inr (drain i (pr_sends e) m2)))"

text \<open>Both pumps end with the socket closed and stream->close(). The relay tests closed() after the drain, ...\<close>

fun relay_pump :: "nat \<Rightarrow> pump_round list \<Rightarrow> mux \<Rightarrow> (bool \<times> byte list \<times> mux) or_ub" where
  "relay_pump i [] m = Inr (False, [], m)"
| "relay_pump i (e # es) m =
     (if pr_stop e then and_then (stream_close False i m) (\<lambda>m1. Inr (True, [], m1))
      else and_then (pump_body i e m) (\<lambda>(go, out, m1).
             if \<not> go \<or> st_closed (mx_objs m1 ! i)
             then and_then (stream_close False i m1) (\<lambda>m2. Inr (True, out, m2))
             else and_then (relay_pump i es m1) (\<lambda>(ended, out2, m2). Inr (ended, out @ out2, m2))))"

text \<open>... the client before it polls.\<close>

fun bridge_pump :: "nat \<Rightarrow> pump_round list \<Rightarrow> mux \<Rightarrow> (bool \<times> byte list \<times> mux) or_ub" where
  "bridge_pump i [] m = Inr (False, [], m)"
| "bridge_pump i (e # es) m =
     (if pr_stop e \<or> st_closed (mx_objs m ! i) then and_then (stream_close False i m) (\<lambda>m1. Inr (True, [], m1))
      else and_then (pump_body i e m) (\<lambda>(go, out, m1).
             if \<not> go then and_then (stream_close False i m1) (\<lambda>m2. Inr (True, out, m2))
             else and_then (bridge_pump i es m1) (\<lambda>(ended, out2, m2). Inr (ended, out @ out2, m2))))"

section \<open>The client\<close>

text \<open>
  The destination line, one byte per read(); a read() that finds nothing waits for the next chunk of the
  session. The line is None while it waits; otherwise it comes with the chunks that are still to come.
\<close>

function dst_loop ::
  "nat \<Rightarrow> byte list option list \<Rightarrow> string \<Rightarrow> mux \<Rightarrow> ((string \<times> byte list option list) option \<times> mux) or_ub" where
  "dst_loop i cs dst m =
     (if length (mx_objs m) \<le> i then Inl OutOfBounds
      else case read_poll i 1 m of
        None \<Rightarrow> (case cs of [] \<Rightarrow> Inr (None, m) | c # cs1 \<Rightarrow> and_then (read_step c m) (dst_loop i cs1 dst))
      | Some (n, bs, m1) \<Rightarrow>
          if n \<noteq> 1 then Inr (Some (dst, cs), m1)
          else (case text_of bs of
                  [] \<Rightarrow> Inr (Some (dst, cs), m1)
                | b # _ \<Rightarrow>
                    if b = nl then Inr (Some (dst, cs), m1)
                    else if 512 < length (dst @ [b]) then Inr (Some (dst @ [b], cs), m1)
                    else dst_loop i cs (dst @ [b]) m1))"
  by pat_completeness auto
termination
  by (relation "measures [\<lambda>(i, cs, dst, m). length cs, \<lambda>(i, cs, dst, m). length (st_buffer (mx_objs m ! i))]")
     (auto simp: read_poll_def Let_def split: if_splits)

declare dst_loop.simps [simp del]

datatype bridged = AwaitsDst | NoUpstream | Bridged bool "byte list"

text \<open>What the session receives after the line and before the pump arrives while connect() waits.\<close>

definition bridge_stream ::
  "nat \<Rightarrow> tunnel_options \<Rightarrow> (string \<Rightarrow> int \<Rightarrow> (int \<times> bool) list option) \<Rightarrow> byte list option list \<Rightarrow>
   pump_round list \<Rightarrow> mux \<Rightarrow> (bridged \<times> mux) or_ub" where
  "bridge_stream i opts addrs cs rounds m =
     and_then (dst_loop i cs [] m) (\<lambda>(r, m1).
       case r of
         None \<Rightarrow> Inr (AwaitsDst, m1)
       | Some (dst, cs1) \<Rightarrow>
           (case upstream_of opts dst of
              (host, port) \<Rightarrow>
                and_then (read_chunks cs1 m1) (\<lambda>m2.
                  if tcp_connect (addrs host port) < 0
                  then and_then (stream_close False i m2) (\<lambda>m3. Inr (NoUpstream, m3))
                  else and_then (bridge_pump i rounds m2) (\<lambda>(ended, out, m3). Inr (Bridged ended out, m3)))))"

text \<open>
  The accept loop of a session, over what g_stop is and what the reader thread reads. accept_stream()
  polls without a look at g_stop: the flag is only read when the loop starts (inside is False then). The
  result says whether the loop has ended.
\<close>

fun accept_loop :: "bool \<Rightarrow> (bool \<times> byte list option) list \<Rightarrow> mux \<Rightarrow> (nat list \<times> bool \<times> mux) or_ub" where
  "accept_loop inside [] m = Inr ([], False, m)"
| "accept_loop inside ((stop, c) # es) m =
     (if \<not> inside \<and> (mx_dead m \<or> stop) then Inr ([], True, m)
      else (case accept_poll m of
              (Refused, m1) \<Rightarrow> Inr ([], True, m1)
            | (Accepted i, m1) \<Rightarrow>
                and_then (read_step c m1) (\<lambda>m2. and_then (accept_loop False es m2) (\<lambda>(is, ended, m3). Inr (i # is, ended, m3)))
            | (Waiting, m1) \<Rightarrow> and_then (read_step c m1) (accept_loop True es)))"

text \<open>
  A turn of tunnel_run(): the connection, the send() results of the hello, the bytes of the reply (those
  behind its line are the first the session reads), the session, and g_stop at the end of the turn.
\<close>

record attempt =
  at_addrs :: "(int \<times> bool) list option"
  at_sends :: "int list"
  at_reply :: string
  at_net :: "int list"
  at_events :: "(bool \<times> byte list option) list"
  at_stop :: bool

definition stop_seen :: "attempt \<Rightarrow> bool" where
  "stop_seen a \<longleftrightarrow> at_stop a \<or> list_ex fst (at_events a)"

definition send_all_plain :: "int list \<Rightarrow> string \<Rightarrow> bool" where
  "send_all_plain net s = fst (send_loop net (bytes_of s))"

text \<open>The partial line of a reply that never ends is printed too.\<close>

fun reply_seen :: "string \<Rightarrow> string \<Rightarrow> string" where
  "reply_seen line [] = line"
| "reply_seen line (c # cs) =
     (if c = nl then line
      else let line1 = (if c \<noteq> cr then line @ [c] else line)
           in if 4096 < length line1 then line1 else reply_seen line1 cs)"

datatype turn = In_Session | Turn_Over nat

definition attempt_turn :: "tunnel_request \<Rightarrow> attempt \<Rightarrow> (cli_line list \<times> turn) or_ub" where
  "attempt_turn r a =
     (if tcp_connect (at_addrs a) < 0
      then Inr ([ErrLine (''tunnel: cannot reach relay '' @ tr_relay_host r @ '':'' @ string_of_int (tr_relay_port r) @
                  ''; retrying in 5s'')], Turn_Over 5)
      else if \<not> send_all_plain (at_sends a) (hello_line (tunnel_options.truncate r)) then Inr ([], Turn_Over 5)
      else let rejected = Inr ([ErrLine (''tunnel: relay rejected registration: '' @ reply_seen [] (at_reply a))], Turn_Over 10)
      in case read_ctl_line [] (at_reply a) of
           None \<Rightarrow> rejected
         | Some (reply, rest) \<Rightarrow>
             if \<not> starts_with ''OK'' reply then rejected
             else let registered = ErrLine (''tunnel: registered '' @ [squote] @ to_hostname r @ [squote] @ '' at relay '' @
                                     tr_relay_host r)
             in and_then (accept_loop False ((if rest = [] then [] else [(False, Some (bytes_of rest))]) @ at_events a)
                   (mux_init True (at_net a))) (\<lambda>(is, ended, m).
                if \<not> ended then Inr ([registered], In_Session)
                else and_then (mux_destroy m) (\<lambda>m1.
                  Inr (if stop_seen a then ([registered], Turn_Over 0)
                       else ([registered, ErrLine ''tunnel: connection lost; reconnecting in 3s''], Turn_Over 3)))))"

text \<open>The loop: its lines, the seconds slept, and the exit code unless it is still in a session.\<close>

fun tunnel_run :: "tunnel_request \<Rightarrow> attempt list \<Rightarrow> (cli_line list \<times> nat \<times> int option) or_ub" where
  "tunnel_run r [] = Inr ([], 0, Some 0)"
| "tunnel_run r (a # as) =
     and_then (attempt_turn r a) (\<lambda>(ls, t).
       case t of
         In_Session \<Rightarrow> Inr (ls, 0, None)
       | Turn_Over secs \<Rightarrow>
           if stop_seen a then Inr (ls, secs, Some 0)
           else and_then (tunnel_run r as) (\<lambda>(ls2, secs2, code). Inr (ls @ ls2, secs + secs2, code)))"

section \<open>The relay\<close>

text \<open>Ports of the command line, the two listeners, and the lines of the start.\<close>

definition relay_ports :: "string list \<Rightarrow> int \<times> int \<times> int" where
  "relay_ports argv =
     (let arg = (\<lambda>k d. if k < length argv then atoi (argv ! k) else d) in (arg 1 7000, arg 2 8080, arg 3 80))"

definition relay_start ::
  "(u16 \<Rightarrow> int \<times> bool \<times> bool) \<Rightarrow> (u16 \<Rightarrow> int \<times> bool \<times> bool) \<Rightarrow> string option \<Rightarrow> string list \<Rightarrow> cli_line list \<times> int option" where
  "relay_start os1 os2 token argv =
     (case relay_ports argv of
        (control, public, origin) \<Rightarrow>
          if tcp_listen os1 control < 0 \<or> tcp_listen os2 public < 0
          then ([ErrLine (''relay: cannot bind ports '' @ string_of_int control @ ''/'' @ string_of_int public)], Some 1)
          else ([ErrLine (''hostely-relay: control :'' @ string_of_int control @ ''  public :'' @ string_of_int public)] @
                (if token = None then [ErrLine (''relay: warning '' @ em_dash @ '' HOSTELY_RELAY_TOKEN not set; all '' @
                                         ''registrations will be rejected'')] else []), None))"

text \<open>
  A connection to the control port: the bytes it sends up to its hello line, its descriptor and the results
  of send() on its session. Nothing is answered to a line that is too long or breaks off.
\<close>

definition origin_conn :: "string option \<Rightarrow> int \<Rightarrow> string \<Rightarrow> int list \<Rightarrow> relay \<Rightarrow> string \<times> relay" where
  "origin_conn want fd input net r =
     (case read_ctl_line [] input of
        None \<Rightarrow> ([], r)
      | Some (line, rest) \<Rightarrow>
          (case answer_hello want line fd (rl_registry r) of
             (reply, ok, reg) \<Rightarrow>
               (reply, if ok then origin_up fd (mux_init False net) (r\<lparr>rl_registry := reg\<rparr>) else r)))"

text \<open>
  The relay's threads as steps: a hello, what the reader thread of an origin's session reads, the end of an
  origin, a public request up to its pump, and a round of a pump.
\<close>

datatype relay_event =
    Origin_Conn int string "int list"
  | Origin_Read int "byte list option"
  | Origin_Lost int
  | Public_Conn string

fun relay_step :: "string option \<Rightarrow> int \<Rightarrow> relay \<Rightarrow> relay_event \<Rightarrow> relay or_ub" where
  "relay_step want port r (Origin_Conn fd input net) = Inr (snd (origin_conn want fd input net r))"
| "relay_step want port r (Origin_Read fd c) =
     (case map_of (rl_muxes r) fd of
        None \<Rightarrow> Inr r
      | Some m \<Rightarrow> and_then (read_step c m) (\<lambda>m1. Inr (r\<lparr>rl_muxes := put_entry fd m1 (rl_muxes r)\<rparr>)))"
| "relay_step want port r (Origin_Lost fd) =
     (case map_of (rl_muxes r) fd of
        None \<Rightarrow> Inr r
      | Some m \<Rightarrow> if mx_dead m then origin_down fd m r else Inr r)"
| "relay_step want port r (Public_Conn input) = and_then (public_conn input port r) (\<lambda>(s, r1). Inr r1)"

definition relay_run :: "string option \<Rightarrow> int \<Rightarrow> relay \<Rightarrow> relay_event list \<Rightarrow> relay or_ub" where
  "relay_run want port = run_events (relay_step want port)"

definition relay_init :: relay where
  "relay_init = \<lparr>rl_registry = registry_init, rl_muxes = []\<rparr>"

section \<open>Who a public request reaches\<close>

definition relay_ok :: "string option \<Rightarrow> relay \<Rightarrow> bool" where
  "relay_ok want r \<longleftrightarrow>
     (\<forall>h fd. owner (rl_registry r) h = Some fd \<longrightarrow>
        list_all host_char h \<and> map_of (rl_muxes r) fd \<noteq> None \<and> want \<noteq> None \<and> want \<noteq> Some []) \<and>
     (\<forall>fd. map_of (rl_muxes r) fd \<noteq> None \<longrightarrow> 0 \<le> fd) \<and> registry_ok (rl_registry r)"

fun event_fd_ok :: "relay_event \<Rightarrow> bool" where
  "event_fd_ok (Origin_Conn fd input net) = (0 \<le> fd)"
| "event_fd_ok _ = True"

lemma relay_ok_muxes:
  assumes "relay_ok want r" "map_of (rl_muxes r) fd \<noteq> None"
  shows "relay_ok want (r\<lparr>rl_muxes := put_entry fd m (rl_muxes r)\<rparr>)"
  using assms by (auto simp: relay_ok_def)

lemma register_host_True:
  "register_host host fd r = (True, r') \<Longrightarrow> r' = snd (register_host host fd r) \<and> owner r host = None"
  by (auto simp: register_host_def owner_def split: option.splits)

lemma answer_hello_ok:
  assumes "answer_hello want line fd reg = (reply, True, reg')"
  obtains host where "reg' = snd (register_host host fd reg)" "owner reg host = None"
    "list_all host_char host" "want \<noteq> None" "want \<noteq> Some []"
proof (cases "parse_hello line")
  case (Hello token host)
  have w: "want \<noteq> None \<and> want \<noteq> Some [] \<and> list_all host_char host"
    using assms Hello by (cases want) (simp_all add: answer_hello_def split: if_splits)
  obtain b reg1 where "register_host host fd reg = (b, reg1)" by (cases "register_host host fd reg")
  moreover from this have "b" "reg1 = reg'"
    using assms Hello w by (cases want; cases b; simp add: answer_hello_def split: if_splits)+
  ultimately show thesis using register_host_True [of host fd reg reg'] w by (intro that [of host]) auto
qed (use assms in \<open>simp add: answer_hello_def\<close>)

lemma relay_ok_origin:
  assumes "relay_ok want r" "0 \<le> fd"
  shows "relay_ok want (snd (origin_conn want fd input net r))"
proof (cases "read_ctl_line [] input")
  case (Some lr)
  obtain line rest where l: "lr = (line, rest)" by (cases lr)
  obtain reply ok reg where a: "answer_hello want line fd (rl_registry r) = (reply, ok, reg)"
    by (cases "answer_hello want line fd (rl_registry r)")
  show ?thesis
  proof (cases ok)
    case True
    obtain host where h: "reg = snd (register_host host fd (rl_registry r))" "owner (rl_registry r) host = None"
      "list_all host_char host" "want \<noteq> None" "want \<noteq> Some []"
      using answer_hello_ok a True by metis
    have "owner reg = (owner (rl_registry r))(host \<mapsto> fd)"
      using h(1,2) by (simp add: owner_register domIff)
    moreover have "registry_ok reg" using h(1) assms(1) by (simp add: registry_ok_register relay_ok_def)
    ultimately show ?thesis
      using assms h(3-5) Some l a True by (auto simp: origin_conn_def origin_up_def relay_ok_def)
  qed (use assms Some l a in \<open>simp add: origin_conn_def\<close>)
qed (use assms in \<open>simp add: origin_conn_def\<close>)

lemma serve_public_cases:
  assumes "serve_public host port head r = Inr (s, r1)"
  obtains "s = BadGateway" "r1 = r"
  | m i m3 where "map_of (rl_muxes r) (find_origin host (rl_registry r)) = Some m"
      "s = Streaming (find_origin host (rl_registry r)) i"
      "r1 = r\<lparr>rl_muxes := put_entry (find_origin host (rl_registry r)) m3 (rl_muxes r)\<rparr>"
proof (cases "map_of (rl_muxes r) (find_origin host (rl_registry r))")
  case None
  then show thesis using assms by (intro that(1)) (simp_all add: serve_public_def)
next
  case (Some m)
  show thesis
  proof (cases "mx_dead m")
    case True
    then show thesis using assms Some by (intro that(1)) (simp_all add: serve_public_def)
  next
    case False
    let ?rest = "\<lambda>(i, m1). and_then (stream_write i (bytes_of (dst_line host port)) m1) (\<lambda>(ok1, m2).
        and_then (if head \<noteq> [] then stream_write i (bytes_of head) m2 else Inr (True, m2)) (\<lambda>(ok2, m3).
          Inr (Streaming (find_origin host (rl_registry r)) i,
            r\<lparr>rl_muxes := put_entry (find_origin host (rl_registry r)) m3 (rl_muxes r)\<rparr>)))"
    have "and_then (open_stream m) ?rest = Inr (s, r1)"
      using assms Some False by (simp add: serve_public_def Let_def)
    then obtain i m1 where "?rest (i, m1) = Inr (s, r1)" by (auto simp only: and_then_Inr)
    then obtain ok2 m3 where "s = Streaming (find_origin host (rl_registry r)) i"
      "r1 = r\<lparr>rl_muxes := put_entry (find_origin host (rl_registry r)) m3 (rl_muxes r)\<rparr>"
      by (auto simp only: and_then_Inr prod.case sum.inject prod.inject)
    with Some show thesis by (rule that(2))
  qed
qed

lemma relay_ok_public:
  assumes "relay_ok want r" "public_conn input port r = Inr (s, r1)"
  shows "relay_ok want r1"
proof (cases "public_host (read_head [] input)")
  case (Some host)
  then have "serve_public host port (read_head [] input) r = Inr (s, r1)"
    using assms(2) by (simp add: public_conn_def Let_def)
  then show ?thesis
    by (rule serve_public_cases) (use assms(1) relay_ok_muxes in auto)
qed (use assms in \<open>simp add: public_conn_def\<close>)

lemma relay_ok_step:
  assumes "relay_ok want r" "event_fd_ok e" "relay_step want port r e = Inr r1"
  shows "relay_ok want r1"
proof (cases e)
  case (Origin_Lost fd)
  have "relay_ok want r1" if "origin_down fd m r = Inr r1" "map_of (rl_muxes r) fd = Some m" for m
  proof -
    have reg: "rl_registry r1 = unregister_fd fd (rl_registry r)"
      using that by (auto simp: origin_down_def and_then_Inr)
    show ?thesis
      using that assms(1) owner_unregister [of "rl_registry r" fd] registry_ok_unregister [of "rl_registry r" fd]
      by (auto simp: relay_ok_def origin_down_def and_then_Inr split: if_splits)
  qed
  then show ?thesis using assms Origin_Lost by (auto split: option.splits if_splits)
qed (use assms relay_ok_origin relay_ok_muxes relay_ok_public in \<open>auto simp: and_then_Inr split: option.splits\<close>)

interpretation relay_machine: partial_machine "relay_step want port" event_fd_ok "relay_ok want" for want port
  by unfold_locales (rule relay_ok_step)

lemma relay_ok_init: "relay_ok want relay_init"
  by (simp add: relay_ok_def relay_init_def registry_init_def owner_def registry_ok_def)



section \<open>What a pump carries\<close>

lemma stream_write_True:
  "stream_write i d m = Inr (True, m') \<Longrightarrow>
     mx_objs m' = mx_objs m \<and> mx_streams m' = mx_streams m \<and> mx_dead m' = mx_dead m \<and> mx_inbuf m' = mx_inbuf m"
proof (induction i d m rule: stream_write.induct)
  case (1 i d m)
  show ?case
  proof (cases "d = []")
    case True
    with "1.prems" show ?thesis by simp
  next
    case False
    with "1.prems" obtain m1 where f: "\<not> st_closed (mx_objs m ! i)"
      "send_frame False (data_frame (st_id (mx_objs m ! i)) (take kDataFrameCap d)) m = Inr (True, m1)"
      "stream_write i (drop kDataFrameCap d) m1 = Inr (True, m')"
      by (auto simp: stream_write.simps [of i d m] and_then_Inr split: if_splits)
    have "mx_objs m1 = mx_objs m \<and> mx_streams m1 = mx_streams m \<and> mx_dead m1 = mx_dead m \<and> mx_inbuf m1 = mx_inbuf m"
      using f(2) by (auto simp: send_frame_def Let_def split: prod.splits if_splits)
    with "1.IH" [OF False f(1) TrueI f(3)] show ?thesis by simp
  qed
qed

text \<open>A drain that ends without a failed send() has sent the whole buffer.\<close>

lemma drain_True:
  "drain i net m = (True, out, m') \<Longrightarrow> i < length (mx_objs m) \<Longrightarrow>
     out = st_buffer (mx_objs m ! i) \<and> m' = m\<lparr>mx_objs := (mx_objs m)[i := (mx_objs m ! i)\<lparr>st_buffer := []\<rparr>]\<rparr>"
proof (induction i net m arbitrary: out m' rule: drain.induct)
  case (1 i net m)
  let ?s = "mx_objs m ! i" and ?n = "min (32 * 1024) (length (st_buffer (mx_objs m ! i)))"
  show ?case
  proof (cases "st_buffer ?s = []")
    case True
    then have "?s\<lparr>st_buffer := []\<rparr> = ?s" by (cases ?s) simp
    then have "(mx_objs m)[i := ?s\<lparr>st_buffer := []\<rparr>] = mx_objs m" by (metis list_update_id)
    moreover have "drain i net m = (True, [], m)"
      by (cases "st_closed ?s") (simp_all add: drain.simps [of i net m] try_read_def True)
    ultimately show ?thesis using "1.prems"(1) True by simp
  next
    case False
    let ?m1 = "m\<lparr>mx_objs := (mx_objs m)[i := ?s\<lparr>st_buffer := drop ?n (st_buffer ?s)\<rparr>]\<rparr>"
    have t: "try_read i (32 * 1024) m = (int ?n, take ?n (st_buffer ?s), ?m1)"
      using False by (simp add: try_read_def Let_def)
    have n: "\<not> (int ?n \<le> 0 \<or> length (mx_objs m) \<le> i)" using False "1.prems"(2) by simp
    obtain ok sent net1 where l: "send_loop net (take ?n (st_buffer ?s)) = (ok, sent, net1)"
      by (cases "send_loop net (take ?n (st_buffer ?s))")
    have d: "drain i net m = (if \<not> ok then (False, sent, ?m1)
        else (case drain i net1 ?m1 of (ok2, sent2, m2) \<Rightarrow> (ok2, sent @ sent2, m2)))"
      unfolding drain.simps [of i net m] t prod.case if_not_P [OF n] l ..
    have ok: "ok" using "1.prems"(1) unfolding d by (cases ok) simp_all
    then have sent: "sent = take ?n (st_buffer ?s)" using send_loop_True l by simp
    obtain out2 where r: "drain i net1 ?m1 = (True, out2, m')" "out = sent @ out2"
      using "1.prems"(1) ok unfolding d by (auto split: prod.splits)
    have "out2 = st_buffer (mx_objs ?m1 ! i) \<and>
        m' = ?m1\<lparr>mx_objs := (mx_objs ?m1)[i := (mx_objs ?m1 ! i)\<lparr>st_buffer := []\<rparr>]\<rparr>"
      using "1.IH" [OF t [symmetric] refl n l [symmetric] refl _ r(1)] ok "1.prems"(2) by simp
    then show ?thesis using r(2) sent "1.prems"(2) by simp
  qed
qed

text \<open>The bytes of a round from either side.\<close>

definition chunk_bytes :: "pump_round list \<Rightarrow> byte list" where
  "chunk_bytes es = concat (map (\<lambda>e. concat (map (\<lambda>c. case c of None \<Rightarrow> [] | Some bs \<Rightarrow> bs) (pr_chunks e))) es)"

definition recv_bytes :: "pump_round list \<Rightarrow> byte list" where
  "recv_bytes es = concat (map (\<lambda>e. case pr_recv e of None \<Rightarrow> [] | Some bs \<Rightarrow> bs) es)"

definition stays_up :: "pump_round \<Rightarrow> bool" where
  "stays_up e \<longleftrightarrow> list_all (\<lambda>c. c \<noteq> None) (pr_chunks e)"

text \<open>A session whose stream i is open under an id, and what still has to be decoded of its bytes.\<close>

definition stream_open :: "u32 \<Rightarrow> nat \<Rightarrow> mux \<Rightarrow> bool" where
  "stream_open sid i m \<longleftrightarrow> \<not> mx_dead m \<and> map_of (mx_streams m) sid = Some i \<and> i < length (mx_objs m) \<and>
     st_id (mx_objs m ! i) = sid"

lemma deliver_one_open: "stream_open sid i (deliver i m f) = stream_open sid i m"
  by (cases "i < length (mx_objs m)") (simp_all add: stream_open_def deliver_def push_data_def)

lemma deliver_stream_open [simp]:
  "stream_open sid i (foldl (deliver i) m fs) = stream_open sid i m"
  by (induction fs arbitrary: m) (simp_all add: deliver_one_open)

lemma deliver_out [simp]: "mx_out (foldl (deliver i) m fs) = mx_out m"
  by (induction fs arbitrary: m) (simp_all add: deliver_def push_data_def)

lemma read_chunks_data:
  "stream_open sid i m \<Longrightarrow> list_all (\<lambda>c. c \<noteq> None) cs \<Longrightarrow> list_all (is_data sid) fs \<Longrightarrow>
   decode_all decode_frame (mx_inbuf m @ concat (map the cs) @ x) = (fs, []) \<Longrightarrow>
   decode_frame (mx_inbuf m) = Need \<Longrightarrow>
     \<exists>gs hs m'. read_chunks cs m = Inr m' \<and> stream_open sid i m' \<and> mx_out m' = mx_out m \<and> decode_frame (mx_inbuf m') = Need \<and>
       st_buffer (mx_objs m' ! i) = st_buffer (mx_objs m ! i) @ concat (map f_payload gs) \<and>
       fs = gs @ hs \<and> decode_all decode_frame (mx_inbuf m' @ x) = (hs, [])"
proof (induction cs arbitrary: m fs)
  case Nil
  then show ?case by (intro exI [of _ "[]"] exI [of _ fs] exI [of _ m]) simp
next
  case (Cons c cs)
  then obtain c' where c: "c = Some c'" by (cases c) simp_all
  have d: "decode_all decode_frame (mx_inbuf m @ c' @ (concat (map the cs) @ x)) = (fs, [])"
    using Cons.prems(4) c by simp
  have o: "\<not> mx_dead m" "map_of (mx_streams m) sid = Some i" "i < length (mx_objs m)"
    using Cons.prems(1) by (simp_all add: stream_open_def)
  obtain gs hs r where step: "read_step c m = Inr ((foldl (deliver i) m gs)\<lparr>mx_inbuf := r\<rparr>)"
    and need: "decode_frame r = Need" and split: "fs = gs @ hs" "decode_all decode_frame (r @ (concat (map the cs) @ x)) = (hs, [])"
    unfolding c by (rule read_step_data [OF o(1,2) Cons.prems(3) d])
  let ?m = "(foldl (deliver i) m gs)\<lparr>mx_inbuf := r\<rparr>"
  have so: "stream_open sid i ?m"
    using Cons.prems(1) deliver_stream_open [of sid i m gs] by (simp add: stream_open_def)
  have "list_all (is_data sid) hs" using Cons.prems(3) split(1) by simp
  from Cons.IH [OF so _ this] Cons.prems(2) split(2) need
  obtain gs2 hs2 m' where r: "read_chunks cs ?m = Inr m'" "stream_open sid i m'" "mx_out m' = mx_out ?m"
    "st_buffer (mx_objs m' ! i) = st_buffer (mx_objs ?m ! i) @ concat (map f_payload gs2)"
    "hs = gs2 @ hs2" "decode_all decode_frame (mx_inbuf m' @ x) = (hs2, [])" "decode_frame (mx_inbuf m') = Need"
    by auto
  then have "read_chunks (c # cs) m = Inr m' \<and> stream_open sid i m' \<and> mx_out m' = mx_out m \<and> decode_frame (mx_inbuf m') = Need \<and>
      st_buffer (mx_objs m' ! i) = st_buffer (mx_objs m ! i) @ concat (map f_payload (gs @ gs2)) \<and>
      fs = (gs @ gs2) @ hs2 \<and> decode_all decode_frame (mx_inbuf m' @ x) = (hs2, [])"
    using step split(1) deliver_buffer [OF o(3)] by simp
  then show ?case by blast
qed

lemma pump_body_carries:
  assumes "stream_open sid i m" "stays_up e" "list_all (is_data sid) fs" "decode_frame (mx_inbuf m) = Need"
    and "decode_all decode_frame (mx_inbuf m @ chunk_bytes [e] @ x) = (fs, [])" "pump_body i e m = Inr (True, out, m')"
  obtains gs hs ws where "stream_open sid i m'" "decode_frame (mx_inbuf m') = Need" "st_buffer (mx_objs m' ! i) = []"
    "out = st_buffer (mx_objs m ! i) @ concat (map f_payload gs)"
    "fs = gs @ hs" "decode_all decode_frame (mx_inbuf m' @ x) = (hs, [])"
    "mx_out m' = mx_out m @ concat (map encode_frame ws)" "list_all (is_data sid) ws" "concat (map f_payload ws) = recv_bytes [e]"
proof -
  have "map (\<lambda>c. case c of None \<Rightarrow> [] | Some bs \<Rightarrow> bs) (pr_chunks e) = map the (pr_chunks e)"
    using assms(2) by (auto simp: stays_up_def list_all_iff)
  then have "chunk_bytes [e] = concat (map the (pr_chunks e))"
    unfolding chunk_bytes_def by (simp only: list.map concat.simps append_Nil2)
  then have "decode_all decode_frame (mx_inbuf m @ concat (map the (pr_chunks e)) @ x) = (fs, [])"
    using assms(5) by simp
  from read_chunks_data [OF assms(1) _ assms(3) this assms(4)] assms(2)
  obtain gs hs m1 where c: "read_chunks (pr_chunks e) m = Inr m1" "stream_open sid i m1" "mx_out m1 = mx_out m"
    "decode_frame (mx_inbuf m1) = Need"
    "st_buffer (mx_objs m1 ! i) = st_buffer (mx_objs m ! i) @ concat (map f_payload gs)"
    "fs = gs @ hs" "decode_all decode_frame (mx_inbuf m1 @ x) = (hs, [])"
    by (auto simp: stays_up_def)
  obtain m2 ws where w: "mx_objs m2 = mx_objs m1 \<and> mx_streams m2 = mx_streams m1 \<and> mx_dead m2 = mx_dead m1 \<and> mx_inbuf m2 = mx_inbuf m1"
    "mx_out m2 = mx_out m1 @ concat (map encode_frame ws)" "list_all (is_data sid) ws"
    "concat (map f_payload ws) = recv_bytes [e]" and d: "drain i (pr_sends e) m2 = (True, out, m')"
  proof (cases "pr_recv e")
    case None
    then show thesis
      using assms(6) c(1) by (intro that [of m1 "[]"]) (auto simp: pump_body_def recv_bytes_def split: if_splits)
  next
    case (Some bs)
    then obtain m2 where s: "stream_write i bs m1 = Inr (True, m2)" "drain i (pr_sends e) m2 = (True, out, m')"
      using assms(6) c(1) by (auto simp: pump_body_def and_then_Inr split: if_splits)
    note k = stream_write_True [OF s(1)]
    show thesis
      by (rule that [OF k _ _ _ s(2), of "data_frames sid bs"])
        (use stream_write_out [OF s(1)] c(2) Some in
          \<open>simp_all add: stream_open_def data_frames_are data_frames_payloads recv_bytes_def\<close>)
  qed
  have l: "i < length (mx_objs m2)" using c(2) w(1) by (simp add: stream_open_def)
  note dr = drain_True [OF d l]
  show thesis
    by (rule that [of gs hs ws]) (use dr l w c in \<open>simp_all add: stream_open_def\<close>)
qed

text \<open>A pump that is still in its loop has gone through all rounds.\<close>

inductive carried :: "nat \<Rightarrow> pump_round list \<Rightarrow> mux \<Rightarrow> byte list \<Rightarrow> mux \<Rightarrow> bool" for i :: nat where
  carried_Nil: "carried i [] m [] m"
| carried_Cons: "pump_body i e m = Inr (True, out, m1) \<Longrightarrow> carried i es m1 out2 m2 \<Longrightarrow> carried i (e # es) m (out @ out2) m2"

lemma relay_pump_carried: "relay_pump i es m = Inr (False, out, m') \<Longrightarrow> carried i es m out m'"
  by (induction i es m arbitrary: out m' rule: relay_pump.induct)
    (fastforce simp: and_then_Inr intro: carried.intros split: if_splits prod.splits)+

lemma bridge_pump_carried: "bridge_pump i es m = Inr (False, out, m') \<Longrightarrow> carried i es m out m'"
  by (induction i es m arbitrary: out m' rule: bridge_pump.induct)
    (fastforce simp: and_then_Inr intro: carried.intros split: if_splits prod.splits)+

lemma carried_bytes:
  "carried i es m out m' \<Longrightarrow> stream_open sid i m \<Longrightarrow> list_all stays_up es \<Longrightarrow> list_all (is_data sid) fs \<Longrightarrow>
   decode_frame (mx_inbuf m) = Need \<Longrightarrow> decode_all decode_frame (mx_inbuf m @ chunk_bytes es) = (fs, []) \<Longrightarrow>
     out @ st_buffer (mx_objs m' ! i) = st_buffer (mx_objs m ! i) @ concat (map f_payload fs) \<and>
     (es \<noteq> [] \<longrightarrow> st_buffer (mx_objs m' ! i) = []) \<and>
     (\<exists>ws. mx_out m' = mx_out m @ concat (map encode_frame ws) \<and> list_all (is_data sid) ws \<and>
        concat (map f_payload ws) = recv_bytes es)"
proof (induction arbitrary: fs rule: carried.induct)
  case (carried_Nil m)
  then have "fs = []" by (simp add: chunk_bytes_def decode_all.simps [of decode_frame "mx_inbuf m"])
  then show ?case by (simp add: recv_bytes_def exI [of _ "[]"])
next
  case (carried_Cons e m out m1 es out2 m2)
  have d: "decode_all decode_frame (mx_inbuf m @ chunk_bytes [e] @ chunk_bytes es) = (fs, [])"
    using carried_Cons.prems(5) by (simp add: chunk_bytes_def)
  have up: "stays_up e" "list_all stays_up es" using carried_Cons.prems(2) by simp_all
  obtain gs hs ws where b: "stream_open sid i m1" "decode_frame (mx_inbuf m1) = Need" "st_buffer (mx_objs m1 ! i) = []"
    "out = st_buffer (mx_objs m ! i) @ concat (map f_payload gs)"
    "fs = gs @ hs" "decode_all decode_frame (mx_inbuf m1 @ chunk_bytes es) = (hs, [])"
    "mx_out m1 = mx_out m @ concat (map encode_frame ws)" "list_all (is_data sid) ws" "concat (map f_payload ws) = recv_bytes [e]"
    by (rule pump_body_carries [OF carried_Cons.prems(1) up(1) carried_Cons.prems(3,4) d carried_Cons.hyps(1)])
  have "list_all (is_data sid) hs" using carried_Cons.prems(3) b(5) by simp
  from carried_Cons.IH [OF b(1) up(2) this b(2,6)]
  obtain ws2 where r: "out2 @ st_buffer (mx_objs m2 ! i) = concat (map f_payload hs)"
    "mx_out m2 = mx_out m1 @ concat (map encode_frame ws2)" "list_all (is_data sid) ws2"
    "concat (map f_payload ws2) = recv_bytes es" "es \<noteq> [] \<longrightarrow> st_buffer (mx_objs m2 ! i) = []"
    using b(3) by auto
  have last: "st_buffer (mx_objs m2 ! i) = []"
    using r(5) b(3) carried_Cons.hyps(2) by (cases "es = []") (auto elim: carried.cases)
  have "mx_out m2 = mx_out m @ concat (map encode_frame (ws @ ws2)) \<and> list_all (is_data sid) (ws @ ws2) \<and>
      concat (map f_payload (ws @ ws2)) = recv_bytes (e # es)"
    using b(7-9) r(2-4) by (simp add: recv_bytes_def)
  moreover have "(out @ out2) @ st_buffer (mx_objs m2 ! i) = st_buffer (mx_objs m ! i) @ concat (map f_payload fs)"
    using r(1) b(4,5) by simp
  ultimately show ?case using last by blast
qed

text \<open>The contract of the two pumps: one that is still in its loop has gone through its rounds.\<close>

locale pump =
  fixes loop :: "nat \<Rightarrow> pump_round list \<Rightarrow> mux \<Rightarrow> (bool \<times> byte list \<times> mux) or_ub"
  assumes running: "loop i es m = Inr (False, out, m') \<Longrightarrow> carried i es m out m'"
begin

lemma carries:
  assumes "loop i es m = Inr (False, out, m')" "stream_open sid i m" "list_all stays_up es" "list_all (is_data sid) fs"
    and "decode_frame (mx_inbuf m) = Need" "decode_all decode_frame (mx_inbuf m @ chunk_bytes es) = (fs, [])"
  shows "out @ st_buffer (mx_objs m' ! i) = st_buffer (mx_objs m ! i) @ concat (map f_payload fs)"
    and "es \<noteq> [] \<Longrightarrow> st_buffer (mx_objs m' ! i) = []"
    and "\<exists>ws. mx_out m' = mx_out m @ concat (map encode_frame ws) \<and> list_all (is_data sid) ws \<and>
       concat (map f_payload ws) = recv_bytes es"
  using carried_bytes [OF running [OF assms(1)] assms(2-6)] by blast+

end

interpretation at_relay: pump relay_pump
  by unfold_locales (rule relay_pump_carried)

interpretation at_client: pump bridge_pump
  by unfold_locales (rule bridge_pump_carried)

text \<open>
  C35. A pump that has not ended, of the relay or of the client, has carried every byte both ways, once and
  in order: what the peer's data frames bring goes to the socket, and what the socket gives goes out as
  data frames of the stream. Chunks may split the frames anywhere.
\<close>

theorem pump_carries_both_ways:
  assumes "stream_open sid i m" "list_all stays_up es" "list_all (is_data sid) fs" "decode_frame (mx_inbuf m) = Need"
    and "decode_all decode_frame (mx_inbuf m @ chunk_bytes es) = (fs, [])"
    and "relay_pump i es m = Inr (False, out, m') \<or> bridge_pump i es m = Inr (False, out, m')"
  shows "out @ st_buffer (mx_objs m' ! i) = st_buffer (mx_objs m ! i) @ concat (map f_payload fs) \<and>
    (es \<noteq> [] \<longrightarrow> st_buffer (mx_objs m' ! i) = []) \<and>
    (\<exists>ws. mx_out m' = mx_out m @ concat (map encode_frame ws) \<and> list_all (is_data sid) ws \<and>
       concat (map f_payload ws) = recv_bytes es)"
  using assms(6) at_relay.carries [OF _ assms(1-5)] at_client.carries [OF _ assms(1-5)] by blast

definition demo_round :: "byte list option list \<Rightarrow> pump_round" where
  "demo_round cs = \<lparr>pr_stop = False, pr_chunks = cs, pr_recv = None, pr_hup = False, pr_sends = [10, 10]\<rparr>"

lemma demo_read:
  "read_step (Some (encode_frame (data_frame 1 [7, 8]))) (one_stream []) = Inr (push_data 0 [7, 8] (one_stream []))"
proof -
  let ?f = "data_frame 1 [7, 8]"
  have d: "decode_frame (encode_frame ?f @ []) = Got ?f []"
    by (rule decode_encode_frame) (simp add: frame_valid_def data_frame_def)
  have h: "handle_frame ?f (one_stream []) = Inr (push_data 0 [7, 8] (one_stream []))" "f_type ?f \<noteq> kTypeGoAway"
    by (simp_all add: handle_frame_def data_frame_def kTypeData_def kTypeGoAway_def one_stream_def)
  have "frames_loop (encode_frame ?f) (one_stream []) = Inr ([], push_data 0 [7, 8] (one_stream []))"
    using d h by (simp add: frames_loop.simps [of "encode_frame ?f"] frames_loop.simps [of "[]"] decode_frame_Nil)
  then show ?thesis
    by (simp add: read_step_def one_stream_def mux_init_def push_data_def)
qed
lemma demo_pump:
  "bridge_pump 0 [demo_round [Some (encode_frame (data_frame 1 [7, 8]))]] (one_stream []) = Inr (False, [7, 8], one_stream [])"
proof -
  have "try_read 0 (32 * 1024) (push_data 0 [7, 8] (one_stream [])) = (2, [7, 8], one_stream [])"
    "try_read 0 (32 * 1024) (one_stream []) = (- 1, [], one_stream [])"
    by (simp_all add: try_read_def push_data_def one_stream_def mux_init_def)
  moreover have "mx_objs (push_data 0 [7, 8] (one_stream [])) \<noteq> []" "\<not> st_closed (mx_objs (one_stream []) ! 0)"
    by (simp_all add: push_data_def one_stream_def mux_init_def)
  ultimately show ?thesis
    by (simp add: demo_round_def pump_body_def demo_read drain.simps [of 0 "[10, 10]"] drain.simps [of 0 "[10]"])
qed

theorem pump_carries_both_ways_witness:
  "bridge_pump 0 [demo_round [Some (encode_frame (data_frame 1 [7, 8]))]] (one_stream []) = Inr (False, [7, 8], one_stream []) \<and>
   [7, 8] @ st_buffer (mx_objs (one_stream []) ! 0) = st_buffer (mx_objs (one_stream []) ! 0) @ [7, 8]"
proof -
  let ?es = "[demo_round [Some (encode_frame (data_frame 1 [7, 8]))]]" and ?fs = "[data_frame 1 [7, 8]]"
  have "stream_open 1 0 (one_stream [])" by (simp add: stream_open_def one_stream_def mux_init_def)
  moreover have "list_all stays_up ?es" by (simp add: stays_up_def demo_round_def)
  moreover have data: "list_all (is_data 1) ?fs"
    by (simp add: is_data_def data_frame_def kDataFrameCap_def)
  moreover have "decode_frame (mx_inbuf (one_stream [])) = Need"
    by (simp add: one_stream_def mux_init_def decode_frame_Nil)
  moreover have "decode_all decode_frame (mx_inbuf (one_stream []) @ chunk_bytes ?es) = (?fs, [])"
    using yamux.decode_all_encoded [of ?fs] data is_data_valid [of 1 "data_frame 1 [7, 8]"]
    by (simp add: one_stream_def mux_init_def chunk_bytes_def demo_round_def)
  moreover note demo_pump
  ultimately show ?thesis
    using pump_carries_both_ways [of 1 0 "one_stream []" ?es ?fs "[7, 8]" "one_stream []"]
    by (simp add: data_frame_def)
qed

text \<open>
  C36. From the public socket to the local service: what the relay's pump has received for a stream is, once the
  client's session has read what the relay's session sent, what the client's pump has sent to the local
  service, however the connection cuts it into chunks and whatever flows back meanwhile.
\<close>

theorem tunnel_end_to_end:
  assumes "stream_open sid i mr" "list_all stays_up er" "list_all (is_data sid) rets" "decode_frame (mx_inbuf mr) = Need"
    and "decode_all decode_frame (mx_inbuf mr @ chunk_bytes er) = (rets, [])" "mx_out mr = []"
    and "relay_pump i er mr = Inr (False, outr, mr')"
    and "stream_open sid j mc" "list_all stays_up ec" "mx_inbuf mc = []" "st_buffer (mx_objs mc ! j) = []" "ec \<noteq> []"
    and "chunk_bytes ec = mx_out mr'" "bridge_pump j ec mc = Inr (False, outc, mc')"
  shows "outc = recv_bytes er"
proof -
  obtain ws where ws: "mx_out mr' = concat (map encode_frame ws)" "list_all (is_data sid) ws"
    "concat (map f_payload ws) = recv_bytes er"
    using at_relay.carries(3) [OF assms(7,1-5)] assms(6) by auto
  have "list_all frame_valid ws" using ws(2) is_data_valid by (auto simp: list_all_iff)
  then have d: "decode_all decode_frame (mx_inbuf mc @ chunk_bytes ec) = (ws, [])"
    using yamux.decode_all_encoded [of ws] assms(10,13) ws(1) by simp
  have n: "decode_frame (mx_inbuf mc) = Need" using assms(10) decode_frame_Nil by simp
  show ?thesis
    using at_client.carries(1,2) [OF assms(14,8,9) ws(2) n d] assms(11,12) ws(3) by simp
qed

definition public_round :: pump_round where
  "public_round = \<lparr>pr_stop = False, pr_chunks = [], pr_recv = Some [7, 8], pr_hup = False, pr_sends = []\<rparr>"

theorem tunnel_end_to_end_witness:
  "\<exists>mr'. relay_pump 0 [public_round] (one_stream [100]) = Inr (False, [], mr') \<and>
     bridge_pump 0 [demo_round [Some (mx_out mr')]] (one_stream []) = Inr (False, [7, 8], one_stream []) \<and>
     [7, 8] = recv_bytes [public_round]"
proof -
  obtain mr' where w: "stream_write 0 [7, 8] (one_stream [100]) = Inr (True, mr')"
    by (simp add: stream_write.simps [of 0 "[7, 8]"] one_stream_def mux_init_def send_frame_def data_frame_def
        encode_frame_def put_u16_def put_u32_def kDataFrameCap_def Let_def)
  have o: "mx_objs mr' = [\<lparr>st_id = 1, st_buffer = [], st_closed = False\<rparr>]"
    using stream_write_True [OF w] by (simp add: one_stream_def)
  have "data_frames 1 [7, 8] = [data_frame 1 [7, 8]]" by (simp add: data_frames.simps kDataFrameCap_def)
  then have out: "mx_out mr' = encode_frame (data_frame 1 [7, 8])"
    using stream_write_out [OF w] by (simp add: one_stream_def mux_init_def)
  have r: "relay_pump 0 [public_round] (one_stream [100]) = Inr (False, [], mr')"
    by (simp add: public_round_def pump_body_def w drain.simps try_read_def o)
  have up: "stream_open 1 0 (one_stream net)" for net by (simp add: stream_open_def one_stream_def mux_init_def)
  have "[7, 8] = recv_bytes [public_round]"
    by (rule tunnel_end_to_end [where rets = "[]", OF up _ _ _ _ _ r up _ _ _ _ _ demo_pump])
      (simp_all add: stays_up_def public_round_def demo_round_def one_stream_def mux_init_def decode_frame_Nil chunk_bytes_def
        decode_all.simps [of decode_frame "[]"] out)
  with r demo_pump out show ?thesis by metis
qed

lemma send_loop_enough:
  "length bs \<le> length net \<Longrightarrow> list_all (\<lambda>n. 0 < n) net \<Longrightarrow>
     \<exists>net'. send_loop net bs = (True, bs, net') \<and> length net \<le> length net' + length bs \<and> list_all (\<lambda>n. 0 < n) net'"
proof (induction net bs rule: send_loop.induct)
  case (3 n net b bs)
  then have n: "\<not> n \<le> 0" by simp
  have "length (drop (nat n) (b # bs)) \<le> length net" using 3 n by simp
  from "3.IH" [OF n this] "3.prems"(2)
  obtain net' where r: "send_loop net (drop (nat n) (b # bs)) = (True, drop (nat n) (b # bs), net')"
    "length net \<le> length net' + length (drop (nat n) (b # bs))" "list_all (\<lambda>n. 0 < n) net'"
    by auto
  have "length (n # net) \<le> length net' + length (b # bs)" using r(2) n by simp
  then show ?case using r(1,3) n append_take_drop_id [of "nat n" "b # bs"] by auto
qed simp_all

text \<open>Enough results of send() for the buffer: the drain sends it all.\<close>

lemma drain_enough:
  "i < length (mx_objs m) \<Longrightarrow> length (st_buffer (mx_objs m ! i)) \<le> length net \<Longrightarrow> list_all (\<lambda>n. 0 < n) net \<Longrightarrow>
     fst (drain i net m)"
proof (induction i net m rule: drain.induct)
  case (1 i net m)
  let ?s = "mx_objs m ! i" and ?n = "min (32 * 1024) (length (st_buffer (mx_objs m ! i)))"
  show ?case
  proof (cases "st_buffer ?s = []")
    case True
    then show ?thesis by (cases "st_closed ?s") (simp_all add: drain.simps [of i net m] try_read_def)
  next
    case False
    let ?m1 = "m\<lparr>mx_objs := (mx_objs m)[i := ?s\<lparr>st_buffer := drop ?n (st_buffer ?s)\<rparr>]\<rparr>"
    have t: "try_read i (32 * 1024) m = (int ?n, take ?n (st_buffer ?s), ?m1)"
      using False by (simp add: try_read_def Let_def)
    have n: "\<not> (int ?n \<le> 0 \<or> length (mx_objs m) \<le> i)" using False "1.prems"(1) by simp
    have "length (take ?n (st_buffer ?s)) \<le> length net" using "1.prems"(2) by simp
    from send_loop_enough [OF this "1.prems"(3)]
    obtain net1 where l: "send_loop net (take ?n (st_buffer ?s)) = (True, take ?n (st_buffer ?s), net1)"
      "length net \<le> length net1 + length (take ?n (st_buffer ?s))" "list_all (\<lambda>n. 0 < n) net1"
      by blast
    have "fst (drain i net1 ?m1)"
      by (rule "1.IH" [OF t [symmetric] refl n l(1) [symmetric] refl]) (use "1.prems" l in \<open>simp_all\<close>)
    then show ?thesis
      unfolding drain.simps [of i net m] t prod.case if_not_P [OF n] l(1) by (cases "drain i net1 ?m1") simp
  qed
qed


definition closed_tail :: mux where
  "closed_tail = (mux_init True [])\<lparr>mx_objs := [\<lparr>st_id = 1, st_buffer = [7, 8], st_closed = True\<rparr>], mx_streams := [(1, 0)]\<rparr>"


section \<open>The end of a session\<close>

lemma send_frame_joined: "send_frame held f m = Inr (ok, m') \<Longrightarrow> mx_joined m' = mx_joined m"
  by (auto simp: send_frame_def Let_def split: prod.splits if_splits)

lemma stream_close_joined: "stream_close held i m = Inr m' \<Longrightarrow> mx_joined m' = mx_joined m"
  by (auto simp: stream_close_def Let_def and_then_Inr split: if_splits dest: send_frame_joined)

lemma handle_frame_joined: "handle_frame f m = Inr m' \<Longrightarrow> mx_joined m' = mx_joined m"
  by (auto simp: handle_frame_def Let_def and_then_Inr push_data_def add_stream_def
      split: if_splits option.splits dest!: send_frame_joined stream_close_joined)

lemma frames_loop_joined: "frames_loop b m = Inr (b', m') \<Longrightarrow> mx_joined m' = mx_joined m"
proof (induction b m arbitrary: b' m' rule: frames_loop.induct)
  case (1 b m)
  show ?case
  proof (cases "decode_frame b")
    case (Got f r)
    with "1.prems" obtain m1 where h: "handle_frame f m = Inr m1"
      and l: "(if f_type f = kTypeGoAway then Inr (b, m1) else frames_loop r m1) = Inr (b', m')"
      by (auto simp: frames_loop.simps [of b m] and_then_Inr)
    show ?thesis
    proof (cases "f_type f = kTypeGoAway")
      case True
      with l handle_frame_joined [OF h] show ?thesis by simp
    next
      case False
      with l have "frames_loop r m1 = Inr (b', m')" by simp
      from "1.IH" [OF Got False this] handle_frame_joined [OF h] show ?thesis by simp
    qed
  qed (use "1.prems" in \<open>auto simp: frames_loop.simps [of b m]\<close>)
qed

lemma read_step_joined: "read_step c m = Inr m' \<Longrightarrow> mx_joined m' = mx_joined m"
  by (auto simp: read_step_def and_then_Inr Let_def split: if_splits option.splits dest!: frames_loop_joined)

lemma accept_poll_joined:
  assumes "accept_poll m = (a, m')"
  shows "mx_joined m' = mx_joined m \<and> (a = Refused \<longrightarrow> mx_dead m')"
  using assms by (auto simp: accept_poll_def split: if_splits option.splits)

lemma accept_loop_dead:
  "accept_loop inside es m = Inr (is, True, m') \<Longrightarrow> list_all (\<lambda>e. \<not> fst e) es \<Longrightarrow> \<not> mx_joined m \<Longrightarrow>
     mx_dead m' \<and> \<not> mx_joined m'"
proof (induction inside es m arbitrary: "is" rule: accept_loop.induct)
  case (2 inside stop c es m)
  obtain a m1 where p: "accept_poll m = (a, m1)" by (cases "accept_poll m")
  note j = accept_poll_joined [OF p]
  show ?case
  proof (cases "\<not> inside \<and> (mx_dead m \<or> stop)")
    case True
    with 2 show ?thesis by auto
  next
    case False
    show ?thesis
    proof (cases a)
      case Refused
      with 2 False p j show ?thesis by auto
    next
      case (Accepted i)
      with "2.prems"(1) False p obtain m2 is2 where r: "read_step c m1 = Inr m2" "accept_loop False es m2 = Inr (is2, True, m')"
        by (auto simp: and_then_Inr)
      show ?thesis
        by (rule "2.IH"(2) [OF False p [symmetric] Accepted r(2)])
          (use "2.prems" read_step_joined [OF r(1)] j in simp_all)
    next
      case Waiting
      with "2.prems"(1) False p obtain m2 where r: "read_step c m1 = Inr m2" "accept_loop True es m2 = Inr (is, True, m')"
        by (auto simp: and_then_Inr)
      show ?thesis
        by (rule "2.IH"(1) [OF False p [symmetric] Waiting r(2)])
          (use "2.prems" read_step_joined [OF r(1)] j in simp_all)
    qed
  qed
qed simp

lemma mux_init_not_joined: "\<not> mx_joined (mux_init client net)"
  by (simp add: mux_init_def)

lemma lost_session_terminates:
  assumes "mx_dead m" "\<not> mx_joined m"
  shows "mux_destroy m = Inl Terminates"
  using assms by (simp add: mux_destroy_def mux_close_def)

lemma session_turn:
  assumes "attempt_turn r a = Inr (ls, t)" "0 \<le> tcp_connect (at_addrs a)"
    and "send_all_plain (at_sends a) (hello_line (tunnel_options.truncate r))"
    and "read_ctl_line [] (at_reply a) = Some (reply, rest)" "starts_with ''OK'' reply"
  obtains "is" ended m where
    "accept_loop False ((if rest = [] then [] else [(False, Some (bytes_of rest))]) @ at_events a) (mux_init True (at_net a)) =
       Inr (is, ended, m)"
    "ended \<longrightarrow> (\<exists>m1. mux_destroy m = Inr m1)"
    "ls = ErrLine (''tunnel: registered '' @ [squote] @ to_hostname r @ [squote] @ '' at relay '' @ tr_relay_host r) #
       (if ended \<and> \<not> stop_seen a then [ErrLine ''tunnel: connection lost; reconnecting in 3s''] else [])"
  using assms by (auto simp: attempt_turn_def Let_def and_then_Inr split: if_splits)

lemma turn_never_reconnects:
  assumes "attempt_turn r a = Inr (ls, t)"
  shows "ErrLine ''tunnel: connection lost; reconnecting in 3s'' \<notin> set ls"
proof (cases "0 \<le> tcp_connect (at_addrs a) \<and> send_all_plain (at_sends a) (hello_line (tunnel_options.truncate r))")
  case True
  then have c: "0 \<le> tcp_connect (at_addrs a)" and w: "send_all_plain (at_sends a) (hello_line (tunnel_options.truncate r))"
    by simp_all
  show ?thesis
  proof (cases "case read_ctl_line [] (at_reply a) of None \<Rightarrow> False | Some (reply, rest) \<Rightarrow> starts_with ''OK'' reply")
    case ok: True
    then obtain reply rest where o: "read_ctl_line [] (at_reply a) = Some (reply, rest)" "starts_with ''OK'' reply"
      by (auto split: option.splits)
    obtain "is" ended m where l:
      "accept_loop False ((if rest = [] then [] else [(False, Some (bytes_of rest))]) @ at_events a) (mux_init True (at_net a)) =
         Inr (is, ended, m)"
      and d: "ended \<longrightarrow> (\<exists>m1. mux_destroy m = Inr m1)"
      and ls: "ls = ErrLine (''tunnel: registered '' @ [squote] @ to_hostname r @ [squote] @ '' at relay '' @ tr_relay_host r) #
       (if ended \<and> \<not> stop_seen a then [ErrLine ''tunnel: connection lost; reconnecting in 3s''] else [])"
      by (rule session_turn [OF assms c w o])
    have "\<not> (ended \<and> \<not> stop_seen a)"
    proof
      assume e: "ended \<and> \<not> stop_seen a"
      then have es: "list_all (\<lambda>e. \<not> fst e) ((if rest = [] then [] else [(False, Some (bytes_of rest))]) @ at_events a)"
        by (auto simp: stop_seen_def list_all_iff list_ex_iff)
      have "mx_dead m \<and> \<not> mx_joined m"
        by (rule accept_loop_dead [OF _ es mux_init_not_joined]) (use l e in simp)
      with d e lost_session_terminates show False by auto
    qed
    then show ?thesis unfolding ls by simp
  next
    case False
    then show ?thesis
      using assms True by (auto simp: attempt_turn_def Let_def split: option.splits)
  qed
next
  case False
  then show ?thesis
    using assms by (auto simp: attempt_turn_def split: if_splits)
qed

text \<open>
  C38. tunnel_run() never reconnects: whatever the relay and the network do, the line about a lost connection
  is never printed, because destroying the session of a connection that was lost ends the process.
\<close>

theorem tunnel_never_reconnects:
  assumes "tunnel_run r as = Inr (ls, secs, code)"
  shows "ErrLine ''tunnel: connection lost; reconnecting in 3s'' \<notin> set ls"
  using assms
proof (induction as arbitrary: ls secs code)
  case (Cons a as)
  obtain ls1 t where a: "attempt_turn r a = Inr (ls1, t)"
    using Cons.prems by (auto simp: and_then_Inr)
  note one = turn_never_reconnects [OF a]
  show ?case
  proof (cases t)
    case In_Session
    then show ?thesis using Cons.prems a one by simp
  next
    case (Turn_Over n)
    show ?thesis
    proof (cases "stop_seen a")
      case True
      then show ?thesis using Cons.prems a one Turn_Over by simp
    next
      case False
      then obtain ls2 secs2 where "tunnel_run r as = Inr (ls2, secs2, code)" "ls = ls1 @ ls2"
        using Cons.prems a Turn_Over by (auto simp: and_then_Inr)
      then show ?thesis using Cons.IH one by auto
    qed
  qed
qed simp

definition demo_request :: tunnel_request where
  "demo_request = \<lparr>to_token = ''t'', to_hostname = ''a.b'', to_local_host = ''127.0.0.1'', to_local_port = 80,
     to_port_set = False, tr_relay_host = ''r'', tr_relay_port = 443\<rparr>"

definition demo_attempt :: "(int \<times> bool) list option \<Rightarrow> attempt" where
  "demo_attempt addrs = \<lparr>at_addrs = addrs, at_sends = replicate 20 100, at_reply = ''ERR bad-token'' @ [nl],
     at_net = [], at_events = [], at_stop = False\<rparr>"

theorem tunnel_never_reconnects_witness:
  "\<exists>ls. tunnel_run demo_request [demo_attempt None, demo_attempt (Some [(3, True)])] = Inr (ls, 15, Some 0) \<and>
     length ls = 2 \<and> ErrLine ''tunnel: connection lost; reconnecting in 3s'' \<notin> set ls"
proof -
  have "case tunnel_run demo_request [demo_attempt None, demo_attempt (Some [(3, True)])] of
      Inl u \<Rightarrow> False | Inr (ls, secs, code) \<Rightarrow> secs = 15 \<and> code = Some 0 \<and> length ls = 2"
    by code_simp
  then obtain ls where "tunnel_run demo_request [demo_attempt None, demo_attempt (Some [(3, True)])] = Inr (ls, 15, Some 0)"
    "length ls = 2"
    by (auto split: sum.splits)
  with tunnel_never_reconnects show ?thesis by blast
qed

text \<open>
  C39. SIGINT does not end a tunnel without traffic: accept_stream() does not look at the flag, so the loop waits
  for the next stream, however long the signal has been there.
\<close>

theorem idle_tunnel_ignores_stop:
  assumes "\<not> mx_dead m" "mx_pending m = None" "decode_frame (mx_inbuf m) = Need" "length (mx_inbuf m) \<le> kInbufCap"
    and "list_all (\<lambda>e. snd e = Some []) es"
  shows "accept_loop True es m = Inr ([], False, m)"
  using assms(5)
proof (induction es)
  case (Cons e es)
  have "read_step (Some []) m = Inr m"
    using assms(1,3,4) by (simp add: read_step_def frames_loop.simps [of "mx_inbuf m" m] Let_def)
  then show ?case
    using Cons assms(1,2) by (cases e) (simp add: accept_poll_def)
qed simp

theorem idle_tunnel_ignores_stop_witness:
  "accept_loop True (replicate 1000 (True, Some [])) (mux_init True []) = Inr ([], False, mux_init True [])"
  by (rule idle_tunnel_ignores_stop) (simp_all add: mux_init_def decode_frame_Nil list_all_iff)

end
