(* ===== verification/Subprocess.thy ===== *)
theory Subprocess
  imports Manager
begin

text \<open>
  services/cli.cpp: cli::run(), which the container manager goes through. The descriptors it opens and
  closes, the reading of the two pipes, the exit code, and the child with the pipes as a step relation:
  the parent reads standard output to its end before it reads standard error.

  pipe(), posix_spawnp(), read() and waitpid() are arguments: the descriptors and results they give.
\<close>

unbundle bit_operations_syntax

section \<open>Reading and waiting\<close>

datatype read_result = Bytes string | Eof | Interrupted | Read_Error

text \<open>drain(): None while it waits for more.\<close>

fun drain_fd :: "read_result list \<Rightarrow> string option" where
  "drain_fd [] = None"
| "drain_fd (Bytes s # rs) = map_option (\<lambda>t. s @ t) (drain_fd rs)"
| "drain_fd (Eof # rs) = Some []"
| "drain_fd (Interrupted # rs) = drain_fd rs"
| "drain_fd (Read_Error # rs) = Some []"

datatype wait_result = Status u32 | Wait_Interrupted | Wait_Error

text \<open>A waitpid() that fails otherwise leaves the status at 0.\<close>

fun wait_status :: "wait_result list \<Rightarrow> u32 option" where
  "wait_status [] = None"
| "wait_status (Status st # ws) = Some st"
| "wait_status (Wait_Interrupted # ws) = wait_status ws"
| "wait_status (Wait_Error # ws) = Some 0"

text \<open>WIFEXITED and WEXITSTATUS, WIFSIGNALED and WTERMSIG.\<close>

definition exit_code_of :: "u32 \<Rightarrow> int" where
  "exit_code_of st =
     (if st AND 0x7F = 0 then uint (drop_bit 8 st AND 0xFF)
      else if st AND 0x7F \<noteq> 0x7F then 128 + uint (st AND 0x7F)
      else - 1)"

section \<open>Starting\<close>

text \<open>Reading and writing end of a pipe where pipe() succeeds, and the pid where the program starts.\<close>

record spawn_env =
  sp_out_pipe :: "(nat \<times> nat) option"
  sp_err_pipe :: "(nat \<times> nat) option"
  sp_pid :: "int option"
  sp_out_reads :: "read_result list"
  sp_err_reads :: "read_result list"
  sp_waits :: "wait_result list"

definition spawn_with_capture :: "spawn_env \<Rightarrow> string list \<Rightarrow> nat set \<Rightarrow> (int \<times> nat \<times> nat) option \<times> nat set" where
  "spawn_with_capture env argv fds =
     (if argv = [] \<or> hd argv = [] then (None, fds)
      else case sp_out_pipe env of
        None \<Rightarrow> (None, fds)
      | Some (r1, w1) \<Rightarrow>
          let fds1 = insert r1 (insert w1 fds)
          in case sp_err_pipe env of
               None \<Rightarrow> (None, fds1 - {r1} - {w1})
             | Some (r2, w2) \<Rightarrow>
                 let fds2 = insert r2 (insert w2 fds1) - {w1} - {w2}
                 in case sp_pid env of
                      None \<Rightarrow> (None, fds2 - {r1} - {r2})
                    | Some pid \<Rightarrow> (Some (pid, r1, r2), fds2))"

text \<open>None while one of the pipes or the child is waited for.\<close>

definition run_captured :: "spawn_env \<Rightarrow> string list \<Rightarrow> nat set \<Rightarrow> (cli_result \<times> nat set) option" where
  "run_captured env argv fds =
     (case spawn_with_capture env argv fds of
        (None, fds1) \<Rightarrow> Some (\<lparr>exit_code = - 1, stdout_text = [], stderr_text = []\<rparr>, fds1)
      | (Some (pid, out_fd, err_fd), fds1) \<Rightarrow>
          (case drain_fd (sp_out_reads env) of
             None \<Rightarrow> None
           | Some out \<Rightarrow>
               (case drain_fd (sp_err_reads env) of
                  None \<Rightarrow> None
                | Some err \<Rightarrow>
                    (case wait_status (sp_waits env) of
                       None \<Rightarrow> None
                     | Some st \<Rightarrow> Some (\<lparr>exit_code = exit_code_of st, stdout_text = out, stderr_text = err\<rparr>,
                                       fds1 - {out_fd} - {err_fd})))))"

section \<open>The child and the pipes\<close>

text \<open>What the child does in turn; when it has done it all it exits. A write to a full pipe waits.\<close>

datatype child_act = Out char | Err char | Close_Out | Close_Err

datatype phase = Draining_Out | Draining_Err | Drained

record capture =
  cp_acts :: "child_act list"
  cp_out_open :: bool
  cp_err_open :: bool
  cp_out_pipe :: string
  cp_err_pipe :: string
  cp_phase :: phase
  cp_out :: string
  cp_err :: string

definition capture_start :: "child_act list \<Rightarrow> capture" where
  "capture_start as = \<lparr>cp_acts = as, cp_out_open = True, cp_err_open = True, cp_out_pipe = [], cp_err_pipe = [],
     cp_phase = Draining_Out, cp_out = [], cp_err = []\<rparr>"

inductive capture_step :: "nat \<Rightarrow> capture \<Rightarrow> capture \<Rightarrow> bool" for K :: nat where
  write_out: "cp_acts s = Out c # as \<Longrightarrow> cp_out_open s \<Longrightarrow> length (cp_out_pipe s) < K \<Longrightarrow>
    capture_step K s (s\<lparr>cp_acts := as, cp_out_pipe := cp_out_pipe s @ [c]\<rparr>)"
| fail_out: "cp_acts s = Out c # as \<Longrightarrow> \<not> cp_out_open s \<Longrightarrow> capture_step K s (s\<lparr>cp_acts := as\<rparr>)"
| write_err: "cp_acts s = Err c # as \<Longrightarrow> cp_err_open s \<Longrightarrow> length (cp_err_pipe s) < K \<Longrightarrow>
    capture_step K s (s\<lparr>cp_acts := as, cp_err_pipe := cp_err_pipe s @ [c]\<rparr>)"
| fail_err: "cp_acts s = Err c # as \<Longrightarrow> \<not> cp_err_open s \<Longrightarrow> capture_step K s (s\<lparr>cp_acts := as\<rparr>)"
| close_out: "cp_acts s = Close_Out # as \<Longrightarrow> capture_step K s (s\<lparr>cp_acts := as, cp_out_open := False\<rparr>)"
| close_err: "cp_acts s = Close_Err # as \<Longrightarrow> capture_step K s (s\<lparr>cp_acts := as, cp_err_open := False\<rparr>)"
| exit_child: "cp_acts s = [] \<Longrightarrow> cp_out_open s \<or> cp_err_open s \<Longrightarrow>
    capture_step K s (s\<lparr>cp_out_open := False, cp_err_open := False\<rparr>)"
| read_out: "cp_phase s = Draining_Out \<Longrightarrow> 0 < n \<Longrightarrow> n \<le> min 4096 (length (cp_out_pipe s)) \<Longrightarrow>
    capture_step K s (s\<lparr>cp_out := cp_out s @ take n (cp_out_pipe s), cp_out_pipe := drop n (cp_out_pipe s)\<rparr>)"
| eof_out: "cp_phase s = Draining_Out \<Longrightarrow> cp_out_pipe s = [] \<Longrightarrow> \<not> cp_out_open s \<Longrightarrow>
    capture_step K s (s\<lparr>cp_phase := Draining_Err\<rparr>)"
| read_err: "cp_phase s = Draining_Err \<Longrightarrow> 0 < n \<Longrightarrow> n \<le> min 4096 (length (cp_err_pipe s)) \<Longrightarrow>
    capture_step K s (s\<lparr>cp_err := cp_err s @ take n (cp_err_pipe s), cp_err_pipe := drop n (cp_err_pipe s)\<rparr>)"
| eof_err: "cp_phase s = Draining_Err \<Longrightarrow> cp_err_pipe s = [] \<Longrightarrow> \<not> cp_err_open s \<Longrightarrow>
    capture_step K s (s\<lparr>cp_phase := Drained\<rparr>)"

text \<open>What a child writes to either stream, and what it writes to standard error with both still open.\<close>

fun out_text :: "child_act list \<Rightarrow> string" where
  "out_text [] = []"
| "out_text (Out c # as) = c # out_text as"
| "out_text (Close_Out # as) = []"
| "out_text (_ # as) = out_text as"

fun err_text :: "child_act list \<Rightarrow> string" where
  "err_text [] = []"
| "err_text (Err c # as) = c # err_text as"
| "err_text (Close_Err # as) = []"
| "err_text (_ # as) = err_text as"

fun early_errs :: "child_act list \<Rightarrow> nat" where
  "early_errs [] = 0"
| "early_errs (Err c # as) = Suc (early_errs as)"
| "early_errs (Out c # as) = early_errs as"
| "early_errs (Close_Out # as) = 0"
| "early_errs (Close_Err # as) = 0"

definition capture_ok :: "nat \<Rightarrow> child_act list \<Rightarrow> capture \<Rightarrow> bool" where
  "capture_ok K as s \<longleftrightarrow>
     cp_out s @ cp_out_pipe s @ (if cp_out_open s then out_text (cp_acts s) else []) = out_text as \<and>
     cp_err s @ cp_err_pipe s @ (if cp_err_open s then err_text (cp_acts s) else []) = err_text as \<and>
     length (cp_err_pipe s) \<le> K \<and>
     (cp_phase s \<noteq> Draining_Out \<longrightarrow> \<not> cp_out_open s \<and> cp_out_pipe s = []) \<and>
     (cp_phase s = Drained \<longrightarrow> \<not> cp_err_open s \<and> cp_err_pipe s = []) \<and>
     (cp_out_open s \<and> cp_err_open s \<longrightarrow> length (cp_err_pipe s) + early_errs (cp_acts s) = early_errs as) \<and>
     (\<not> (cp_out_open s \<and> cp_err_open s) \<longrightarrow> early_errs as \<le> K)"

lemma capture_ok_start: "capture_ok K as (capture_start as)"
  by (simp add: capture_ok_def capture_start_def)

lemma take_drop_more: "take n xs @ drop n xs @ ys = xs @ ys"
  by (simp only: append_assoc [symmetric] append_take_drop_id)

lemma capture_ok_step: "capture_step K s s' \<Longrightarrow> capture_ok K as s \<Longrightarrow> capture_ok K as s'"
  by (induction rule: capture_step.induct) (auto simp: capture_ok_def take_drop_more split: if_splits)

lemma capture_ok_run: "(capture_step K)\<^sup>*\<^sup>* s s' \<Longrightarrow> capture_ok K as s \<Longrightarrow> capture_ok K as s'"
  by (induction rule: rtranclp_induct) (auto dest: capture_ok_step)

text \<open>While the parent is not done and standard error fits into its pipe, something can happen, ...\<close>

lemma child_progress:
  assumes "cp_out_open s \<or> cp_err_open s"
    and "\<And>c rest. cp_acts s = Out c # rest \<Longrightarrow> cp_out_open s \<Longrightarrow> length (cp_out_pipe s) < K"
    and "\<And>c rest. cp_acts s = Err c # rest \<Longrightarrow> cp_err_open s \<Longrightarrow> length (cp_err_pipe s) < K"
  shows "\<exists>s'. capture_step K s s'"
proof (cases "cp_acts s")
  case Nil
  with assms(1) show ?thesis by (blast intro: exit_child)
next
  case (Cons a rest)
  then show ?thesis
    using assms(2,3) by (cases a) (blast intro: capture_step.intros)+
qed

lemma some_read: "xs \<noteq> [] \<Longrightarrow> \<exists>n. 0 < n \<and> n \<le> min 4096 (length xs)"
  by (intro exI [of _ 1]) (cases xs, auto)

lemma capture_progress:
  assumes "capture_ok K as s" "early_errs as \<le> K" "0 < K" "cp_phase s \<noteq> Drained"
  shows "\<exists>s'. capture_step K s s'"
proof -
  consider "cp_phase s = Draining_Out" "cp_out_pipe s \<noteq> []" | "cp_phase s = Draining_Err" "cp_err_pipe s \<noteq> []"
    | "cp_phase s = Draining_Out" "cp_out_pipe s = []" "\<not> cp_out_open s"
    | "cp_phase s = Draining_Err" "cp_err_pipe s = []" "\<not> cp_err_open s"
    | "cp_phase s = Draining_Out" "cp_out_pipe s = []" "cp_out_open s"
    | "cp_phase s = Draining_Err" "cp_err_pipe s = []" "cp_err_open s"
    using assms(4) by (cases "cp_phase s") auto
  then show ?thesis
  proof cases
    case 1
    with some_read [OF 1(2)] show ?thesis by (blast intro: read_out)
  next
    case 2
    with some_read [OF 2(2)] show ?thesis by (blast intro: read_err)
  next
    case 3
    then show ?thesis by (blast intro: eof_out)
  next
    case 4
    then show ?thesis by (blast intro: eof_err)
  next
    case 5
    show ?thesis
    proof (rule child_progress)
      fix c rest
      assume "cp_acts s = Err c # rest" "cp_err_open s"
      then have "Suc (length (cp_err_pipe s)) + early_errs rest = early_errs as"
        using assms(1) 5(3) by (simp add: capture_ok_def)
      then show "length (cp_err_pipe s) < K" using assms(2) by simp
    qed (use 5 assms(3) in simp_all)
  next
    case 6
    have "\<not> cp_out_open s" using assms(1) 6(1) by (simp add: capture_ok_def)
    then show ?thesis using 6 assms(3) by (intro child_progress) simp_all
  qed
qed

text \<open>... and every step brings the end nearer.\<close>

definition capture_left :: "capture \<Rightarrow> nat" where
  "capture_left s = 2 * length (cp_acts s) + length (cp_out_pipe s) + length (cp_err_pipe s) +
     of_bool (cp_out_open s) + of_bool (cp_err_open s) +
     (case cp_phase s of Draining_Out \<Rightarrow> 2 | Draining_Err \<Rightarrow> 1 | Drained \<Rightarrow> 0)"

lemma capture_step_decreases: "capture_step K s s' \<Longrightarrow> capture_left s' < capture_left s"
  by (induction rule: capture_step.induct) (auto simp: capture_left_def)

lemma capture_reaches_end:
  "capture_ok K as s \<Longrightarrow> early_errs as \<le> K \<Longrightarrow> 0 < K \<Longrightarrow> \<exists>s'. (capture_step K)\<^sup>*\<^sup>* s s' \<and> cp_phase s' = Drained"
proof (induction "capture_left s" arbitrary: s rule: less_induct)
  case less
  show ?case
  proof (cases "cp_phase s = Drained")
    case False
    then obtain s1 where s1: "capture_step K s s1" using capture_progress less.prems by blast
    obtain s2 where "(capture_step K)\<^sup>*\<^sup>* s1 s2" "cp_phase s2 = Drained"
      using less.hyps [OF capture_step_decreases [OF s1]] capture_ok_step [OF s1] less.prems by blast
    with s1 show ?thesis by (meson converse_rtranclp_into_rtranclp)
  qed auto
qed

section \<open>Properties\<close>

text \<open>
  C19. cli::run() gets to the end of both streams exactly when the child does not fill the pipe of standard
  error before it has closed a stream: otherwise the child waits for a reader and the parent for the end of
  standard output, for ever. Where it does not, no run gets stuck, and what was captured is what was written.
\<close>

theorem capture_outcome:
  assumes "0 < K"
  shows "((\<exists>s. (capture_step K)\<^sup>*\<^sup>* (capture_start as) s \<and> cp_phase s = Drained) \<longleftrightarrow> early_errs as \<le> K) \<and>
    (\<forall>s. (capture_step K)\<^sup>*\<^sup>* (capture_start as) s \<longrightarrow>
       (cp_phase s = Drained \<longrightarrow> cp_out s = out_text as \<and> cp_err s = err_text as) \<and>
       (early_errs as \<le> K \<and> cp_phase s \<noteq> Drained \<longrightarrow> (\<exists>s'. capture_step K s s')))"
proof -
  have ok: "capture_ok K as s" if "(capture_step K)\<^sup>*\<^sup>* (capture_start as) s" for s
    using capture_ok_run [OF that capture_ok_start] .
  have "early_errs as \<le> K" if "(capture_step K)\<^sup>*\<^sup>* (capture_start as) s" "cp_phase s = Drained" for s
    using ok [OF that(1)] that(2) by (auto simp: capture_ok_def)
  moreover have "cp_out s = out_text as \<and> cp_err s = err_text as"
    if "(capture_step K)\<^sup>*\<^sup>* (capture_start as) s" "cp_phase s = Drained" for s
    using ok [OF that(1)] that(2) by (auto simp: capture_ok_def)
  ultimately show ?thesis
    using capture_reaches_end [OF capture_ok_start] capture_progress [OF ok] assms by blast
qed

theorem capture_outcome_witness:
  "\<not> (\<exists>s. (capture_step 65536)\<^sup>*\<^sup>* (capture_start (replicate 65537 (Err CHR ''e''))) s \<and> cp_phase s = Drained) \<and>
   (\<exists>s. (capture_step 65536)\<^sup>*\<^sup>* (capture_start (Out CHR ''o'' # replicate 65536 (Err CHR ''e''))) s \<and> cp_phase s = Drained)"
proof -
  have "early_errs (replicate n (Err c)) = n" for n c by (induction n) simp_all
  then show ?thesis
    using capture_outcome [of 65536 "replicate 65537 (Err CHR ''e'')"]
      capture_outcome [of 65536 "Out CHR ''o'' # replicate 65536 (Err CHR ''e'')"] by simp
qed

lemma low_bits: "uint (x AND 0xFF) < 256" "uint (x AND 0x7F) < 128" for x :: u32
proof -
  have "x AND 0xFF = take_bit 8 x" "x AND 0x7F = take_bit 7 x"
    by (simp_all add: take_bit_eq_mask mask_eq_exp_minus_1)
  then show "uint (x AND 0xFF) < 256" "uint (x AND 0x7F) < 128"
    using take_bit_int_less_exp [of 8 "uint x"] take_bit_int_less_exp [of 7 "uint x"]
    by (simp_all add: unsigned_take_bit_eq)
qed

lemma exit_code_range: "- 1 \<le> exit_code_of st \<and> exit_code_of st < 256"
  using low_bits [of "drop_bit 8 st"] low_bits [of st] by (simp add: exit_code_of_def order_trans [OF _ uint_ge_0])

text \<open>
  C20. A run leaves the open descriptors as they were on every path, a pipe or a start that fails included, and
  its exit code is -1 or that of a process or of a signal.
\<close>

theorem run_leaks_nothing:
  assumes "run_captured env argv fds = Some (r, fds')"
    and "\<And>a b. sp_out_pipe env = Some (a, b) \<Longrightarrow> a \<notin> fds \<and> b \<notin> fds"
    and "\<And>a b. sp_err_pipe env = Some (a, b) \<Longrightarrow> a \<notin> fds \<and> b \<notin> fds"
  shows "fds' = fds \<and> - 1 \<le> exit_code r \<and> exit_code r < 256"
proof -
  have "fds' = fds"
    using assms
    by (auto simp: run_captured_def spawn_with_capture_def Let_def split: if_splits option.splits prod.splits)
  moreover have "- 1 \<le> exit_code r \<and> exit_code r < 256"
    using assms(1) exit_code_range by (auto simp: run_captured_def split: option.splits prod.splits)
  ultimately show ?thesis by simp
qed

theorem run_leaks_nothing_witness:
  "run_captured \<lparr>sp_out_pipe = Some (3, 4), sp_err_pipe = Some (5, 6), sp_pid = Some 77, sp_out_reads = [Bytes ''ok'', Eof],
       sp_err_reads = [Interrupted, Eof], sp_waits = [Status 0x100]\<rparr> [''container'', ''ls''] {0, 1, 2} =
     Some (\<lparr>exit_code = 1, stdout_text = ''ok'', stderr_text = []\<rparr>, {0, 1, 2}) \<and> exit_code_of 0x100 < 256"
proof -
  let ?env = "\<lparr>sp_out_pipe = Some (3, 4), sp_err_pipe = Some (5, 6), sp_pid = Some 77, sp_out_reads = [Bytes ''ok'', Eof],
       sp_err_reads = [Interrupted, Eof], sp_waits = [Status 0x100]\<rparr>"
  have e: "exit_code_of 0x100 = 1" by code_simp
  have "run_captured ?env [''container'', ''ls''] {0, 1, 2} =
     Some (\<lparr>exit_code = 1, stdout_text = ''ok'', stderr_text = []\<rparr>,
       insert 5 (insert 6 (insert 3 (insert 4 {0, 1, 2}))) - {4} - {6} - {3} - {5})"
    by (simp add: run_captured_def spawn_with_capture_def Let_def e)
  moreover from run_leaks_nothing [OF this] have
    "insert 5 (insert 6 (insert 3 (insert 4 {0, 1, 2}))) - {4} - {6} - {3} - {5} = {0, 1, 2 :: nat}"
    by simp
  ultimately show ?thesis by (simp add: e)
qed

end
