(* ===== verification/Listeners.thy ===== *)
theory Listeners
  imports Exposure
begin

text \<open>
  proxy_serve() of proxy/proxy.cpp: the two listeners, the reloading thread, the accept loop with the
  connections it hands to serve_plain() and serve_tls(), and the end. What select(), accept() and the
  handshake give is a list of events.
\<close>

definition make_listener :: "(u16 \<Rightarrow> int \<times> bool \<times> bool) \<Rightarrow> int \<Rightarrow> int" where
  "make_listener os port =
     (case os (word_of_int port) of
        (fd, bound, listening) \<Rightarrow> if fd < 0 then - 1 else if \<not> bound \<or> \<not> listening then - 1 else fd)"

record proxy_state =
  ps_tables :: proxy_tables
  ps_cache :: "string \<rightharpoonup> string \<times> string"
  ps_http :: int
  ps_https :: int

definition listening_line :: "proxy_options \<Rightarrow> int \<Rightarrow> int \<Rightarrow> cli_line" where
  "listening_line opts http_fd https_fd =
     OutLine (''hostely proxy listening'' @
       (if 0 \<le> http_fd then '' http=:'' @ string_of_int (po_http opts) else []) @
       (if 0 \<le> https_fd then '' https=:'' @ string_of_int (po_https opts) else []) @ ''  (ctrl-c to stop)'')"

text \<open>Up to the accept loop: the lines, and the exit code or the state the loop starts with.\<close>

definition proxy_start ::
  "('j, 'm) json_build_scheme \<Rightarrow> ('j \<Rightarrow> (string \<times> 'j) list) \<Rightarrow> (u16 \<Rightarrow> int \<times> bool \<times> bool) \<Rightarrow> (u16 \<Rightarrow> int \<times> bool \<times> bool) \<Rightarrow>
   proxy_options \<Rightarrow> string option \<times> string option \<Rightarrow> cli_line list \<times> (int + proxy_state)" where
  "proxy_start J entries os1 os2 opts e =
     (let t = reload J entries no_tables e;
          http_fd = (if 0 < po_http opts then make_listener os1 (po_http opts) else - 1);
          https_fd = (if 0 < po_https opts then make_listener os2 (po_https opts) else - 1)
      in if http_fd < 0 \<and> https_fd < 0
         then ([ErrLine ''proxy: cannot bind listeners (are ports 80/443 in use?)''], Inl 1)
         else ([listening_line opts http_fd https_fd],
               Inr \<lparr>ps_tables = t, ps_cache = Map.empty, ps_http = http_fd, ps_https = https_fd\<rparr>))"

text \<open>
  A reload; a connection to the plain listener with its bytes; one to the TLS listener with the name its
  handshake carries, the certificate files at that time, whether the client goes on, and its pieces.
\<close>

datatype proxy_event =
    Reload "string option" "string option"
  | Plain_Conn string
  | Tls_Conn "string option" files bool "string list"

text \<open>A step: the new state and what is written back, None where the connection is closed without an answer.\<close>

fun proxy_step ::
  "('j, 'm) json_build_scheme \<Rightarrow> ('j \<Rightarrow> (string \<times> 'j) list) \<Rightarrow> upstream \<Rightarrow> (int \<Rightarrow> string) \<Rightarrow> path \<Rightarrow> proxy_state \<Rightarrow> proxy_event \<Rightarrow>
   (proxy_state \<times> string option) or_ub" where
  "proxy_step J entries U reason root s (Reload routes nets) =
     Inr (s\<lparr>ps_tables := reload J entries (ps_tables s) (routes, nets)\<rparr>, None)"
| "proxy_step J entries U reason root s (Plain_Conn input) =
     (if ps_http s < 0 then Inr (s, None)
      else and_then (serve_plain U reason (ps_tables s) input) (\<lambda>r. Inr (s, r)))"
| "proxy_step J entries U reason root s (Tls_Conn name fs goes_on chunks) =
     (if ps_https s < 0 then Inr (s, None)
      else (case sni_callback root fs name (ps_cache s) of
              (cache, res) \<Rightarrow>
                let s1 = s\<lparr>ps_cache := cache\<rparr>
                in if \<not> goes_on \<or> (case res of Ok ctx \<Rightarrow> False | _ \<Rightarrow> True) then Inr (s1, None)
                   else and_then (serve_tls U reason (ps_tables s) chunks) (\<lambda>r. Inr (s1, r))))"

fun proxy_run ::
  "('j, 'm) json_build_scheme \<Rightarrow> ('j \<Rightarrow> (string \<times> 'j) list) \<Rightarrow> upstream \<Rightarrow> (int \<Rightarrow> string) \<Rightarrow> path \<Rightarrow> proxy_state \<Rightarrow> proxy_event list \<Rightarrow>
   (proxy_state \<times> string list) or_ub" where
  "proxy_run J entries U reason root s [] = Inr (s, [])"
| "proxy_run J entries U reason root s (e # es) =
     and_then (proxy_step J entries U reason root s e) (\<lambda>(s1, r).
     and_then (proxy_run J entries U reason root s1 es) (\<lambda>(s2, rs).
       Inr (s2, (case r of None \<Rightarrow> rs | Some a \<Rightarrow> a # rs))))"

text \<open>The whole command up to the signal that ends it.\<close>

definition proxy_serve ::
  "('j, 'm) json_build_scheme \<Rightarrow> ('j \<Rightarrow> (string \<times> 'j) list) \<Rightarrow> (u16 \<Rightarrow> int \<times> bool \<times> bool) \<Rightarrow> (u16 \<Rightarrow> int \<times> bool \<times> bool) \<Rightarrow>
   upstream \<Rightarrow> (int \<Rightarrow> string) \<Rightarrow> path \<Rightarrow> proxy_options \<Rightarrow> string option \<times> string option \<Rightarrow> proxy_event list \<Rightarrow>
   (cli_line list \<times> string list \<times> int) or_ub" where
  "proxy_serve J entries os1 os2 U reason root opts e es =
     (case proxy_start J entries os1 os2 opts e of
        (ls, Inl code) \<Rightarrow> Inr (ls, [], code)
      | (ls, Inr s) \<Rightarrow>
          and_then (proxy_run J entries U reason root s es) (\<lambda>(s1, rs).
            Inr (ls @ [OutLine ''hostely proxy stopped''], rs, 0)))"

section \<open>What a run answers\<close>

definition gateway_error :: "(int \<Rightarrow> string) \<Rightarrow> string \<Rightarrow> bool" where
  "gateway_error reason a \<longleftrightarrow> (\<exists>r. a = response_text reason r \<and> (rs_status r = 404 \<or> rs_status r = 502))"

lemma serve_unreached:
  assumes "px_nets t = Map.empty"
  shows "serve_plain U reason t input = Inr (Some a) \<Longrightarrow> gateway_error reason a"
    and "serve_tls U reason t chunks = Inr (Some a) \<Longrightarrow> gateway_error reason a"
  using route_request_unreached [OF assms]
  by (auto simp: serve_plain_def serve_tls_def gateway_error_def split: sum.splits option.splits if_splits) metis+

lemma proxy_step_unreached:
  assumes "value_laws J" "px_nets (ps_tables s) = Map.empty" "proxy_step J entries U reason root s e = Inr (s1, r)"
  shows "px_nets (ps_tables s1) = Map.empty \<and> (\<forall>a. r = Some a \<longrightarrow> gateway_error reason a)"
proof (cases e)
  case (Reload routes nets)
  then show ?thesis using assms by (auto simp: reload_def refresh_empty)
next
  case (Plain_Conn input)
  then show ?thesis using assms(2,3) serve_unreached(1) [OF assms(2)] by (auto simp: and_then_Inr split: if_splits)
next
  case (Tls_Conn name fs goes_on chunks)
  then show ?thesis
    using assms(2,3) serve_unreached(2) [OF assms(2)] by (auto simp: and_then_Inr Let_def split: if_splits prod.splits)
qed

lemma proxy_run_unreached:
  "value_laws J \<Longrightarrow> px_nets (ps_tables s) = Map.empty \<Longrightarrow> proxy_run J entries U reason root s es = Inr (s1, rs) \<Longrightarrow>
     list_all (gateway_error reason) rs"
proof (induction es arbitrary: s rs)
  case (Cons e es)
  obtain s2 r where e: "proxy_step J entries U reason root s e = Inr (s2, r)"
    using Cons.prems(3) by (auto simp: and_then_Inr)
  then obtain rs2 where r: "proxy_run J entries U reason root s2 es = Inr (s1, rs2)"
    "rs = (case r of None \<Rightarrow> rs2 | Some a \<Rightarrow> a # rs2)"
    using Cons.prems(3) by (auto simp: and_then_Inr)
  show ?case
    using proxy_step_unreached [OF Cons.prems(1,2) e] Cons.IH [OF Cons.prems(1) _ r(1)] r(2) by (cases r) auto
qed simp

text \<open>
  C40. hostely proxy answers nothing but 404 and 502 as long as it runs: over every run of reloads and plain and
  TLS connections, whatever the files, the container tool and the upstream servers hold.
\<close>

theorem proxy_serves_no_container:
  assumes "value_laws J" "proxy_serve J entries os1 os2 U reason root opts e es = Inr (ls, rs, code)" "a \<in> set rs"
  shows "\<exists>r. a = response_text reason r \<and> (rs_status r = 404 \<or> rs_status r = 502)"
proof -
  obtain s s1 where s: "proxy_start J entries os1 os2 opts e = (fst (proxy_start J entries os1 os2 opts e), Inr s)"
    and r: "proxy_run J entries U reason root s es = Inr (s1, rs)"
    using assms(2,3) by (auto simp: proxy_serve_def and_then_Inr split: prod.splits sum.splits)
  have "ps_tables s = reload J entries no_tables e"
    using s by (auto simp: proxy_start_def Let_def split: if_splits)
  then have "px_nets (ps_tables s) = Map.empty"
    using assms(1) by (simp add: reload_def no_tables_def refresh_empty)
  from proxy_run_unreached [OF assms(1) this r] assms(3) show ?thesis
    by (auto simp: list_all_iff gateway_error_def)
qed

theorem proxy_serves_no_container_witness:
  "\<exists>ls rs. proxy_serve tree_json (\<lambda>_. []) (\<lambda>p. (3, True, True)) (\<lambda>p. (4, False, False)) (\<lambda>_ _ _. Some (text_response 200 ''hello'')) (\<lambda>_. [])
       [''certs''] \<lparr>po_http = 80, po_https = 443\<rparr> web_reload [Plain_Conn web_request] = Inr (ls, rs, 0) \<and> length rs = 1 \<and>
     (\<forall>a \<in> set rs. \<exists>r. a = response_text (\<lambda>_. []) r \<and> (rs_status r = 404 \<or> rs_status r = 502))"
proof -
  let ?U = "\<lambda>_ _ _. Some (text_response 200 ''hello'')" and ?t = "reload tree_json (\<lambda>_. []) no_tables web_reload"
  have p: "parse_plain web_request = Inr (Some (\<lparr>rq_method = ''GET'', rq_path = ''/'',
      rq_headers = [(''Host'', ''A.b:80'')], rq_body = []\<rparr>, ''a.b''))"
    by code_simp
  obtain a where a: "serve_plain ?U (\<lambda>_. []) ?t web_request = Inr (Some a)" by (simp add: serve_plain_def p)
  obtain ls rs where r: "proxy_serve tree_json (\<lambda>_. []) (\<lambda>p. (3, True, True)) (\<lambda>p. (4, False, False)) ?U (\<lambda>_. [])
       [''certs''] \<lparr>po_http = 80, po_https = 443\<rparr> web_reload [Plain_Conn web_request] = Inr (ls, rs, 0)" "length rs = 1"
    by (simp add: proxy_serve_def proxy_start_def make_listener_def Let_def a)
  from proxy_serves_no_container [OF tree_value_laws r(1)] r show ?thesis by blast
qed

end
