(* ===== verification/Keys.thy ===== *)
theory Keys
  imports Exposure
begin

text \<open>
  Where the exposure meets OpenSSL: reading a file, the inspection of a certificate in certs.cpp and the
  file of the account key in acme.cpp. The parsers, generators and printers of OpenSSL are arguments.
\<close>

section \<open>Certificates\<close>

text \<open>What OpenSSL tells of a certificate: the common name, the issuer on one line, and the days and seconds from
  the epoch to both ends of the validity.\<close>

record x509 =
  xc_common_name :: "string option"
  xc_issuer :: string
  xc_not_before :: "(int \<times> int) option"
  xc_not_after :: "(int \<times> int) option"

text \<open>A text copied into a buffer of 256 characters.\<close>

definition in_buffer :: "string \<Rightarrow> string" where
  "in_buffer s = c_str (take 255 s)"

definition epoch_seconds :: "(int \<times> int) option \<Rightarrow> int" where
  "epoch_seconds d = (case d of None \<Rightarrow> 0 | Some (days, secs) \<Rightarrow> days * 86400 + secs)"

definition cert_inspect_pem :: "(string \<Rightarrow> x509 option) \<Rightarrow> string \<Rightarrow> cert_info option" where
  "cert_inspect_pem parse cert_pem =
     (case parse cert_pem of
        None \<Rightarrow> None
      | Some x \<Rightarrow>
          Some \<lparr>ci_domain = (case xc_common_name x of None \<Rightarrow> [] | Some cn \<Rightarrow> in_buffer cn), ci_issuer = in_buffer (xc_issuer x),
                ci_not_after = epoch_seconds (xc_not_after x), ci_not_before = epoch_seconds (xc_not_before x), ci_source = []\<rparr>)"

section \<open>The account key\<close>

definition b64url_str :: "string \<Rightarrow> string" where
  "b64url_str s = b64url s"

text \<open>OpenSSL on keys: reading one from a PEM text, making one, and printing one.\<close>

record 'k key_library =
  kl_read :: "string \<Rightarrow> 'k option"
  kl_generate :: "'k option"
  kl_print :: "'k \<Rightarrow> string"

text \<open>The file: whether it can be opened for reading and for writing.\<close>

record key_file =
  kf_readable :: bool
  kf_writable :: bool

text \<open>The key, the file afterwards, and what is printed. A file that is there and gives no key is written over.\<close>

definition load_or_create_account_key ::
  "'k key_library \<Rightarrow> key_file \<Rightarrow> string option \<Rightarrow> 'k option \<times> string option \<times> cli_line list" where
  "load_or_create_account_key L f content =
     (case (case content of None \<Rightarrow> None | Some s \<Rightarrow> if kf_readable f then kl_read L s else None) of
        Some k \<Rightarrow> (Some k, content, [])
      | None \<Rightarrow>
          let ls = (if content = None then [] else [ErrLine ''acme: cannot read account key, regenerating''])
          in (case kl_generate L of
                None \<Rightarrow> (None, content, ls)
              | Some k \<Rightarrow> (Some k, if kf_writable f then Some (kl_print L k) else content, ls)))"

text \<open>The path and the name of the order's account key, from one run to the next.\<close>

fun key_runs :: "'k key_library \<Rightarrow> key_file list \<Rightarrow> string option \<Rightarrow> 'k option list" where
  "key_runs L [] content = []"
| "key_runs L (f # fs) content =
     (case load_or_create_account_key L f content of (k, content1, ls) \<Rightarrow> k # key_runs L fs content1)"

lemma key_runs_same:
  "kl_read L s = Some k \<Longrightarrow> list_all kf_readable fs \<Longrightarrow> set (key_runs L fs (Some s)) \<subseteq> {Some k}"
  by (induction fs) (simp_all add: load_or_create_account_key_def)

text \<open>
  While the file of the account key can be read and written, every later run uses the key of the first one, whatever
  the library would generate: the account is kept.
\<close>

theorem account_key_kept:
  assumes "\<And>k. kl_read L (kl_print L k) = Some k" "kl_generate L \<noteq> None"
    and "list_all (\<lambda>f. kf_readable f \<and> kf_writable f) fs" "k \<in> set (key_runs L fs content)"
  shows "k = hd (key_runs L fs content) \<and> k \<noteq> None"
proof (cases fs)
  case (Cons f rest)
  have rest: "list_all kf_readable rest" and f: "kf_readable f" "kf_writable f"
    using assms(3) Cons by (auto simp: list_all_iff)
  obtain k1 s ls where l: "load_or_create_account_key L f content = (Some k1, Some s, ls)" "kl_read L s = Some k1"
  proof (cases "case content of None \<Rightarrow> None | Some s \<Rightarrow> kl_read L s")
    case None
    obtain k2 where "kl_generate L = Some k2" using assms(2) by blast
    then show thesis
      using None f assms(1) that [of k2 "kl_print L k2"]
      by (cases content) (simp_all add: load_or_create_account_key_def Let_def split: option.splits)
  next
    case (Some k2)
    then show thesis
      using f by (cases content) (auto simp: load_or_create_account_key_def intro: that)
  qed
  then show ?thesis
    using assms(4) key_runs_same [OF l(2) rest] Cons by auto
qed (use assms(4) in simp)

text \<open>A library of keys that are their own text.\<close>

definition text_keys :: "string key_library" where
  "text_keys = \<lparr>kl_read = Some, kl_generate = Some ''new'', kl_print = (\<lambda>k. k)\<rparr>"

theorem account_key_kept_witness:
  "key_runs text_keys [\<lparr>kf_readable = True, kf_writable = True\<rparr>, \<lparr>kf_readable = True, kf_writable = True\<rparr>] None =
     [Some ''new'', Some ''new''] \<and> (\<exists>k. Some ''new'' = k \<and> k \<noteq> None)"
proof -
  let ?fs = "[\<lparr>kf_readable = True, kf_writable = True\<rparr>, \<lparr>kf_readable = True, kf_writable = True\<rparr>]"
  have r: "key_runs text_keys ?fs None = [Some ''new'', Some ''new'']"
    by (simp add: text_keys_def load_or_create_account_key_def)
  have "kl_generate text_keys \<noteq> None" "\<And>k. kl_read text_keys (kl_print text_keys k) = Some k"
    by (simp_all add: text_keys_def)
  from account_key_kept [OF this(2,1), of ?fs "Some ''new''" None] r show ?thesis by simp
qed

end
