(* ===== verification/Spec2Isabelle.thy ===== *)
theory Spec2Isabelle
  imports Chat Relay Apps Args Resources Logger Exposure Models Settings Top Dispatch System Tunnel Subprocess Listeners Keys
begin

text \<open>
  hostely (C++, src/src) runs containers and language models on a Mac and exposes them. Its parts:

  An inference server (inference/) keeps conversations in sequences of one key/value cache and answers the
  OpenAI and Anthropic protocols; models/ finds and downloads its models and tells whether one fits the
  memory that resources/ reports. apps/ reads compose files and drives the container command line tool through
  services/. exposure/ and proxy/ give apps a public name: DNS records, certificates, router port mappings, a
  route table and a reverse proxy; tunnel/ is the other way out, a client and a public relay with a multiplexed
  session between them. top/ is a dashboard over the containers. cli/, config/, log/ and main.cpp are the
  command line. The parts share files below the state directory (configuration, routes, certificates, app
  states, the lock of the server) and otherwise call one another as functions.

  CONVENTIONS. A record has the fields of its struct, a datatype the constructors of its enum or the ways a
  function ends. An operation is a function of the same name that takes and returns the state it changes. What
  the sources call but do not contain (llama.cpp, nlohmann::json, the TOML library, OpenSSL, the HTTP library,
  the kernel, remote servers) is an argument, and what the code relies on is a named predicate of that argument
  (llama_ok, json_ok, toml_ok, value_laws) with an instance that satisfies it (tree_json, plain_toml and the
  demo instances of the witnesses). A sum type holds an exception (or_throw) or undefined behaviour, a deadlock
  or the end of the process (or_ub) on the left. Integers whose width matters are words; double is the rationals
  rounded to 53 bits. Strings are lists of characters, bytes for the frame formats. Threads appear as the
  interleaving of their steps: a list of events or of rounds, each with what the calls of the kernel gave.

  THEORIES, in the order they build on each other.

  Prelude: string operations of the standard library, byte order, keyed lists, incremental decoding, and the
  interfaces framing, machine (and partial_machine, for steps that may fail) and keyed_table, which Yamux, Sessions,
  Chat, Relay, Proxy, Routes and Tunnel interpret on the model's operations.
  Json: the JSON library as a record of accesses with its laws.

  Inference. Sessions (session.cpp): the allocator of sequence ids and the table of conversations; a granted id is
  in no other session, the least recently used session is evicted, the longest matching prefix is found.
  Completion (server.cpp, complete_stream): one completion over an abstract context; the cache of every session
  holds the tokens the table says, on every path, failures included. Chat (server.cpp): the conversion of both
  protocols, stop sequences, the handlers and their event streams. Serving (server.cpp): loading, routes,
  start() and stop() with the lock file; Settings (paths.cpp, config.cpp, lockfile.cpp): the files below it.

  Models and memory. Models (registry.cpp, pull.cpp), Resources (limits.cpp, fit.cpp, human_bytes), System
  (system.cpp, the Metal probe and run_serve() as a whole), Logger (logger.cpp).

  Containers. Subprocess (services/cli.cpp): the child and its two pipes as a step relation. Manager
  (manager.cpp): every command of the tool. Compose (compose.cpp): the reader, interpolation and services; Apps
  (app.cpp): the state file, the order of services, their translation, and app up, stop, ps, logs and rm.

  Exposure. Dns, Router, Routes, Certs, Acme, Keys, Proxy, Listeners (exposure/, proxy/) and Exposure
  (cli/exposure_cli.cpp).

  Tunnel. Yamux (yamux.cpp): frames, streams and sessions, with the locks where they matter. Relay (relay.cpp,
  client.cpp): registry, hello and routing. Tunnel: the pumps, the bridge, the accept and reconnect loops, and the
  relay as a machine; tunnel_end_to_end composes a pump of the relay, two sessions and a pump of the client.

  Dashboard. Double, Sampler (sample.cpp), Render (render.cpp), Top (tui.cpp, top.cpp).

  Command line. Args (args.cpp), Commands and Dispatch (main.cpp).

  WHAT THE LEMMAS SHOW. Each component theory has lemmas on every operation first, then the properties at its
  end: invariants kept by every step (the cache against the session table, the two tables of the relay, log
  rotation, one record per order), refinement of a map or of a byte stream (registry, routes, streams of a
  session, the tunnel from end to end), equivalence with a reference (interpolation, order of rows, updates of
  the watcher), round trips (frames, app states, the command line), exact bounds (the fit of a model), and the
  error behaviour as it is: where the code deadlocks, terminates, loses data or answers wrongly, the theorem says
  so for all inputs that lead there.

  BOUNDS. The parser of compose files runs with fuel taken from its number of lines;
  parse_never_out_of_fuel shows that it never runs out. The other loops are structural or have a measure. Pumps,
  the accept loops, the sampler and the dashboard are driven by finite lists of events; a result says whether the
  loop has ended or is still running when the list does. The size of a pipe is a parameter of the child's
  relation. A list of send() results that runs out counts as a failed send().

  NOT MODELLED. Calls whose whole content is a library's or the kernel's: the TLS handshake and its contexts, the
  unused TLS helpers of the tunnel client, socket options, the modes of files, sleeping, the local time in
  log lines, the connect() that tests a port. Data races beyond the interleavings above: the sessions of a
  relay are looked up under another mutex than they are stored under, which is noted as a finding but not a step
  of the machine. Signal handlers act through the flags the loops read. The build system, scripts and documents are
  not part of the running program.
\<close>

end
